(* ===== verification/Prelude.thy ===== *)
theory Prelude
  imports Main "HOL-Library.Word" "HOL-Library.AList" "HOL-Library.Sublist"
begin

text \<open>
  Shared vocabulary of the development: Go's byte strings and fixed-width integers,
  association lists standing for Go maps, and the list facts the components use to
  take apart newline-framed text.

  A Go \<^verbatim>\<open>string\<close> is a sequence of bytes; an Isabelle character is a byte, so
  \<^typ>\<open>string\<close> is the type of Go strings and \<^const>\<open>length\<close> is \<^verbatim>\<open>len\<close>.
  Go's \<^verbatim>\<open>int\<close> and \<^verbatim>\<open>int64\<close> are 64 bits wide; they are \<^typ>\<open>int\<close> values with
  the wrap-around of an overflowing operation written out by \<open>wrap64\<close>.
\<close>

named_theorems go_defs \<open>definitions of the Go library model, for unfolding\<close>
named_theorems frame_simps \<open>which fields an operation leaves alone\<close>

type_synonym byte = "8 word"
type_synonym ('k, 'v) gomap = "('k \<times> 'v) list"

abbreviation byte_of :: "char \<Rightarrow> nat" where
  "byte_of c \<equiv> of_char c"

abbreviation newline :: char where
  "newline \<equiv> CHR 0x0A"

subsection \<open>64-bit integers\<close>

definition wrap64 :: "int \<Rightarrow> int" where
  "wrap64 x = (x + 2 ^ 63) mod 2 ^ 64 - 2 ^ 63"

definition in_int64 :: "int \<Rightarrow> bool" where
  "in_int64 x \<longleftrightarrow> - (2 ^ 63) \<le> x \<and> x < 2 ^ 63"

lemma wrap64_id [simp]: "in_int64 x \<Longrightarrow> wrap64 x = x"
  unfolding in_int64_def wrap64_def by simp

lemma in_int64_wrap64 [simp]: "in_int64 (wrap64 x)"
proof -
  have "0 \<le> (x + 2 ^ 63) mod 2 ^ 64" and "(x + 2 ^ 63) mod 2 ^ 64 < 2 ^ 64"
    by simp_all
  then show ?thesis unfolding in_int64_def wrap64_def by simp
qed

lemma wrap64_idem [simp]: "wrap64 (wrap64 x) = wrap64 x"
  by simp

subsection \<open>Go maps as association lists\<close>

text \<open>
  A map is an association list without duplicate keys; the order of the list is the
  order in which a \<^verbatim>\<open>range\<close> over the map visits it, which Go leaves open, so a fact
  proved for every list holds for every iteration order.
\<close>

definition wf_map :: "('k, 'v) gomap \<Rightarrow> bool" where
  "wf_map m \<longleftrightarrow> distinct (map fst m)"

lemma wf_map_Nil [simp]: "wf_map []"
  by (simp add: wf_map_def)

lemma wf_map_update [simp]: "wf_map m \<Longrightarrow> wf_map (AList.update k v m)"
  by (simp add: wf_map_def distinct_update)

lemma wf_map_delete [simp]: "wf_map m \<Longrightarrow> wf_map (AList.delete k m)"
  by (simp add: wf_map_def distinct_delete)

lemma wf_map_filter [simp]: "wf_map m \<Longrightarrow> wf_map (filter P m)"
  by (simp add: wf_map_def distinct_map_filter)

lemma wf_map_map_snd [simp]: "wf_map (map (\<lambda>(k, v). (k, f k v)) m) = wf_map m"
proof -
  have "map fst (map (\<lambda>(k, v). (k, f k v)) m) = map fst m"
    by (simp add: case_prod_beta comp_def)
  then show ?thesis by (simp only: wf_map_def)
qed

lemma map_of_filter:
  assumes "wf_map m"
  shows "map_of (filter (\<lambda>(k, v). P k v) m) k =
    (case map_of m k of None \<Rightarrow> None | Some v \<Rightarrow> if P k v then Some v else None)"
  using assms
proof (induction m)
  case Nil
  then show ?case by simp
next
  case (Cons a m)
  obtain k' v' where a: "a = (k', v')" by (cases a)
  from Cons.prems a have wf: "wf_map m" and k': "k' \<notin> fst ` set m"
    by (auto simp: wf_map_def)
  show ?case
  proof (cases "k' = k")
    case True
    with k' have "map_of m k = None" by (simp add: map_of_eq_None_iff)
    moreover have "map_of (filter (\<lambda>(k, v). P k v) m) k = None"
      using True k' by (auto simp: map_of_eq_None_iff)
    ultimately show ?thesis using a True by simp
  next
    case False
    with a Cons.IH [OF wf] show ?thesis by simp
  qed
qed

lemma map_of_map_snd:
  "map_of (map (\<lambda>(k, v). (k, f k v)) m) k = map_option (f k) (map_of m k)"
  by (induction m) auto

lemma map_of_update [simp]: "map_of (AList.update k v m) = (map_of m)(k \<mapsto> v)"
  by (rule update_conv')

lemma map_of_delete [simp]: "map_of (AList.delete k m) = (map_of m)(k := None)"
  by (rule delete_conv')

subsection \<open>Related lists\<close>

lemma list_all2_right: "list_all2 P xs ys \<Longrightarrow> y \<in> set ys \<Longrightarrow> \<exists>x \<in> set xs. P x y"
  by (induction rule: list_all2_induct) auto

lemma list_all2_left: "list_all2 P xs ys \<Longrightarrow> x \<in> set xs \<Longrightarrow> \<exists>y \<in> set ys. P x y"
  by (induction rule: list_all2_induct) auto

subsection \<open>Newline-framed text\<close>

text \<open>
  A separator that does not occur in the first part determines where the first part
  ends; read from the right, a separator that does not occur in the last part determines
  where the last part starts.
\<close>

lemma split_at_first:
  assumes "x \<notin> set a" and "x \<notin> set b" and "a @ x # r = b @ x # s"
  shows "a = b \<and> r = s"
proof -
  have cut: "takeWhile (\<lambda>y. y \<noteq> x) (c @ x # t) = c" if "x \<notin> set c" for c t
    using that by (induction c) auto
  from cut [OF assms(1), of r] cut [OF assms(2), of s] assms(3) have "a = b"
    by simp
  with assms(3) show ?thesis by simp
qed

lemma split_at_last:
  assumes "x \<notin> set r" and "x \<notin> set s" and "a @ x # r = b @ x # s"
  shows "a = b \<and> r = s"
proof -
  have "rev r @ x # rev a = rev s @ x # rev b"
    using arg_cong [OF assms(3), of rev] by simp
  with split_at_first [of x "rev r" "rev s" "rev a" "rev b"] assms(1,2) show ?thesis
    by simp
qed

text \<open>A line \<open>label @ value\<close> ending in a newline, at the end of a text.\<close>

lemma last_line_inject:
  assumes "newline \<notin> set v" and "newline \<notin> set w"
    and "a @ newline # l @ v @ [newline] = b @ newline # l @ w @ [newline]"
    and "newline \<notin> set l"
  shows "a = b \<and> v = w"
proof -
  from assms(3) have "a @ newline # (l @ v) = b @ newline # (l @ w)"
    by simp
  with split_at_last [of newline "l @ v" "l @ w" a b] assms(1,2,4) show ?thesis
    by simp
qed

end
