(* ===== verification/GoLib.thy ===== *)
theory GoLib
  imports Prelude
begin

text \<open>
  The parts of Go's standard library the repository relies on.

  Written out here: byte-level \<^verbatim>\<open>strings\<close> operations, UTF-8 decoding as performed by
  \<^verbatim>\<open>range\<close> over a string, decimal and hexadecimal printing, \<^verbatim>\<open>encoding/base64\<close> (URL
  alphabet, padded and raw) and the escaping and query parsing of \<^verbatim>\<open>net/url\<close>.

  Kept as a parameter, the record \<open>golib\<close>: SHA-256, the regular-expression engine,
  the JSON syntax parser, and the Unicode case and space tables. The case operations are
  concrete on ASCII strings, where Go takes a byte-wise path, and defer to the parameter
  only on strings with a byte above 127. \<open>MaxParams\<close> is the cap on the number of query
  parameters that some toolchain versions enforce in \<^verbatim>\<open>url.ParseQuery\<close>.
\<close>

datatype json = JNull | JBool bool | JNum string | JStr string
  | JArr "json list" | JObj "(string \<times> json) list"

record golib =
  Sum256 :: "string \<Rightarrow> 256 word"
  regexp_Compile :: "string \<Rightarrow> (string \<Rightarrow> bool) option"
  json_Parse :: "string \<Rightarrow> json option"
  unicode_ToLower :: "string \<Rightarrow> string"
  unicode_ToUpper :: "string \<Rightarrow> string"
  unicode_EqualFold :: "string \<Rightarrow> string \<Rightarrow> bool"
  unicode_TrimSpace :: "string \<Rightarrow> string"
  MaxParams :: "nat option"

subsection \<open>Package strings\<close>

definition is_ascii :: "string \<Rightarrow> bool" where
  "is_ascii s \<longleftrightarrow> list_all (\<lambda>c. byte_of c < (128 :: nat)) s"

definition lower_byte :: "char \<Rightarrow> char" where
  "lower_byte c = (if 65 \<le> byte_of c \<and> byte_of c \<le> (90 :: nat) then char_of (byte_of c + 32 :: nat) else c)"

text \<open>The same on the bits of a character, for evaluation.\<close>

lemma lower_byte_code [code]:
  "lower_byte (Char b0 b1 b2 b3 b4 b5 b6 b7) =
     (let n = byte_of (Char b0 b1 b2 b3 b4 b5 b6 b7) :: nat
      in if 65 \<le> n \<and> n \<le> 90 then Char b0 b1 b2 b3 b4 True b6 b7 else Char b0 b1 b2 b3 b4 b5 b6 b7)"
  by (cases b0; cases b1; cases b2; cases b3; cases b4; cases b5; cases b6; cases b7; simp add: lower_byte_def char_of_def bit_0)

definition upper_byte :: "char \<Rightarrow> char" where
  "upper_byte c = (if 97 \<le> byte_of c \<and> byte_of c \<le> (122 :: nat) then char_of (byte_of c - 32 :: nat) else c)"

definition ToLower :: "golib \<Rightarrow> string \<Rightarrow> string" where
  "ToLower L s = (if is_ascii s then map lower_byte s else unicode_ToLower L s)"

definition ToUpper :: "golib \<Rightarrow> string \<Rightarrow> string" where
  "ToUpper L s = (if is_ascii s then map upper_byte s else unicode_ToUpper L s)"

definition EqualFold :: "golib \<Rightarrow> string \<Rightarrow> string \<Rightarrow> bool" where
  "EqualFold L s t =
     (if is_ascii s \<and> is_ascii t then map lower_byte s = map lower_byte t
      else unicode_EqualFold L s t)"

definition ascii_space :: "char \<Rightarrow> bool" where
  "ascii_space c \<longleftrightarrow> c \<in> {CHR 0x09, CHR 0x0A, CHR 0x0B, CHR 0x0C, CHR 0x0D, CHR 0x20}"

definition trim_right :: "(char \<Rightarrow> bool) \<Rightarrow> string \<Rightarrow> string" where
  "trim_right P s = rev (dropWhile P (rev s))"

definition TrimSpace :: "golib \<Rightarrow> string \<Rightarrow> string" where
  "TrimSpace L s =
     (if is_ascii s then trim_right ascii_space (dropWhile ascii_space s)
      else unicode_TrimSpace L s)"

definition HasPrefix :: "string \<Rightarrow> string \<Rightarrow> bool" where
  "HasPrefix s p = prefix p s"

definition HasSuffix :: "string \<Rightarrow> string \<Rightarrow> bool" where
  "HasSuffix s p = suffix p s"

definition Contains :: "string \<Rightarrow> string \<Rightarrow> bool" where
  "Contains s t = sublist t s"

fun IndexByte :: "string \<Rightarrow> char \<Rightarrow> nat option" where
  "IndexByte [] c = None"
| "IndexByte (x # xs) c = (if x = c then Some 0 else map_option Suc (IndexByte xs c))"

fun LastIndexByte :: "string \<Rightarrow> char \<Rightarrow> nat option" where
  "LastIndexByte [] c = None"
| "LastIndexByte (x # xs) c =
     (case LastIndexByte xs c of
        Some i \<Rightarrow> Some (Suc i)
      | None \<Rightarrow> if x = c then Some 0 else None)"

fun split_on :: "char \<Rightarrow> string \<Rightarrow> string list" where
  "split_on c [] = [[]]"
| "split_on c (x # xs) =
     (if x = c then [] # split_on c xs
      else case split_on c xs of [] \<Rightarrow> [[x]] | y # ys \<Rightarrow> (x # y) # ys)"

text \<open>\<^verbatim>\<open>strings.Cut\<close>: the part before the first separator and the part after it.\<close>

definition Cut :: "char \<Rightarrow> string \<Rightarrow> string \<times> string" where
  "Cut c s = (takeWhile (\<lambda>x. x \<noteq> c) s, drop 1 (dropWhile (\<lambda>x. x \<noteq> c) s))"

fun Join :: "string list \<Rightarrow> string \<Rightarrow> string" where
  "Join [] sep = []"
| "Join [x] sep = x"
| "Join (x # y # ys) sep = x @ sep @ Join (y # ys) sep"

lemma IndexByte_None_iff: "IndexByte s c = None \<longleftrightarrow> c \<notin> set s"
  by (induction s) auto

lemma IndexByte_append: "c \<notin> set s \<Longrightarrow> IndexByte (s @ c # t) c = Some (length s)"
  by (induction s) auto

lemma LastIndexByte_None_iff: "LastIndexByte s c = None \<longleftrightarrow> c \<notin> set s"
  by (induction s) (auto split: option.split)

lemma LastIndexByte_append: "c \<notin> set t \<Longrightarrow> LastIndexByte (s @ c # t) c = Some (length s)"
proof (induction s)
  case Nil
  then show ?case by (simp add: LastIndexByte_None_iff [THEN iffD2])
qed simp

subsection \<open>Runes: UTF-8 as decoded by a range loop\<close>

text \<open>
  An ill-formed sequence yields U+FFFD and advances one byte, as in \<^verbatim>\<open>utf8.DecodeRune\<close>:
  over-long forms, surrogates and values above U+10FFFF are ill-formed.
\<close>

definition cont :: "nat \<Rightarrow> bool" where
  "cont b \<longleftrightarrow> 0x80 \<le> b \<and> b \<le> 0xBF"

definition second_ok :: "nat \<Rightarrow> nat \<Rightarrow> bool" where
  "second_ok b0 b1 \<longleftrightarrow>
     (if b0 = 0xE0 then 0xA0 else if b0 = 0xF0 then 0x90 else 0x80) \<le> b1 \<and>
     b1 \<le> (if b0 = 0xED then 0x9F else if b0 = 0xF4 then 0x8F else 0xBF)"

definition DecodeRune :: "nat \<Rightarrow> nat list \<Rightarrow> nat \<times> nat" where
  "DecodeRune b0 bs =
     (if b0 < 0x80 then (b0, 1)
      else if 0xC2 \<le> b0 \<and> b0 \<le> 0xDF then
        (case bs of
           b1 # _ \<Rightarrow> if second_ok b0 b1 then ((b0 - 0xC0) * 64 + (b1 - 0x80), 2) else (0xFFFD, 1)
         | _ \<Rightarrow> (0xFFFD, 1))
      else if 0xE0 \<le> b0 \<and> b0 \<le> 0xEF then
        (case bs of
           b1 # b2 # _ \<Rightarrow>
             if second_ok b0 b1 \<and> cont b2
             then ((b0 - 0xE0) * 4096 + (b1 - 0x80) * 64 + (b2 - 0x80), 3) else (0xFFFD, 1)
         | _ \<Rightarrow> (0xFFFD, 1))
      else if 0xF0 \<le> b0 \<and> b0 \<le> 0xF4 then
        (case bs of
           b1 # b2 # b3 # _ \<Rightarrow>
             if second_ok b0 b1 \<and> cont b2 \<and> cont b3
             then ((b0 - 0xF0) * 262144 + (b1 - 0x80) * 4096 + (b2 - 0x80) * 64 + (b3 - 0x80), 4)
             else (0xFFFD, 1)
         | _ \<Rightarrow> (0xFFFD, 1))
      else (0xFFFD, 1))"

fun decode_runes :: "nat list \<Rightarrow> nat list" where
  "decode_runes [] = []"
| "decode_runes (b # bs) =
     fst (DecodeRune b bs) # decode_runes (drop (snd (DecodeRune b bs) - 1) bs)"

definition runes :: "string \<Rightarrow> nat list" where
  "runes s = decode_runes (map byte_of s)"

text \<open>\<^verbatim>\<open>unicode.IsControl\<close>: category Cc.\<close>

definition IsControl :: "nat \<Rightarrow> bool" where
  "IsControl r \<longleftrightarrow> r < 0x20 \<or> 0x7F \<le> r \<and> r < 0xA0"

lemma decode_runes_ascii:
  "list_all (\<lambda>b. b < 0x80) bs \<Longrightarrow> decode_runes bs = bs"
  by (induction bs) (auto simp: DecodeRune_def)

lemma runes_ascii: "is_ascii s \<Longrightarrow> runes s = map byte_of s"
  by (simp add: runes_def is_ascii_def decode_runes_ascii list_all_iff)

text \<open>An ASCII byte is a rune of its own wherever it stands.\<close>

lemma second_ok_high: "second_ok b0 b1 \<Longrightarrow> 0x80 \<le> b1"
  by (simp add: second_ok_def split: if_splits)

lemma DecodeRune_skips_high:
  "\<forall>y \<in> set (take (snd (DecodeRune b bs) - 1) bs). 0x80 \<le> y"
proof -
  have *: "0x80 \<le> y" if "cont y" for y
    using that by (simp add: cont_def)
  show ?thesis
    unfolding DecodeRune_def
    by (simp add: second_ok_high * split: list.split)
qed

lemma drop_keeps_ascii:
  assumes "x \<in> set bs" and "x < 0x80"
  shows "x \<in> set (drop (snd (DecodeRune b bs) - 1) bs)"
proof -
  have "x \<in> set (take (snd (DecodeRune b bs) - 1) bs) \<or> x \<in> set (drop (snd (DecodeRune b bs) - 1) bs)"
    using assms(1) by (metis UnE append_take_drop_id set_append)
  with DecodeRune_skips_high [of b bs] assms(2) show ?thesis by auto
qed

lemma ascii_byte_in_decode_runes:
  "x \<in> set bs \<Longrightarrow> x < 0x80 \<Longrightarrow> x \<in> set (decode_runes bs)"
proof (induction bs rule: decode_runes.induct)
  case 1
  then show ?case by simp
next
  case (2 b bs)
  show ?case
  proof (cases "x = b")
    case True
    with "2.prems" show ?thesis by (simp add: DecodeRune_def)
  next
    case False
    with "2.prems" have "x \<in> set (drop (snd (DecodeRune b bs) - 1) bs)"
      by (intro drop_keeps_ascii) auto
    with "2.IH" "2.prems" show ?thesis by simp
  qed
qed

lemma ascii_char_in_runes:
  "c \<in> set s \<Longrightarrow> byte_of c < (0x80 :: nat) \<Longrightarrow> byte_of c \<in> set (runes s)"
  unfolding runes_def by (rule ascii_byte_in_decode_runes) auto

end
