(* ===== verification/GoEncoding.thy ===== *)
theory GoEncoding
  imports GoLib
begin

text \<open>
  Text encodings of the Go library used by the repository: decimal integers
  (\<^verbatim>\<open>fmt\<close>'s \<^verbatim>\<open>%d\<close>, \<^verbatim>\<open>strconv\<close>), hexadecimal, base64 with the URL alphabet, and percent
  escapes and query strings. Each encoder comes with the fact that it loses nothing.
\<close>

subsection \<open>Decimal integers\<close>

definition digit_char :: "nat \<Rightarrow> char" where
  "digit_char d = char_of (48 + d)"

lemma digit_char_code [code]:
  "digit_char d = (if d < 10 then ''0123456789'' ! d else char_of (48 + d))"
proof -
  have "\<forall>d \<in> {..<10}. digit_char d = ''0123456789'' ! d"
    by (simp add: lessThan_nat_numeral digit_char_def char_of_def bit_simps lessThan_Suc)
  then show ?thesis by (simp add: digit_char_def)
qed

definition is_digit :: "char \<Rightarrow> bool" where
  "is_digit c \<longleftrightarrow> 48 \<le> byte_of c \<and> byte_of c \<le> (57 :: nat)"

definition digit_val :: "char \<Rightarrow> nat" where
  "digit_val c = byte_of c - 48"

fun show_nat :: "nat \<Rightarrow> string" where
  "show_nat n = (if n < 10 then [digit_char n] else show_nat (n div 10) @ [digit_char (n mod 10)])"

declare show_nat.simps [simp del]

definition FormatInt :: "int \<Rightarrow> string" where
  "FormatInt x = (if x < 0 then CHR ''-'' # show_nat (nat (- x)) else show_nat (nat x))"

definition read_nat :: "string \<Rightarrow> nat" where
  "read_nat s = foldl (\<lambda>a c. a * 10 + digit_val c) 0 s"

text \<open>\<^verbatim>\<open>strconv.ParseInt(s, 10, 64)\<close>; \<^verbatim>\<open>None\<close> stands for a syntax or range error.\<close>

definition ParseInt :: "string \<Rightarrow> int option" where
  "ParseInt s =
     (let neg = (case s of c # _ \<Rightarrow> c = CHR ''-'' | [] \<Rightarrow> False);
          ds = (case s of c # r \<Rightarrow> if c = CHR ''-'' \<or> c = CHR ''+'' then r else s | [] \<Rightarrow> [])
      in if ds = [] \<or> \<not> list_all is_digit ds then None
         else let v = (if neg then - int (read_nat ds) else int (read_nat ds))
              in if in_int64 v then Some v else None)"

lemma byte_of_digit_char: "d < 10 \<Longrightarrow> byte_of (digit_char d) = 48 + d"
  by (simp add: digit_char_def of_char_of)

lemma is_digit_digit_char: "d < 10 \<Longrightarrow> is_digit (digit_char d)"
  by (simp add: is_digit_def byte_of_digit_char)

lemma digit_val_digit_char: "d < 10 \<Longrightarrow> digit_val (digit_char d) = d"
  by (simp add: digit_val_def byte_of_digit_char)

lemma show_nat_digits: "list_all is_digit (show_nat n)"
proof (induction n rule: show_nat.induct)
  case (1 n)
  then show ?case
    by (subst show_nat.simps) (simp add: is_digit_digit_char)
qed

lemma show_nat_not_Nil [simp]: "show_nat n \<noteq> []"
  by (subst show_nat.simps) simp

lemma read_nat_show_nat [simp]: "read_nat (show_nat n) = n"
proof (induction n rule: show_nat.induct)
  case (1 n)
  show ?case
  proof (cases "n < 10")
    case True
    then show ?thesis
      by (subst show_nat.simps) (simp add: read_nat_def digit_val_digit_char)
  next
    case False
    with 1 have "read_nat (show_nat (n div 10)) = n div 10" by simp
    with False show ?thesis
      by (subst show_nat.simps) (simp add: read_nat_def digit_val_digit_char)
  qed
qed

lemma digit_not_special:
  assumes "is_digit c"
  shows "c \<noteq> CHR ''-''" and "c \<noteq> CHR ''+''" and "c \<noteq> newline"
  using assms by (auto simp: is_digit_def)

lemma show_nat_hd: "c \<in> set (show_nat n) \<Longrightarrow> is_digit c"
  using show_nat_digits [of n] by (simp add: list_all_iff)

lemma newline_notin_show_nat: "newline \<notin> set (show_nat n)"
  using show_nat_hd digit_not_special(3) by blast

lemma newline_notin_FormatInt [simp]: "newline \<notin> set (FormatInt x)"
  by (simp add: FormatInt_def newline_notin_show_nat)

lemma show_nat_Cons_digit: "show_nat n = c # r \<Longrightarrow> is_digit c"
  using show_nat_hd [of c n] by simp

lemma FormatInt_cases:
  "FormatInt x = s \<Longrightarrow> (x < 0 \<longleftrightarrow> (\<exists>r. s = CHR ''-'' # r))"
  using show_nat_Cons_digit digit_not_special(1) by (fastforce simp: FormatInt_def split: if_splits)

lemma FormatInt_inject [simp]: "FormatInt x = FormatInt y \<longleftrightarrow> x = y"
proof
  assume eq: "FormatInt x = FormatInt y"
  then have sgn: "x < 0 \<longleftrightarrow> y < 0" using FormatInt_cases by metis
  with eq have "show_nat (nat \<bar>x\<bar>) = show_nat (nat \<bar>y\<bar>)"
    by (auto simp: FormatInt_def split: if_splits)
  then have "nat \<bar>x\<bar> = nat \<bar>y\<bar>" by (metis read_nat_show_nat)
  with sgn show "x = y" by linarith
qed simp

lemma ParseInt_FormatInt:
  assumes "in_int64 x"
  shows "ParseInt (FormatInt x) = Some x"
proof (cases "x < 0")
  case True
  with assms show ?thesis
    by (simp add: ParseInt_def FormatInt_def show_nat_digits Let_def)
next
  case False
  obtain c r where c: "show_nat (nat x) = c # r" by (cases "show_nat (nat x)") auto
  then have "is_digit c" by (rule show_nat_Cons_digit)
  with digit_not_special [of c] c False assms show_nat_digits [of "nat x"] read_nat_show_nat [of "nat x"]
  show ?thesis by (simp add: ParseInt_def FormatInt_def Let_def)
qed

subsection \<open>The repository's own integer printer\<close>

text \<open>
  \<^verbatim>\<open>itoa\<close> fills a 20-byte buffer from the right; the digits written so far are the second
  argument. Negating the least \<^verbatim>\<open>int64\<close> leaves it negative, and then the loop does not run.
  The same function occurs in \<^verbatim>\<open>storage/memory\<close>, \<^verbatim>\<open>storage/redis\<close> and \<^verbatim>\<open>transport/echo\<close>.
\<close>

function itoa_loop :: "int \<Rightarrow> string \<Rightarrow> string" where
  "itoa_loop n buf =
     (if n > 0 then itoa_loop (n div 10) (digit_char (nat (n mod 10)) # buf) else buf)"
  by pat_completeness auto
termination
  by (relation "measure (\<lambda>(n, buf). nat n)") auto

declare itoa_loop.simps [simp del]

definition itoa :: "int \<Rightarrow> string" where
  "itoa n =
     (if n = 0 then ''0''
      else let neg = n < 0; n' = (if neg then wrap64 (- n) else n); buf = itoa_loop n' []
           in if neg then CHR ''-'' # buf else buf)"

lemma itoa_loop_show_nat: "0 < n \<Longrightarrow> itoa_loop n buf = show_nat (nat n) @ buf"
proof (induction n buf rule: itoa_loop.induct)
  case (1 n buf)
  show ?case
  proof (cases "n < 10")
    case True
    with "1.prems" have "n div 10 = 0" and "n mod 10 = n" by auto
    with "1.prems" True show ?thesis
      by (subst itoa_loop.simps, subst itoa_loop.simps, subst show_nat.simps) simp
  next
    case False
    then have "0 < n div 10" by simp
    with "1.IH" "1.prems" have
      "itoa_loop (n div 10) (digit_char (nat (n mod 10)) # buf) =
         show_nat (nat (n div 10)) @ digit_char (nat (n mod 10)) # buf" by simp
    with "1.prems" False show ?thesis
      by (subst itoa_loop.simps, subst show_nat.simps) (simp add: nat_div_distrib nat_mod_distrib)
  qed
qed

lemma itoa_eq_FormatInt:
  assumes "- (2 ^ 63) < n" and "n < 2 ^ 63"
  shows "itoa n = FormatInt n"
proof -
  have z: "show_nat 0 = ''0''" by code_simp
  have "in_int64 (- n)" using assms by (simp add: in_int64_def)
  with assms z show ?thesis by (auto simp: itoa_def FormatInt_def itoa_loop_show_nat Let_def)
qed

subsection \<open>Hexadecimal\<close>

definition hex_char :: "nat \<Rightarrow> char" where
  "hex_char n = (if n < 10 then char_of (48 + n) else char_of (87 + n))"

lemma hex_char_code [code]:
  "hex_char n = (if n < 16 then ''0123456789abcdef'' ! n else char_of (87 + n))"
proof -
  have "\<forall>n \<in> {..<16}. hex_char n = ''0123456789abcdef'' ! n"
    by (simp add: lessThan_nat_numeral hex_char_def char_of_def bit_simps lessThan_Suc)
  then show ?thesis by (simp add: hex_char_def)
qed

definition hex_EncodeToString :: "byte list \<Rightarrow> string" where
  "hex_EncodeToString bs = concat (map (\<lambda>b. [hex_char (unat b div 16), hex_char (unat b mod 16)]) bs)"

text \<open>The 32 bytes of a digest, most significant first.\<close>

definition digest_bytes :: "256 word \<Rightarrow> byte list" where
  "digest_bytes w = map (\<lambda>i. ucast (drop_bit (8 * (31 - i)) w)) [0..<32]"

lemma length_digest_bytes [simp]: "length (digest_bytes w) = 32"
  by (simp add: digest_bytes_def)

text \<open>A code equation that evaluates faster: the digits of the value to base 256.\<close>

fun bytes_of_int :: "nat \<Rightarrow> int \<Rightarrow> byte list \<Rightarrow> byte list" where
  "bytes_of_int 0 x acc = acc"
| "bytes_of_int (Suc k) x acc = bytes_of_int k (x div 256) (word_of_int (x mod 256) # acc)"

lemma bytes_of_int_eq:
  "bytes_of_int k x acc = map (\<lambda>i. word_of_int (x div 256 ^ (k - Suc i) mod 256)) [0..<k] @ acc"
proof (induction k arbitrary: x acc)
  case (Suc k)
  have "map (\<lambda>i. word_of_int (x div 256 ^ (Suc k - Suc i) mod 256)) [0..<Suc k] =
      map (\<lambda>i. word_of_int (x div 256 div 256 ^ (k - Suc i) mod 256)) [0..<k] @ [word_of_int (x mod 256) :: byte]"
    by (auto simp: zdiv_zmult2_eq [symmetric] Suc_diff_Suc simp flip: power_Suc)
  with Suc show ?case by simp
qed simp

lemma digest_byte_int: "(ucast (drop_bit (8 * j) (w :: 256 word)) :: byte) = word_of_int (uint w div 256 ^ j mod 256)"
proof (rule word_uint_eqI)
  have "uint (drop_bit (8 * j) w) = drop_bit (8 * j) (uint w)"
    by (simp only: unsigned_drop_bit_eq) (simp add: unsigned_take_bit_eq [symmetric] take_bit_word_eq_self)
  also have "\<dots> = uint w div 256 ^ j" by (simp add: drop_bit_eq_div power_mult)
  finally have "uint (drop_bit (8 * j) w) = uint w div 256 ^ j" .
  then show "uint (ucast (drop_bit (8 * j) w) :: byte) = uint (word_of_int (uint w div 256 ^ j mod 256) :: byte)"
    by (simp add: unsigned_ucast_eq take_bit_eq_mod uint_word_of_int)
qed

lemma digest_bytes_code [code]: "digest_bytes w = bytes_of_int 32 (uint w) []"
  by (auto simp: digest_bytes_def bytes_of_int_eq digest_byte_int)

lemma length_hex [simp]: "length (hex_EncodeToString bs) = 2 * length bs"
  unfolding hex_EncodeToString_def by (induction bs) auto

definition lower_hex :: "char \<Rightarrow> bool" where
  "lower_hex c \<longleftrightarrow> 48 \<le> byte_of c \<and> byte_of c \<le> (57 :: nat) \<or> 97 \<le> byte_of c \<and> byte_of c \<le> (102 :: nat)"

lemma lower_hex_hex_char: "n < 16 \<Longrightarrow> lower_hex (hex_char n)"
  by (simp add: lower_hex_def hex_char_def of_char_of)

lemma hex_chars: "c \<in> set (hex_EncodeToString bs) \<Longrightarrow> lower_hex c"
proof -
  assume "c \<in> set (hex_EncodeToString bs)"
  then obtain b :: byte where "c = hex_char (unat b div 16) \<or> c = hex_char (unat b mod 16)"
    unfolding hex_EncodeToString_def by fastforce
  moreover have "unat b div 16 < 16" using unsigned_less [of b, where ?'a = nat] by simp
  ultimately show ?thesis by (auto intro: lower_hex_hex_char)
qed

lemma lower_hex_ascii: "lower_hex c \<Longrightarrow> byte_of c < (128 :: nat)"
  by (auto simp: lower_hex_def)

lemma is_ascii_hex [simp]: "is_ascii (hex_EncodeToString bs)"
  using hex_chars lower_hex_ascii by (auto simp: is_ascii_def list_all_iff)

lemma lower_byte_lower_hex: "lower_hex c \<Longrightarrow> lower_byte c = c"
  by (auto simp: lower_hex_def lower_byte_def)

lemma map_lower_byte_hex [simp]:
  "map lower_byte (hex_EncodeToString bs) = hex_EncodeToString bs"
  using hex_chars lower_byte_lower_hex by (auto intro: map_idI)

lemma hex_char_inject: "m < 16 \<Longrightarrow> n < 16 \<Longrightarrow> hex_char m = hex_char n \<longleftrightarrow> m = n"
proof -
  assume "m < 16" and "n < 16"
  then have "byte_of (hex_char m) = byte_of (hex_char n) \<longleftrightarrow> m = n"
    by (auto simp: hex_char_def of_char_of)
  then show ?thesis by auto
qed

lemma byte_eq_iff_nibbles:
  "a = b \<longleftrightarrow> unat a div 16 = unat b div 16 \<and> unat a mod 16 = unat b mod (16 :: nat)"
  for a b :: byte
  by (metis mult_div_mod_eq unsigned_word_eqI)

lemma hex_inject: "hex_EncodeToString as = hex_EncodeToString bs \<Longrightarrow> as = bs"
proof (induction as arbitrary: bs)
  case Nil
  then show ?case by (cases bs) (auto simp: hex_EncodeToString_def)
next
  case (Cons a as)
  then obtain b bs' where bs: "bs = b # bs'" by (cases bs) (auto simp: hex_EncodeToString_def)
  have small: "unat c div 16 < 16" for c :: byte
    using unsigned_less [of c, where ?'a = nat] by simp
  from Cons.prems bs have "a = b"
    by (auto simp: hex_EncodeToString_def hex_char_inject small byte_eq_iff_nibbles)
  moreover from Cons.prems bs have "hex_EncodeToString as = hex_EncodeToString bs'"
    by (simp add: hex_EncodeToString_def)
  ultimately show ?case using Cons.IH bs by simp
qed

end
