(* ===== verification/GoWeb.thy ===== *)
theory GoWeb
  imports GoEncoding
begin

text \<open>
  \<^verbatim>\<open>encoding/base64\<close> (the URL alphabet, raw and padded, in the non-strict mode the
  repository uses) and the parts of \<^verbatim>\<open>net/url\<close> it calls: percent-decoding of a path or a
  query component and parsing of a query string.
\<close>

subsection \<open>Base64, URL alphabet\<close>

definition b64_char :: "nat \<Rightarrow> char" where
  "b64_char v =
     (if v < 26 then char_of (65 + v) else if v < 52 then char_of (71 + v)
      else if v < 62 then char_of (v - 4) else if v = 62 then CHR ''-'' else CHR ''_'')"

definition b64_val :: "char \<Rightarrow> nat option" where
  "b64_val c =
     (let b = byte_of c in
      if 65 \<le> b \<and> b \<le> 90 then Some (b - 65)
      else if 97 \<le> b \<and> b \<le> 122 then Some (b - 71)
      else if 48 \<le> b \<and> b \<le> 57 then Some (b + 4)
      else if b = 45 then Some 62
      else if b = 95 then Some 63
      else None)"

fun b64_quanta :: "nat list \<Rightarrow> nat list option" where
  "b64_quanta [] = Some []"
| "b64_quanta [a] = None"
| "b64_quanta [a, b] = Some [a * 4 + b div 16]"
| "b64_quanta [a, b, c] = Some [a * 4 + b div 16, (b mod 16) * 16 + c div 4]"
| "b64_quanta (a # b # c # d # r) =
     map_option (\<lambda>xs. (a * 4 + b div 16) # ((b mod 16) * 16 + c div 4) # ((c mod 4) * 64 + d) # xs)
       (b64_quanta r)"

fun b64_vals :: "string \<Rightarrow> nat list option" where
  "b64_vals [] = Some []"
| "b64_vals (c # cs) =
     (case b64_val c of None \<Rightarrow> None | Some v \<Rightarrow> map_option (Cons v) (b64_vals cs))"

text \<open>The decoder skips carriage returns and line feeds wherever they stand.\<close>

definition b64_strip :: "string \<Rightarrow> string" where
  "b64_strip s = filter (\<lambda>c. c \<noteq> CHR 0x0A \<and> c \<noteq> CHR 0x0D) s"

definition b64_body :: "string \<Rightarrow> string option" where
  "b64_body s = map_option (map char_of) (Option.bind (b64_vals s) b64_quanta)"

definition RawURLEncoding_Decode :: "string \<Rightarrow> string option" where
  "RawURLEncoding_Decode s = b64_body (b64_strip s)"

definition URLEncoding_Decode :: "string \<Rightarrow> string option" where
  "URLEncoding_Decode s =
     (let t = b64_strip s in
      if length t mod 4 \<noteq> 0 then None
      else if suffix ''=='' t then b64_body (take (length t - 2) t)
      else if suffix ''='' t then b64_body (take (length t - 1) t)
      else b64_body t)"

fun b64_encode :: "nat list \<Rightarrow> nat list" where
  "b64_encode [] = []"
| "b64_encode [x] = [x div 4, (x mod 4) * 16]"
| "b64_encode [x, y] = [x div 4, (x mod 4) * 16 + y div 16, (y mod 16) * 4]"
| "b64_encode (x # y # z # r) =
     x div 4 # ((x mod 4) * 16 + y div 16) # ((y mod 16) * 4 + z div 64) # (z mod 64) # b64_encode r"

definition RawURLEncoding_Encode :: "string \<Rightarrow> string" where
  "RawURLEncoding_Encode s = map b64_char (b64_encode (map byte_of s))"

lemma b64_val_char: "v < 64 \<Longrightarrow> b64_val (b64_char v) = Some v"
  by (auto simp: b64_val_def b64_char_def of_char_of Let_def)

lemma b64_vals_map: "list_all (\<lambda>v. v < 64) vs \<Longrightarrow> b64_vals (map b64_char vs) = Some vs"
  by (induction vs) (auto simp: b64_val_char)

lemma b64_quanta_encode: "list_all (\<lambda>b. b < 256) bs \<Longrightarrow> b64_quanta (b64_encode bs) = Some bs"
proof (induction bs rule: b64_encode.induct)
  case (4 x y z r)
  then have "x < 256" "y < 256" "z < 256" by auto
  then have "(x mod 4 * 16 + y div 16) div 16 = x mod 4" "(x mod 4 * 16 + y div 16) mod 16 = y div 16"
      "(y mod 16 * 4 + z div 64) div 4 = y mod 16" "(y mod 16 * 4 + z div 64) mod 4 = z div 64"
    by auto
  moreover have "x div 4 * 4 + x mod 4 = x" "y div 16 * 16 + y mod 16 = y" "z div 64 * 64 + z mod 64 = z"
    by auto
  moreover have "b64_quanta (b64_encode r) = Some r" using 4 by simp
  ultimately show ?case by simp
qed auto

lemma b64_encode_small: "list_all (\<lambda>b. b < 256) bs \<Longrightarrow> list_all (\<lambda>v. v < 64) (b64_encode bs)"
  by (induction bs rule: b64_encode.induct) auto

lemma b64_strip_chars: "list_all (\<lambda>v. v < 64) vs \<Longrightarrow> b64_strip (map b64_char vs) = map b64_char vs"
proof -
  assume small: "list_all (\<lambda>v. v < 64) vs"
  have "b64_char v \<noteq> CHR 0x0A \<and> b64_char v \<noteq> CHR 0x0D" if "v < 64" for v
  proof -
    from that have "b64_val (b64_char v) = Some v" by (rule b64_val_char)
    moreover have "b64_val (CHR 0x0A) = None" and "b64_val (CHR 0x0D) = None" by code_simp+
    ultimately show ?thesis by auto
  qed
  with small show ?thesis
    unfolding b64_strip_def by (induction vs) auto
qed

lemma byte_list_small: "list_all (\<lambda>b. b < 256) (map byte_of s :: nat list)"
  by (simp add: list_all_iff)

lemma RawURLEncoding_roundtrip: "RawURLEncoding_Decode (RawURLEncoding_Encode s) = Some s"
proof -
  have "list_all (\<lambda>v. v < 64) (b64_encode (map byte_of s))"
    by (intro b64_encode_small byte_list_small)
  then show ?thesis
    by (simp add: RawURLEncoding_Decode_def RawURLEncoding_Encode_def b64_body_def b64_strip_chars
        b64_vals_map b64_quanta_encode byte_list_small comp_def)
qed

text \<open>The padded encoder, and its agreement with the raw one.\<close>

definition b64_pad :: "string \<Rightarrow> string" where
  "b64_pad s = replicate ((3 - length s mod 3) mod 3) (CHR ''='')"

definition URLEncoding_Encode :: "string \<Rightarrow> string" where
  "URLEncoding_Encode s = RawURLEncoding_Encode s @ b64_pad s"

lemma b64_encode_length:
  "(length (b64_encode bs) + (3 - length bs mod 3) mod 3) mod 4 = 0"
proof (induction bs rule: b64_encode.induct)
  case (4 x y z r)
  have "length (x # y # z # r) mod 3 = length r mod 3" by simp
  with 4 show ?case by (simp add: mod_Suc) 
qed auto

lemma b64_vals_bad: "c \<in> set s \<Longrightarrow> b64_val c = None \<Longrightarrow> b64_vals s = None"
  by (induction s) (auto split: option.split)

lemma b64_val_equals: "b64_val (CHR ''='') = None"
  by code_simp

lemma equals_notin_encode: "CHR ''='' \<notin> set (RawURLEncoding_Encode s)"
proof
  assume "CHR ''='' \<in> set (RawURLEncoding_Encode s)"
  then obtain v where "v \<in> set (b64_encode (map byte_of s))" and v: "CHR ''='' = b64_char v"
    unfolding RawURLEncoding_Encode_def by auto
  then have "v < 64" using b64_encode_small [OF byte_list_small, of s] by (auto simp: list_all_iff)
  then have "b64_val (b64_char v) = Some v" by (rule b64_val_char)
  with v b64_val_equals show False by simp
qed

lemma b64_strip_encode: "b64_strip (RawURLEncoding_Encode s @ replicate k (CHR ''='')) =
   RawURLEncoding_Encode s @ replicate k (CHR ''='')"
proof -
  have "b64_strip (RawURLEncoding_Encode s) = RawURLEncoding_Encode s"
    unfolding RawURLEncoding_Encode_def by (intro b64_strip_chars b64_encode_small byte_list_small)
  then show ?thesis by (simp add: b64_strip_def)
qed

lemma suffix_snoc_notin: "x \<notin> set s \<Longrightarrow> \<not> suffix [x] s" 
  by (auto simp: suffix_def)

lemma URLEncoding_roundtrip: "URLEncoding_Decode (URLEncoding_Encode s) = Some s"
proof -
  let ?e = "RawURLEncoding_Encode s" and ?k = "(3 - length s mod 3) mod 3"
  have body: "b64_body ?e = Some s"
    using RawURLEncoding_roundtrip [of s] b64_strip_encode [of s 0]
    by (simp add: RawURLEncoding_Decode_def)
  have len: "(length ?e + ?k) mod 4 = 0"
    using b64_encode_length [of "map byte_of s"] by (simp add: RawURLEncoding_Encode_def)
  have ne: "\<not> suffix ''='' ?e"
    using equals_notin_encode by (rule suffix_snoc_notin)
  consider "?k = 0" | "?k = 1" | "?k = 2" by linarith
  then show ?thesis
  proof cases
    case 1
    then have "URLEncoding_Encode s = ?e" by (simp add: URLEncoding_Encode_def b64_pad_def)
    moreover have "\<not> suffix ''=='' ?e"
      using ne by (metis append_Cons append_Nil suffix_append suffix_order.trans suffixI)
    ultimately show ?thesis
      using 1 len ne body b64_strip_encode [of s 0] by (simp add: URLEncoding_Decode_def Let_def)
  next
    case 2
    then have "URLEncoding_Encode s = ?e @ ''=''" by (simp add: URLEncoding_Encode_def b64_pad_def)
    moreover have "\<not> suffix ''=='' (?e @ ''='')" using ne by (auto simp: suffix_def)
    moreover have "suffix ''='' (?e @ ''='')" by (rule suffixI) simp
    ultimately show ?thesis
      using 2 len body b64_strip_encode [of s 1] by (simp add: URLEncoding_Decode_def Let_def)
  next
    case 3
    then have "URLEncoding_Encode s = ?e @ ''==''"
      by (simp add: URLEncoding_Encode_def b64_pad_def numeral_2_eq_2)
    moreover have "suffix ''=='' (?e @ ''=='')" by (rule suffixI) simp
    ultimately show ?thesis
      using 3 len body b64_strip_encode [of s 2]
      by (simp add: URLEncoding_Decode_def Let_def numeral_2_eq_2)
  qed
qed

lemma RawURLEncoding_Decode_padded:
  assumes "b64_pad s \<noteq> []"
  shows "RawURLEncoding_Decode (URLEncoding_Encode s) = None"
proof -
  have "CHR ''='' \<in> set (URLEncoding_Encode s)"
    using assms by (auto simp: URLEncoding_Encode_def b64_pad_def)
  moreover have "b64_strip (URLEncoding_Encode s) = URLEncoding_Encode s"
    unfolding URLEncoding_Encode_def b64_pad_def by (rule b64_strip_encode)
  ultimately show ?thesis
    using b64_vals_bad b64_val_equals by (simp add: RawURLEncoding_Decode_def b64_body_def)
qed

lemma b64_encode_Nil_iff: "b64_encode bs = [] \<longleftrightarrow> bs = []"
  by (cases bs rule: b64_encode.cases) auto

subsection \<open>Package net/url\<close>

definition hex_val :: "char \<Rightarrow> nat option" where
  "hex_val c =
     (let b = byte_of c in
      if 48 \<le> b \<and> b \<le> 57 then Some (b - 48)
      else if 97 \<le> b \<and> b \<le> 102 then Some (b - 87)
      else if 65 \<le> b \<and> b \<le> 70 then Some (b - 55)
      else None)"

text \<open>
  Percent-decoding; \<open>query\<close> tells a query component, where a plus sign is a space. A percent
  sign without two hexadecimal digits after it is an error.
\<close>

fun unescape :: "bool \<Rightarrow> string \<Rightarrow> string option" where
  "unescape query [] = Some []"
| "unescape query (c # cs) =
     (if c = CHR ''%'' then
        (case cs of
           a # b # r \<Rightarrow>
             (case (hex_val a, hex_val b) of
                (Some x, Some y) \<Rightarrow> map_option (Cons (char_of (x * 16 + y))) (unescape query r)
              | _ \<Rightarrow> None)
         | _ \<Rightarrow> None)
      else map_option (Cons (if query \<and> c = CHR ''+'' then CHR '' '' else c)) (unescape query cs))"

definition PathUnescape :: "string \<Rightarrow> string option" where
  "PathUnescape s = unescape False s"

definition QueryUnescape :: "string \<Rightarrow> string option" where
  "QueryUnescape s = unescape True s"

text \<open>
  One \<^verbatim>\<open>&\<close>-separated piece of a query: an error (\<^verbatim>\<open>None\<close>), nothing (an empty piece), or a
  key and a value.
\<close>

definition query_piece :: "string \<Rightarrow> (string \<times> string) list option" where
  "query_piece s =
     (if CHR '';'' \<in> set s then None
      else if s = [] then Some []
      else case Cut (CHR ''='') s of (k, v) \<Rightarrow>
        (case (QueryUnescape k, QueryUnescape v) of
           (Some k', Some v') \<Rightarrow> Some [(k', v')]
         | _ \<Rightarrow> None))"

fun query_pieces :: "string list \<Rightarrow> (string \<times> string) list option" where
  "query_pieces [] = Some []"
| "query_pieces (p # ps) =
     (case (query_piece p, query_pieces ps) of
        (Some xs, Some ys) \<Rightarrow> Some (xs @ ys)
      | _ \<Rightarrow> None)"

text \<open>
  \<^verbatim>\<open>url.ParseQuery\<close>, with \<^verbatim>\<open>None\<close> when it reports an error (the repository discards the
  partial result then). The values are kept in order of appearance.
\<close>

definition ParseQuery :: "golib \<Rightarrow> string \<Rightarrow> (string \<times> string) list option" where
  "ParseQuery L q =
     (let ps = split_on (CHR ''&'') q in
      case MaxParams L of
        Some n \<Rightarrow> if n < length ps then None else query_pieces ps
      | None \<Rightarrow> query_pieces ps)"

text \<open>\<^verbatim>\<open>Values.Get\<close>: the first value of a key, the empty string when there is none.\<close>

definition Values_Get :: "(string \<times> string) list \<Rightarrow> string \<Rightarrow> string" where
  "Values_Get vs k = (case map_of vs k of None \<Rightarrow> [] | Some v \<Rightarrow> v)"

lemma unescape_plain:
  assumes "CHR ''%'' \<notin> set s"
  shows "PathUnescape s = Some s"
  unfolding PathUnescape_def using assms by (induction s) auto

end
