(* ===== verification/Netip.thy ===== *)
theory Netip
  imports GoWeb
begin

unbundle bit_operations_syntax

text \<open>
  IP addresses as \<^verbatim>\<open>net/netip\<close> parses, unmaps and prints them, and CIDR membership as
  \<^verbatim>\<open>net.ParseCIDR\<close> and \<^verbatim>\<open>net.IPNet.Contains\<close> decide it. An address is its bytes, most
  significant first: four for IPv4, sixteen for IPv6 together with the zone, which is any
  string after the percent sign.
\<close>

datatype Addr = V4 "byte list" | V6 "byte list" string

fun wf_addr :: "Addr \<Rightarrow> bool" where
  "wf_addr (V4 bs) = (length bs = 4)"
| "wf_addr (V6 bs z) = (length bs = 16)"

subsection \<open>Parsing\<close>

text \<open>
  \<^verbatim>\<open>parseIPv4Fields\<close>: the octet being read, its number of digits, the octets already read.
  A dot is misplaced at the start, at the end and after another dot; an octet has no leading
  zero and is at most 255.
\<close>

fun parse_ipv4_fields :: "string \<Rightarrow> nat \<Rightarrow> nat \<Rightarrow> nat list \<Rightarrow> nat list option" where
  "parse_ipv4_fields [] val digLen octets =
     (if length octets < 3 then None else Some (octets @ [val]))"
| "parse_ipv4_fields (c # s) val digLen octets =
     (if is_digit c then
        (if digLen = 1 \<and> val = 0 then None
         else if val * 10 + digit_val c > 255 then None
         else parse_ipv4_fields s (val * 10 + digit_val c) (digLen + 1) octets)
      else if c = CHR ''.'' then
        (if digLen = 0 \<or> s = [] then None
         else if length octets = 3 then None
         else parse_ipv4_fields s 0 0 (octets @ [val]))
      else None)"

definition parse_ipv4 :: "string \<Rightarrow> byte list option" where
  "parse_ipv4 s = map_option (map of_nat) (parse_ipv4_fields s 0 0 [])"

definition hex_digits :: "string \<Rightarrow> string" where
  "hex_digits s = takeWhile (\<lambda>c. hex_val c \<noteq> None) s"

definition hex_num :: "string \<Rightarrow> nat" where
  "hex_num s = foldl (\<lambda>a c. a * 16 + the (hex_val c)) 0 s"

text \<open>
  The loop of \<^verbatim>\<open>parseIPv6\<close>; the first argument is the number of 16-bit groups still to be
  filled, the third the bytes filled so far, the fourth the position of the ellipsis.
\<close>

fun parse_ipv6_loop ::
  "nat \<Rightarrow> string \<Rightarrow> byte list \<Rightarrow> nat option \<Rightarrow> (string \<times> byte list \<times> nat option) option" where
  "parse_ipv6_loop 0 s ip ell = Some (s, ip, ell)"
| "parse_ipv6_loop (Suc n) s ip ell =
     (let hs = hex_digits s; r = drop (length hs) s; acc = hex_num hs in
      if 4 < length hs then None
      else if hs = [] then None
      else if prefix ''.'' r then
        (if ell = None \<and> length ip \<noteq> 12 then None
         else if length ip + 4 > 16 then None
         else case parse_ipv4 s of None \<Rightarrow> None | Some bs \<Rightarrow> Some ([], ip @ bs, ell))
      else let ip' = ip @ [of_nat (acc div 256), of_nat (acc mod 256)] in
        (case r of
           [] \<Rightarrow> Some ([], ip', ell)
         | c # r' \<Rightarrow>
             if c \<noteq> CHR '':'' then None
             else if r' = [] then None
             else if hd r' = CHR '':'' then
               (if ell \<noteq> None then None
                else if tl r' = [] then Some ([], ip', Some (length ip'))
                else parse_ipv6_loop n (tl r') ip' (Some (length ip')))
             else parse_ipv6_loop n r' ip' ell))"

definition parse_ipv6_body :: "string \<Rightarrow> byte list option" where
  "parse_ipv6_body s =
     (let lead = prefix ''::'' s; s' = (if lead then drop 2 s else s) in
      if lead \<and> s' = [] then Some (replicate 16 0)
      else case parse_ipv6_loop 8 s' [] (if lead then Some 0 else None) of
        None \<Rightarrow> None
      | Some (rest, ip, ell) \<Rightarrow>
          if rest \<noteq> [] then None
          else if length ip < 16 then
            (case ell of
               None \<Rightarrow> None
             | Some e \<Rightarrow> Some (take e ip @ replicate (16 - length ip) 0 @ drop e ip))
          else if ell \<noteq> None then None
          else Some ip)"

definition parse_ipv6 :: "string \<Rightarrow> Addr option" where
  "parse_ipv6 s =
     (case IndexByte s (CHR ''%'') of
        None \<Rightarrow> map_option (\<lambda>bs. V6 bs []) (parse_ipv6_body s)
      | Some i \<Rightarrow>
          let zone = drop (Suc i) s in
          if zone = [] then None else map_option (\<lambda>bs. V6 bs zone) (parse_ipv6_body (take i s)))"

text \<open>The first dot, colon or percent sign decides which syntax is tried.\<close>

definition ParseAddr :: "string \<Rightarrow> Addr option" where
  "ParseAddr s =
     (case List.find (\<lambda>c. c \<in> {CHR ''.'', CHR '':'', CHR ''%''}) s of
        None \<Rightarrow> None
      | Some c \<Rightarrow>
          if c = CHR ''.'' then map_option V4 (parse_ipv4 s)
          else if c = CHR '':'' then parse_ipv6 s
          else None)"

subsection \<open>Unmapping and printing\<close>

definition v4InV6Prefix :: "byte list" where
  "v4InV6Prefix = replicate 10 0 @ [0xFF, 0xFF]"

fun Unmap :: "Addr \<Rightarrow> Addr" where
  "Unmap (V4 bs) = V4 bs"
| "Unmap (V6 bs z) = (if take 12 bs = v4InV6Prefix then V4 (drop 12 bs) else V6 bs z)"

fun groups16 :: "byte list \<Rightarrow> nat list" where
  "groups16 (a # b # r) = (unat a * 256 + unat b) # groups16 r"
| "groups16 _ = []"

fun show_hex :: "nat \<Rightarrow> string" where
  "show_hex n = (if n < 16 then [hex_char n] else show_hex (n div 16) @ [hex_char (n mod 16)])"

declare show_hex.simps [simp del]

definition zero_run :: "nat list \<Rightarrow> nat \<Rightarrow> nat" where
  "zero_run gs i = length (takeWhile (\<lambda>g. g = 0) (drop i gs))"

text \<open>The leftmost longest run of at least two zero groups: its start and length.\<close>

definition best_run :: "nat list \<Rightarrow> (nat \<times> nat) option" where
  "best_run gs =
     foldl (\<lambda>best i. let l = zero_run gs i in
              if 2 \<le> l \<and> (case best of None \<Rightarrow> True | Some (_, m) \<Rightarrow> m < l) then Some (i, l) else best)
       None [0..<8]"

definition show_ipv6 :: "byte list \<Rightarrow> string" where
  "show_ipv6 bs =
     (let gs = groups16 bs in
      case best_run gs of
        None \<Rightarrow> Join (map show_hex gs) '':''
      | Some (i, l) \<Rightarrow>
          Join (map show_hex (take i gs)) '':'' @ ''::'' @ Join (map show_hex (drop (i + l) gs)) '':'')"

text \<open>\<^verbatim>\<open>Addr.String\<close> of an unmapped address.\<close>

fun addr_String :: "Addr \<Rightarrow> string" where
  "addr_String (V4 bs) = Join (map (\<lambda>b. show_nat (unat b)) bs) ''.''"
| "addr_String (V6 bs z) = show_ipv6 bs @ (if z = [] then [] else CHR ''%'' # z)"

subsection \<open>CIDR blocks\<close>

text \<open>\<^verbatim>\<open>net.CIDRMask(n, 8*len)\<close>: \<open>n\<close> one bits from the left.\<close>

definition CIDRMask :: "nat \<Rightarrow> nat \<Rightarrow> byte list" where
  "CIDRMask n len = map (\<lambda>i. push_bit (8 - min 8 (n - 8 * i)) 0xFF) [0..<len]"

record IPNet =
  net_IP :: "byte list"
  net_Mask :: "byte list"

definition mask_bytes :: "byte list \<Rightarrow> byte list \<Rightarrow> byte list" where
  "mask_bytes ip m = map2 (AND) ip m"

text \<open>
  \<^verbatim>\<open>net.ParseCIDR\<close>: the address part must parse and carry no zone, the prefix length is all
  decimal digits and at most the number of bits of the address.
\<close>

definition ParseCIDR :: "string \<Rightarrow> IPNet option" where
  "ParseCIDR s =
     (case IndexByte s (CHR ''/'') of
        None \<Rightarrow> None
      | Some i \<Rightarrow>
          let m = drop (Suc i) s; n = read_nat m in
          if m = [] \<or> \<not> list_all is_digit m then None
          else case ParseAddr (take i s) of
            Some (V4 bs) \<Rightarrow>
              if 32 < n then None
              else Some \<lparr>net_IP = mask_bytes bs (CIDRMask n 4), net_Mask = CIDRMask n 4\<rparr>
          | Some (V6 bs []) \<Rightarrow>
              if 128 < n then None
              else Some \<lparr>net_IP = mask_bytes bs (CIDRMask n 16), net_Mask = CIDRMask n 16\<rparr>
          | _ \<Rightarrow> None)"

text \<open>\<^verbatim>\<open>IP.To4\<close> on the bytes of an address: four bytes stay, a mapped address is unmapped.\<close>

definition To4 :: "byte list \<Rightarrow> byte list option" where
  "To4 ip =
     (if length ip = 4 then Some ip
      else if length ip = 16 \<and> take 12 ip = v4InV6Prefix then Some (drop 12 ip)
      else None)"

definition IPNet_Contains :: "IPNet \<Rightarrow> byte list \<Rightarrow> bool" where
  "IPNet_Contains n ip0 =
     (let nn = (case To4 (net_IP n) of Some x \<Rightarrow> x | None \<Rightarrow> net_IP n);
          m = (if length (net_Mask n) = 16 \<and> length nn = 4 then drop 12 (net_Mask n) else net_Mask n);
          ip = (case To4 ip0 of Some x \<Rightarrow> x | None \<Rightarrow> ip0)
      in length ip = length nn \<and> mask_bytes nn m = mask_bytes ip m)"

fun AsSlice :: "Addr \<Rightarrow> byte list" where
  "AsSlice (V4 bs) = bs"
| "AsSlice (V6 bs z) = bs"

lemma parse_ipv4_fields_length:
  "parse_ipv4_fields s v d fs = Some bs \<Longrightarrow> length fs \<le> 3 \<Longrightarrow> length bs = 4"
  by (induction s v d fs rule: parse_ipv4_fields.induct) (auto split: if_splits)

lemma parse_ipv4_length: "parse_ipv4 s = Some bs \<Longrightarrow> length bs = 4"
  unfolding parse_ipv4_def by (auto dest: parse_ipv4_fields_length)

lemma parse_ipv6_loop_length:
  "parse_ipv6_loop n s ip e = Some (r, ip', e') \<Longrightarrow> length ip + 2 * n = 16 \<Longrightarrow>
   e \<noteq> None \<longrightarrow> the e \<le> length ip \<Longrightarrow>
   length ip' \<le> 16 \<and> (e' \<noteq> None \<longrightarrow> the e' \<le> length ip')"
proof (induction n s ip e arbitrary: r ip' e' rule: parse_ipv6_loop.induct)
  case (2 n s ip ell)
  then show ?case
    by (auto simp: Let_def split: if_splits list.splits option.splits dest!: parse_ipv4_length)
qed auto

lemma parse_ipv6_body_length: "parse_ipv6_body s = Some bs \<Longrightarrow> length bs = 16"
  unfolding parse_ipv6_body_def
  by (auto simp: Let_def split: if_splits option.splits dest!: parse_ipv6_loop_length)

lemma ParseAddr_wf: "ParseAddr s = Some a \<Longrightarrow> wf_addr a"
  unfolding ParseAddr_def parse_ipv6_def
  by (auto simp: Let_def split: option.splits if_splits
      dest: parse_ipv4_length parse_ipv6_body_length)

lemma Unmap_wf: "wf_addr a \<Longrightarrow> wf_addr (Unmap a)"
  by (cases a) auto

lemma Unmap_idem [simp]: "Unmap (Unmap a) = Unmap a"
  by (cases a) auto

end
