(* ===== verification/Pow.thy ===== *)
theory Pow
  imports Netip
begin

unbundle bit_operations_syntax

text \<open>
  Package \<^verbatim>\<open>internal/pow\<close>: the token payload and its wire form, field validation, the
  canonical text that is hashed, the sign and its comparison, the leading-zero difficulty
  and the identity under which a proof of work is metered.
\<close>

section \<open>The token (token.go)\<close>

record TokenPayload =
  tp_Version :: int
  tp_Mode :: string
  tp_Algorithm :: string
  tp_IP :: string
  tp_Path :: string
  tp_Timestamp :: int
  tp_ExpiresAt :: int
  tp_Difficulty :: int
  tp_Counter :: string
  tp_Salt :: string

definition zero_payload :: TokenPayload where
  "zero_payload = \<lparr>tp_Version = 0, tp_Mode = [], tp_Algorithm = [], tp_IP = [], tp_Path = [],
     tp_Timestamp = 0, tp_ExpiresAt = 0, tp_Difficulty = 0, tp_Counter = [], tp_Salt = []\<rparr>"

datatype pow_error =
    ErrEmpty | ErrMalformed | ErrUnsupportedVersion | ErrUnsupportedMode
  | ErrUnsupportedAlgorithm | ErrPathInvalid | ErrPathTooLong | ErrIPMissing | ErrIPInvalid
  | ErrIPForbidden | ErrCounterInvalid | ErrDifficultyInvalid | ErrTimestampInvalid
  | ErrExpiryInvalid | ErrSaltInvalid

record ValidatorOptions =
  vo_AllowedSalts :: "string list"
  vo_AllowEmptySalt :: bool
  vo_AllowedModes :: "string list"
  vo_RequireIP :: bool
  vo_MinDifficulty :: int
  vo_MaxDifficulty :: int
  vo_Algorithm :: string

definition MaxPathLength :: nat where "MaxPathLength = 4096"
definition MaxCounterLength :: nat where "MaxCounterLength = 64"
definition MaxDifficulty :: int where "MaxDifficulty = 64"
definition Version1 :: int where "Version1 = 1"
definition DefaultAlgorithm :: string where "DefaultAlgorithm = ''sha256''"

subsection \<open>The wire form\<close>

text \<open>
  \<^verbatim>\<open>json.Unmarshal\<close> into the struct: a key selects the field whose tag it equals, or else the
  field whose tag it equals up to letter case; other keys are ignored, \<^verbatim>\<open>null\<close> leaves a field
  as it is, and a value of the wrong kind (or an integer that does not fit) is an error. The
  document \<^verbatim>\<open>null\<close> leaves the whole struct as it is.
\<close>

definition payload_tags :: "string list" where
  "payload_tags = [''v'', ''mode'', ''alg'', ''ip'', ''path'', ''ts'', ''exp'', ''d'', ''cnt'', ''salt'']"

definition tag_of_key :: "golib \<Rightarrow> string \<Rightarrow> string option" where
  "tag_of_key L k =
     (if k \<in> set payload_tags then Some k else List.find (\<lambda>t. EqualFold L k t) payload_tags)"

definition set_int_field :: "string \<Rightarrow> int \<Rightarrow> TokenPayload \<Rightarrow> TokenPayload option" where
  "set_int_field t i p =
     (if t = ''v'' then Some (p\<lparr>tp_Version := i\<rparr>)
      else if t = ''ts'' then Some (p\<lparr>tp_Timestamp := i\<rparr>)
      else if t = ''exp'' then Some (p\<lparr>tp_ExpiresAt := i\<rparr>)
      else if t = ''d'' then Some (p\<lparr>tp_Difficulty := i\<rparr>)
      else None)"

definition set_string_field :: "string \<Rightarrow> string \<Rightarrow> TokenPayload \<Rightarrow> TokenPayload option" where
  "set_string_field t s p =
     (if t = ''mode'' then Some (p\<lparr>tp_Mode := s\<rparr>)
      else if t = ''alg'' then Some (p\<lparr>tp_Algorithm := s\<rparr>)
      else if t = ''ip'' then Some (p\<lparr>tp_IP := s\<rparr>)
      else if t = ''path'' then Some (p\<lparr>tp_Path := s\<rparr>)
      else if t = ''cnt'' then Some (p\<lparr>tp_Counter := s\<rparr>)
      else if t = ''salt'' then Some (p\<lparr>tp_Salt := s\<rparr>)
      else None)"

definition set_field :: "string \<Rightarrow> json \<Rightarrow> TokenPayload \<Rightarrow> TokenPayload option" where
  "set_field t j p =
     (case j of
        JNull \<Rightarrow> Some p
      | JStr s \<Rightarrow> set_string_field t s p
      | JNum lit \<Rightarrow> (case ParseInt lit of None \<Rightarrow> None | Some i \<Rightarrow> set_int_field t i p)
      | _ \<Rightarrow> None)"

fun set_fields :: "golib \<Rightarrow> (string \<times> json) list \<Rightarrow> TokenPayload \<Rightarrow> TokenPayload option" where
  "set_fields L [] p = Some p"
| "set_fields L ((k, j) # kvs) p =
     (case tag_of_key L k of
        None \<Rightarrow> set_fields L kvs p
      | Some t \<Rightarrow>
          (case set_field t j p of None \<Rightarrow> None | Some p' \<Rightarrow> set_fields L kvs p'))"

definition unmarshal_payload :: "golib \<Rightarrow> string \<Rightarrow> TokenPayload option" where
  "unmarshal_payload L s =
     (case json_Parse L s of
        Some (JObj kvs) \<Rightarrow> set_fields L kvs zero_payload
      | Some JNull \<Rightarrow> Some zero_payload
      | _ \<Rightarrow> None)"

definition DecodeToken :: "golib \<Rightarrow> string \<Rightarrow> pow_error + TokenPayload" where
  "DecodeToken L raw =
     (if raw = [] then Inl ErrEmpty
      else case (case RawURLEncoding_Decode raw of
                   Some bytes \<Rightarrow> Some bytes
                 | None \<Rightarrow> URLEncoding_Decode raw) of
        None \<Rightarrow> Inl ErrMalformed
      | Some bytes \<Rightarrow>
          (case unmarshal_payload L bytes of None \<Rightarrow> Inl ErrMalformed | Some p \<Rightarrow> Inr p))"

section \<open>Character checks (util.go)\<close>

definition isValidIPString :: "string \<Rightarrow> bool" where
  "isValidIPString s = (if s = [] then False else ParseAddr s \<noteq> None)"

definition counter_rune :: "nat \<Rightarrow> bool" where
  "counter_rune r \<longleftrightarrow> 48 \<le> r \<and> r \<le> 57 \<or> 97 \<le> r \<and> r \<le> 102 \<or> 65 \<le> r \<and> r \<le> 90 \<or> r \<in> {45, 95, 61}"

definition isCounterSafe :: "string \<Rightarrow> bool" where
  "isCounterSafe s =
     (if s = [] then False
      else list_all (\<lambda>r. counter_rune r \<and> \<not> IsControl r) (runes s) \<and>
        \<not> list_ex (\<lambda>c. c \<in> {CHR 0x0A, CHR 0x0D, CHR 0x09, CHR 0x20}) s)"

definition isCanonicalSafe :: "string \<Rightarrow> bool" where
  "isCanonicalSafe s =
     (if list_ex (\<lambda>c. c \<in> {CHR 0x0A, CHR 0x0D}) s then False
      else list_all (\<lambda>r. \<not> IsControl r) (runes s))"

section \<open>Field validation (token.go)\<close>

definition mode_ok :: "TokenPayload \<Rightarrow> ValidatorOptions option \<Rightarrow> bool" where
  "mode_ok p opts =
     (case opts of
        Some v \<Rightarrow> if vo_AllowedModes v \<noteq> [] then tp_Mode p \<in> set (vo_AllowedModes v)
                  else tp_Mode p = ''ip_bound'' \<or> tp_Mode p = ''generic''
      | None \<Rightarrow> tp_Mode p = ''ip_bound'' \<or> tp_Mode p = ''generic'')"

definition want_alg :: "ValidatorOptions option \<Rightarrow> string" where
  "want_alg opts =
     (case opts of Some v \<Rightarrow> if vo_Algorithm v \<noteq> [] then vo_Algorithm v else DefaultAlgorithm
      | None \<Rightarrow> DefaultAlgorithm)"

definition min_difficulty :: "ValidatorOptions option \<Rightarrow> int" where
  "min_difficulty opts =
     (case opts of Some v \<Rightarrow> if vo_MinDifficulty v > 0 then vo_MinDifficulty v else 0 | None \<Rightarrow> 0)"

definition max_difficulty :: "ValidatorOptions option \<Rightarrow> int" where
  "max_difficulty opts =
     (case opts of Some v \<Rightarrow> if vo_MaxDifficulty v > 0 then vo_MaxDifficulty v else MaxDifficulty
      | None \<Rightarrow> MaxDifficulty)"

definition check_ip_field :: "TokenPayload \<Rightarrow> pow_error option" where
  "check_ip_field p =
     (if tp_Mode p = ''ip_bound'' then
        (if tp_IP p \<noteq> [] \<and> \<not> isValidIPString (tp_IP p) then Some ErrIPInvalid else None)
      else if tp_Mode p = ''generic'' then
        (if tp_IP p \<noteq> [] then Some ErrIPForbidden else None)
      else None)"

definition salt_ok :: "TokenPayload \<Rightarrow> ValidatorOptions option \<Rightarrow> bool" where
  "salt_ok p opts =
     (case opts of
        None \<Rightarrow> True
      | Some v \<Rightarrow>
          if tp_Salt p = [] then vo_AllowEmptySalt v
          else isCanonicalSafe (tp_Salt p) \<and> tp_Salt p \<in> set (vo_AllowedSalts v))"

text \<open>\<^verbatim>\<open>ValidatePayload\<close>: \<^verbatim>\<open>None\<close> is the nil error; the checks run in the order of the source.\<close>

definition ValidatePayload ::
  "golib \<Rightarrow> TokenPayload option \<Rightarrow> ValidatorOptions option \<Rightarrow> pow_error option" where
  "ValidatePayload L po opts =
     (case po of
        None \<Rightarrow> Some ErrMalformed
      | Some p \<Rightarrow>
          if tp_Version p \<noteq> Version1 then Some ErrUnsupportedVersion
          else if \<not> mode_ok p opts then Some ErrUnsupportedMode
          else if tp_Algorithm p = [] then Some ErrUnsupportedAlgorithm
          else if \<not> EqualFold L (tp_Algorithm p) (want_alg opts) then Some ErrUnsupportedAlgorithm
          else if tp_Path p = [] \<or> \<not> HasPrefix (tp_Path p) ''/'' then Some ErrPathInvalid
          else if length (tp_Path p) > MaxPathLength then Some ErrPathTooLong
          else if \<not> isCanonicalSafe (tp_Path p) then Some ErrPathInvalid
          else case check_ip_field p of
            Some e \<Rightarrow> Some e
          | None \<Rightarrow>
              if tp_Counter p = [] \<or> length (tp_Counter p) > MaxCounterLength then Some ErrCounterInvalid
              else if \<not> isCounterSafe (tp_Counter p) then Some ErrCounterInvalid
              else if tp_Difficulty p < min_difficulty opts \<or> tp_Difficulty p > max_difficulty opts
                then Some ErrDifficultyInvalid
              else if \<not> salt_ok p opts then Some ErrSaltInvalid
              else if tp_Timestamp p \<le> 0 then Some ErrTimestampInvalid
              else if tp_ExpiresAt p \<le> 0 then Some ErrExpiryInvalid
              else if tp_ExpiresAt p \<le> tp_Timestamp p then Some ErrExpiryInvalid
              else None)"

section \<open>The canonical text (canonical.go)\<close>

definition CanonicalPrefix :: string where "CanonicalPrefix = ''mirrors-pow-v1''"

definition canonical_ip :: "TokenPayload \<Rightarrow> string" where
  "canonical_ip p = (if tp_Mode p = ''ip_bound'' then tp_IP p else [])"

definition BuildCanonicalInput :: "TokenPayload option \<Rightarrow> string" where
  "BuildCanonicalInput po =
     (case po of
        None \<Rightarrow> []
      | Some p \<Rightarrow>
          CanonicalPrefix @ [newline] @
          ''mode='' @ tp_Mode p @ [newline] @
          ''ip='' @ canonical_ip p @ [newline] @
          ''path='' @ tp_Path p @ [newline] @
          ''ts='' @ FormatInt (tp_Timestamp p) @ [newline] @
          ''exp='' @ FormatInt (tp_ExpiresAt p) @ [newline] @
          ''difficulty='' @ FormatInt (tp_Difficulty p) @ [newline] @
          ''cnt='' @ tp_Counter p @ [newline] @
          ''salt='' @ tp_Salt p @ [newline])"

section \<open>Difficulty (difficulty.go)\<close>

definition HasLeadingZeroBits :: "byte list \<Rightarrow> int \<Rightarrow> bool" where
  "HasLeadingZeroBits hash n =
     (if n \<le> 0 then True
      else if n > int (length hash) * 8 then False
      else let fullBytes = nat (n div 8); remBits = nat (n mod 8) in
        if \<not> list_all (\<lambda>b. b = 0) (take fullBytes hash) then False
        else if remBits > 0 then
          (let mask = push_bit (8 - remBits) (0xFF :: byte) in
           if hash ! fullBytes AND mask \<noteq> 0 then False else True)
        else True)"

definition HasLeadingZeroBits32 :: "byte list \<Rightarrow> int \<Rightarrow> bool" where
  "HasLeadingZeroBits32 hash n = HasLeadingZeroBits hash n"

definition MinimumSignForDifficulty :: "int \<Rightarrow> string" where
  "MinimumSignForDifficulty d =
     (if d \<le> 0 then []
      else let fullHex = nat (d div 4); remBits = nat (d mod 4);
               out = replicate fullHex (CHR ''0'') in
        if remBits > 0 then
          (let m = 2 ^ remBits - 1 in
           if m < 10 then out @ [char_of (48 + m :: nat)] else out @ [char_of (97 + m - 10 :: nat)])
        else out)"

section \<open>Sign and identity (verify.go, sign\_id.go)\<close>

definition ComputeSign :: "golib \<Rightarrow> TokenPayload option \<Rightarrow> string" where
  "ComputeSign L p = hex_EncodeToString (digest_bytes (Sum256 L (BuildCanonicalInput p)))"

definition HashCanonical :: "golib \<Rightarrow> string \<Rightarrow> byte list" where
  "HashCanonical L canonical = digest_bytes (Sum256 L canonical)"

definition CompareSign :: "golib \<Rightarrow> string \<Rightarrow> string \<Rightarrow> bool" where
  "CompareSign L computedSign clientSign =
     (if computedSign = [] \<or> clientSign = [] then False else EqualFold L computedSign clientSign)"

definition SignIDVersion :: string where "SignIDVersion = ''mirrors-pow-sign-id-v2''"

text \<open>The text whose hash is the sign id.\<close>

definition sign_id_input :: "TokenPayload option \<Rightarrow> string \<Rightarrow> string \<Rightarrow> string" where
  "sign_id_input p sign mode =
     SignIDVersion @ [newline] @
     ''mode='' @ mode @ [newline] @
     ''canonical='' @ BuildCanonicalInput p @ [newline] @
     ''sign='' @ sign @ [newline]"

definition ComputeSignID :: "golib \<Rightarrow> TokenPayload option \<Rightarrow> string \<Rightarrow> string \<Rightarrow> string" where
  "ComputeSignID L p sign mode =
     hex_EncodeToString (digest_bytes (Sum256 L (sign_id_input p sign mode)))"

definition HashToken :: "golib \<Rightarrow> string \<Rightarrow> string" where
  "HashToken L tokenRaw =
     (if tokenRaw = [] then [] else hex_EncodeToString (digest_bytes (Sum256 L tokenRaw)))"

section \<open>Facts\<close>

subsection \<open>Difficulty as a bound on the hash value\<close>

definition be_val :: "byte list \<Rightarrow> nat" where
  "be_val bs = foldl (\<lambda>a b. a * 256 + unat b) 0 bs"

lemma foldl_be_val: "foldl (\<lambda>a b. a * 256 + unat (b :: byte)) c bs = c * 256 ^ length bs + be_val bs"
proof (induction bs arbitrary: c)
  case Nil
  then show ?case by (simp add: be_val_def)
next
  case (Cons b bs)
  have "be_val (b # bs) = unat b * 256 ^ length bs + be_val bs"
    using Cons.IH [of "unat b"] by (simp add: be_val_def)
  with Cons.IH [of "c * 256 + unat b"] show ?case
    by (simp add: algebra_simps)
qed

lemma be_val_Nil [simp]: "be_val [] = 0"
  by (simp add: be_val_def)

lemma be_val_Cons [simp]: "be_val (b # bs) = unat b * 256 ^ length bs + be_val bs"
  using foldl_be_val [of "unat b" bs] by (simp add: be_val_def)

lemma be_val_less: "be_val bs < 256 ^ length bs"
proof (induction bs)
  case (Cons b bs)
  have "unat b < 256" using unsigned_less [of b, where ?'a = nat] by simp
  then have "unat b + 1 \<le> 256" by simp
  then have "unat b * 256 ^ length bs + 256 ^ length bs \<le> 256 * 256 ^ length bs"
    using mult_le_mono1 [of "unat b + 1" 256 "256 ^ length bs"] by simp
  with Cons.IH show ?case by (simp only: be_val_Cons length_Cons power_Suc)
qed simp

lemma high_bits_zero:
  assumes "k \<le> 8"
  shows "b AND push_bit (8 - k) (0xFF :: byte) = 0 \<longleftrightarrow> unat b < 2 ^ (8 - k)"
proof -
  have ff: "(0xFF :: byte) = mask 8" by (simp add: mask_eq_exp_minus_1)
  have low: "i < 8" if "bit b i" for i
    using bit_imp_le_length [OF that] by simp
  have "b AND push_bit (8 - k) (0xFF :: byte) = 0 \<longleftrightarrow> (\<forall>i. 8 - k \<le> i \<longrightarrow> \<not> bit b i)"
    unfolding ff using low by (auto simp: bit_eq_iff bit_simps) (meson less_imp_diff_less)
  also have "\<dots> \<longleftrightarrow> (\<forall>j. \<not> bit b (8 - k + j))"
    by (metis le_add1 le_iff_add)
  also have "\<dots> \<longleftrightarrow> drop_bit (8 - k) b = 0"
  proof -
    have "j < 8" if "bit b (8 - k + j)" for j using low [OF that] by simp
    then show ?thesis by (auto simp: bit_eq_iff bit_drop_bit_eq)
  qed
  also have "\<dots> \<longleftrightarrow> unat b div 2 ^ (8 - k) = 0"
    by (metis unat_drop_bit_eq drop_bit_eq_div unat_eq_zero)
  also have "\<dots> \<longleftrightarrow> unat b < 2 ^ (8 - k)"
    by (simp add: div_eq_0_iff)
  finally show ?thesis .
qed

lemma HasLeadingZeroBits_Cons_8:
  assumes "8 \<le> n"
  shows "HasLeadingZeroBits (b # bs) n \<longleftrightarrow> b = 0 \<and> HasLeadingZeroBits bs (n - 8)"
proof -
  have "n div 8 = (n - 8) div 8 + 1" and "0 \<le> (n - 8) div 8" and r: "(n - 8) mod 8 = n mod 8"
    using assms by presburger+
  then have q: "nat (n div 8) = Suc (nat ((n - 8) div 8))" by simp
  show ?thesis
  proof (cases "n = 8")
    case True
    then show ?thesis by (simp add: HasLeadingZeroBits_def)
  next
    case False
    with assms have "\<not> n \<le> 0" "\<not> n - 8 \<le> 0"
      and "int (length (b # bs)) * 8 < n \<longleftrightarrow> int (length bs) * 8 < n - 8" by auto
    then show ?thesis by (simp only: HasLeadingZeroBits_def Let_def q r) simp
  qed
qed

lemma HasLeadingZeroBits_Cons_less:
  assumes "0 < n" and "n < 8"
  shows "HasLeadingZeroBits (b # bs) n \<longleftrightarrow> unat b < 2 ^ nat (8 - n)"
proof -
  have "n div 8 = 0" and "n mod 8 = n" and "8 - nat n = nat (8 - n)"
    using assms by auto
  with assms high_bits_zero [of "nat n" b] show ?thesis
    by (simp add: HasLeadingZeroBits_def Let_def)
qed

lemma byte_prefix_bound:
  assumes "r < N" and "0 < (m :: nat)"
  shows "x * N + r < m * N \<longleftrightarrow> x < (m :: nat)"
proof
  assume "x * N + r < m * N"
  then have "x * N < m * N" by linarith
  then show "x < m" by simp
next
  assume "x < m"
  then have "x + 1 \<le> m" by simp
  then have "(x + 1) * N \<le> m * N" by (rule mult_le_mono1)
  with assms show "x * N + r < m * N" by simp
qed

lemma HasLeadingZeroBits_nat:
  "0 < n \<Longrightarrow> HasLeadingZeroBits hash (int n) \<longleftrightarrow>
     n \<le> 8 * length hash \<and> be_val hash < 2 ^ (8 * length hash - n)"
proof (induction hash arbitrary: n)
  case Nil
  then show ?case by (simp add: HasLeadingZeroBits_def)
next
  case (Cons b bs)
  have base: "(256 :: nat) ^ length bs = 2 ^ (8 * length bs)"
    by (simp add: power_mult)
  show ?case
  proof (cases "n < 8")
    case True
    have "(2 :: nat) ^ (8 * length (b # bs) - n) = 2 ^ (8 - n) * 256 ^ length bs"
      using True by (simp add: base flip: power_add)
    then have "be_val (b # bs) < 2 ^ (8 * length (b # bs) - n) \<longleftrightarrow> unat b < 2 ^ (8 - n)"
      using byte_prefix_bound [OF be_val_less, of "2 ^ (8 - n)" "unat b" bs] by simp
    moreover have "nat (8 - int n) = 8 - n" by simp
    ultimately show ?thesis
      using True Cons.prems HasLeadingZeroBits_Cons_less [of "int n" b bs] by simp
  next
    case False
    then have hd: "HasLeadingZeroBits (b # bs) (int n) \<longleftrightarrow> b = 0 \<and> HasLeadingZeroBits bs (int (n - 8))"
      using HasLeadingZeroBits_Cons_8 [of "int n" b bs] by (simp add: of_nat_diff)
    have small: "b = 0" if "be_val (b # bs) < 2 ^ (8 * length (b # bs) - n)"
    proof -
      have "(2 :: nat) ^ (8 * length (b # bs) - n) \<le> 256 ^ length bs"
        using False by (simp add: base power_increasing)
      with that have "unat b * 256 ^ length bs < 1 * 256 ^ length bs"
        unfolding be_val_Cons by linarith
      then have "unat b < 1" by (simp only: mult_less_cancel2)
      then show "b = 0" by (simp add: unat_eq_zero)
    qed
    show ?thesis
    proof (cases "n = 8")
      case True
      then show ?thesis using hd small be_val_less [of bs]
        by (auto simp: base HasLeadingZeroBits_def)
    next
      case False
      have "8 * length bs - (n - 8) = 8 * length (b # bs) - n"
        using \<open>\<not> n < 8\<close> by simp
      with False \<open>\<not> n < 8\<close> Cons.IH [of "n - 8"] hd small show ?thesis by auto
    qed
  qed
qed

lemma HasLeadingZeroBits_iff:
  "HasLeadingZeroBits hash n \<longleftrightarrow>
     n \<le> 0 \<or> nat n \<le> 8 * length hash \<and> be_val hash < 2 ^ (8 * length hash - nat n)"
proof (cases "0 < n")
  case True
  with HasLeadingZeroBits_nat [of "nat n" hash] show ?thesis by simp
next
  case False
  then show ?thesis by (simp add: HasLeadingZeroBits_def)
qed
lemma unat_digest_byte:
  "unat (ucast (drop_bit (8 * j) (w :: 256 word)) :: byte) = unat w div 256 ^ j mod 256"
proof -
  have "unat (drop_bit (8 * j) w) = drop_bit (8 * j) (unat w)"
    by (rule unat_drop_bit_eq)
  also have "\<dots> = unat w div 256 ^ j"
    by (simp add: drop_bit_eq_div power_mult)
  finally show ?thesis by (simp add: unsigned_ucast_eq take_bit_eq_mod)
qed

lemma be_val_digits:
  assumes "\<And>j. unat (f j) = x div 256 ^ j mod 256"
  shows "be_val (map (\<lambda>i. f (k - Suc i)) [0..<k]) = x mod 256 ^ k"
proof (induction k)
  case 0
  then show ?case by simp
next
  case (Suc k)
  have "map (\<lambda>i. f (Suc k - Suc i)) [0..<Suc k] = f k # map (\<lambda>i. f (k - Suc i)) [0..<k]"
    by (rule nth_equalityI) (auto simp: nth_Cons' nth_append)
  then have "be_val (map (\<lambda>i. f (Suc k - Suc i)) [0..<Suc k]) =
      x div 256 ^ k mod 256 * 256 ^ k + x mod 256 ^ k"
    using Suc assms by (simp only: be_val_Cons) simp
  also have "\<dots> = x mod (256 ^ k * 256)"
    by (subst mod_mult2_eq [of x "256 ^ k" 256]) simp
  finally show ?case by (simp add: mult.commute)
qed

lemma be_val_digest_bytes [simp]: "be_val (digest_bytes w) = unat w"
proof -
  have "be_val (digest_bytes w) = unat w mod 256 ^ 32"
    using be_val_digits [where f = "\<lambda>j. ucast (drop_bit (8 * j) w)" and k = 32, OF unat_digest_byte]
    by (simp add: digest_bytes_def)
  moreover have "unat w < 256 ^ 32"
    using unsigned_less [of w, where ?'a = nat] by simp
  ultimately show ?thesis by simp
qed

subsection \<open>What validation guarantees\<close>

lemma ValidatePayload_None_iff:
  "ValidatePayload L (Some p) opts = None \<longleftrightarrow>
     tp_Version p = Version1 \<and> mode_ok p opts \<and>
     tp_Algorithm p \<noteq> [] \<and> EqualFold L (tp_Algorithm p) (want_alg opts) \<and>
     tp_Path p \<noteq> [] \<and> HasPrefix (tp_Path p) ''/'' \<and> length (tp_Path p) \<le> MaxPathLength \<and>
     isCanonicalSafe (tp_Path p) \<and> check_ip_field p = None \<and>
     tp_Counter p \<noteq> [] \<and> length (tp_Counter p) \<le> MaxCounterLength \<and> isCounterSafe (tp_Counter p) \<and>
     min_difficulty opts \<le> tp_Difficulty p \<and> tp_Difficulty p \<le> max_difficulty opts \<and>
     salt_ok p opts \<and> 0 < tp_Timestamp p \<and> tp_Timestamp p < tp_ExpiresAt p"
  by (auto simp: ValidatePayload_def not_less not_le split: if_splits option.splits)

lemma isCanonicalSafe_no_newline: "isCanonicalSafe s \<Longrightarrow> newline \<notin> set s"
  by (auto simp: isCanonicalSafe_def list_ex_iff split: if_splits)

lemma isCounterSafe_no_newline: "isCounterSafe s \<Longrightarrow> newline \<notin> set s"
  by (auto simp: isCounterSafe_def list_ex_iff split: if_splits)

lemma salt_ok_no_newline: "salt_ok p (Some v) \<Longrightarrow> newline \<notin> set (tp_Salt p)"
  by (auto simp: salt_ok_def isCanonicalSafe_no_newline split: if_splits)

subsection \<open>The canonical text determines the payload\<close>

definition labelled :: "string \<Rightarrow> (string \<times> string) list \<Rightarrow> string" where
  "labelled h lvs = h @ concat (map (\<lambda>(l, v). newline # l @ v) lvs)"

lemma labelled_inject:
  assumes "labelled h lvs = labelled h' lvs'" and "map fst lvs = map fst lvs'"
    and "\<forall>(l, v) \<in> set lvs \<union> set lvs'. newline \<notin> set l \<and> newline \<notin> set v"
  shows "h = h' \<and> lvs = lvs'"
  using assms
proof (induction lvs arbitrary: lvs' rule: rev_induct)
  case Nil
  then show ?case by (simp add: labelled_def)
next
  case (snoc lv lvs)
  obtain l v where lv: "lv = (l, v)" by (cases lv)
  from snoc.prems(2) lv obtain ms w where lvs': "lvs' = ms @ [(l, w)]" and ms: "map fst lvs = map fst ms"
    by (cases lvs' rule: rev_cases) auto
  from snoc.prems(1) lv lvs'
  have "labelled h lvs @ newline # (l @ v) = labelled h' ms @ newline # (l @ w)"
    by (simp add: labelled_def)
  moreover from snoc.prems(3) lv lvs' have "newline \<notin> set (l @ v)" "newline \<notin> set (l @ w)" by auto
  ultimately have "labelled h lvs = labelled h' ms \<and> l @ v = l @ w"
    by (intro split_at_last)
  with snoc.IH [OF _ ms] snoc.prems(3) lv lvs' show ?case by auto
qed

definition canonical_head :: "TokenPayload \<Rightarrow> string" where
  "canonical_head p = CanonicalPrefix @ newline # ''mode='' @ tp_Mode p @ newline # ''ip='' @ canonical_ip p"

definition canonical_tail :: "TokenPayload \<Rightarrow> (string \<times> string) list" where
  "canonical_tail p =
     [(''path='', tp_Path p), (''ts='', FormatInt (tp_Timestamp p)),
      (''exp='', FormatInt (tp_ExpiresAt p)), (''difficulty='', FormatInt (tp_Difficulty p)),
      (''cnt='', tp_Counter p), (''salt='', tp_Salt p)]"

lemma BuildCanonicalInput_lines:
  "BuildCanonicalInput (Some p) = labelled (canonical_head p) (canonical_tail p) @ [newline]"
  by (simp add: BuildCanonicalInput_def canonical_head_def canonical_tail_def labelled_def)

definition line_safe :: "TokenPayload \<Rightarrow> bool" where
  "line_safe p \<longleftrightarrow> newline \<notin> set (tp_Mode p) \<and> newline \<notin> set (tp_Path p) \<and>
     newline \<notin> set (tp_Counter p) \<and> newline \<notin> set (tp_Salt p)"

lemma line_safe_tail:
  "line_safe p \<Longrightarrow> \<forall>(l, v) \<in> set (canonical_tail p). newline \<notin> set l \<and> newline \<notin> set v"
  by (simp add: canonical_tail_def line_safe_def)

lemma canonical_inject:
  assumes eq: "BuildCanonicalInput (Some p) = BuildCanonicalInput (Some q)"
    and p: "line_safe p" and q: "line_safe q"
  shows "tp_Mode p = tp_Mode q \<and> canonical_ip p = canonical_ip q \<and> canonical_tail p = canonical_tail q"
proof -
  have "map fst (canonical_tail p) = map fst (canonical_tail q)"
    by (simp add: canonical_tail_def)
  with eq line_safe_tail [OF p] line_safe_tail [OF q]
  have h: "canonical_head p = canonical_head q" and t: "canonical_tail p = canonical_tail q"
    using labelled_inject [of "canonical_head p" "canonical_tail p" "canonical_head q" "canonical_tail q"]
    unfolding BuildCanonicalInput_lines by auto
  from h have "tp_Mode p @ newline # ''ip='' @ canonical_ip p = tp_Mode q @ newline # ''ip='' @ canonical_ip q"
    by (simp add: canonical_head_def)
  with p q have "tp_Mode p = tp_Mode q \<and> ''ip='' @ canonical_ip p = ''ip='' @ canonical_ip q"
    unfolding line_safe_def by (intro split_at_first) auto
  with t show ?thesis by simp
qed

definition known_modes :: "ValidatorOptions \<Rightarrow> bool" where
  "known_modes v \<longleftrightarrow> set (vo_AllowedModes v) \<subseteq> {''ip_bound'', ''generic''}"

lemma valid_mode_cases:
  assumes "mode_ok p (Some v)" and "known_modes v"
  shows "tp_Mode p = ''ip_bound'' \<or> tp_Mode p = ''generic''"
  using assms by (auto simp: mode_ok_def known_modes_def split: if_splits)

lemma valid_line_safe:
  assumes "ValidatePayload L (Some p) (Some v) = None" and "known_modes v"
  shows "line_safe p"
proof -
  from assms(1) have "mode_ok p (Some v)" "isCanonicalSafe (tp_Path p)" "isCounterSafe (tp_Counter p)"
    "salt_ok p (Some v)" by (simp_all add: ValidatePayload_None_iff)
  with valid_mode_cases [OF _ assms(2), of p] show ?thesis
    by (auto simp: line_safe_def isCanonicalSafe_no_newline isCounterSafe_no_newline salt_ok_no_newline)
qed

lemma valid_ip_is_canonical_ip:
  assumes "ValidatePayload L (Some p) (Some v) = None" and "known_modes v"
  shows "tp_IP p = canonical_ip p"
  using assms valid_mode_cases [of p v]
  by (auto simp: ValidatePayload_None_iff check_ip_field_def canonical_ip_def split: if_splits)

subsection \<open>Identity of a proof of work\<close>

lemma sign_id_input_inject:
  assumes "sign_id_input p s m = sign_id_input q t n"
    and "newline \<notin> set m" and "newline \<notin> set n" and "newline \<notin> set s" and "newline \<notin> set t"
  shows "m = n \<and> BuildCanonicalInput p = BuildCanonicalInput q \<and> s = t"
proof -
  from assms(1) have "m @ newline # (''canonical='' @ BuildCanonicalInput p @ [newline] @ ''sign='' @ s @ [newline]) =
      n @ newline # (''canonical='' @ BuildCanonicalInput q @ [newline] @ ''sign='' @ t @ [newline])"
    by (simp add: sign_id_input_def)
  from split_at_first [OF assms(2,3) this]
  have mn: "m = n"
    and "''canonical='' @ BuildCanonicalInput p @ [newline] @ ''sign='' @ s @ [newline] =
      ''canonical='' @ BuildCanonicalInput q @ [newline] @ ''sign='' @ t @ [newline]" by blast+
  from this(2) have "(BuildCanonicalInput p @ newline # ''sign='' @ s) @ [newline] =
      (BuildCanonicalInput q @ newline # ''sign='' @ t) @ [newline]" by (simp only: append.simps append_assoc list.inject simp_thms)
  then have r: "BuildCanonicalInput p @ newline # ''sign='' @ s = BuildCanonicalInput q @ newline # ''sign='' @ t"
    by (simp only: append_same_eq)
  from r assms(4,5) have "BuildCanonicalInput p = BuildCanonicalInput q \<and> ''sign='' @ s = ''sign='' @ t"
    by (intro split_at_last) auto
  with mn show ?thesis by simp
qed

lemma hex_digest_inject:
  assumes "hex_EncodeToString (digest_bytes v) = hex_EncodeToString (digest_bytes w)"
  shows "v = w"
proof -
  have "be_val (digest_bytes v) = be_val (digest_bytes w)" using hex_inject [OF assms] by simp
  then show ?thesis by (simp add: unsigned_word_eqI)
qed

lemma valid_canonical_eq:
  assumes "ValidatePayload L (Some p) (Some v) = None" and "known_modes v"
    and "ValidatePayload L (Some q) (Some w) = None" and "known_modes w"
    and "BuildCanonicalInput (Some p) = BuildCanonicalInput (Some q)"
  shows "q = p\<lparr>tp_Algorithm := tp_Algorithm q\<rparr>"
proof -
  have "tp_Version p = tp_Version q"
    using assms(1,3) by (simp add: ValidatePayload_None_iff)
  moreover have "tp_Mode p = tp_Mode q" "canonical_ip p = canonical_ip q" "canonical_tail p = canonical_tail q"
    using canonical_inject [OF assms(5)] valid_line_safe assms(1-4) by blast+
  moreover have "tp_IP p = canonical_ip p" "tp_IP q = canonical_ip q"
    using valid_ip_is_canonical_ip assms(1-4) by blast+
  ultimately show ?thesis by (simp add: canonical_tail_def)
qed

section \<open>Properties\<close>

text \<open>
  A library, a token and validator options used to instantiate the properties. The library's
  hash is constant, its JSON parser reads every document as the token.
\<close>

definition demo_lib :: golib where
  "demo_lib = \<lparr>Sum256 = (\<lambda>s. 0xab), regexp_Compile = (\<lambda>p. Some (\<lambda>s. sublist p s)),
     json_Parse = (\<lambda>s. Some (JObj [(''v'', JNum ''1''), (''mode'', JStr ''generic''),
       (''alg'', JStr ''sha256''), (''path'', JStr ''/a.iso''), (''ts'', JNum ''1000''),
       (''exp'', JNum ''2000''), (''d'', JNum ''8''), (''cnt'', JStr ''0f''), (''salt'', JStr ''s'')])),
     unicode_ToLower = id, unicode_ToUpper = id, unicode_EqualFold = (=),
     unicode_TrimSpace = id, MaxParams = None\<rparr>"

definition demo_payload :: TokenPayload where
  "demo_payload = \<lparr>tp_Version = 1, tp_Mode = ''generic'', tp_Algorithm = ''sha256'', tp_IP = [],
     tp_Path = ''/a.iso'', tp_Timestamp = 1000, tp_ExpiresAt = 2000, tp_Difficulty = 8,
     tp_Counter = ''0f'', tp_Salt = ''s''\<rparr>"

definition demo_opts :: ValidatorOptions where
  "demo_opts = \<lparr>vo_AllowedSalts = [''s''], vo_AllowEmptySalt = False, vo_AllowedModes = [''generic''],
     vo_RequireIP = False, vo_MinDifficulty = 4, vo_MaxDifficulty = 28, vo_Algorithm = ''sha256''\<rparr>"

lemma demo_valid:
  "ValidatePayload demo_lib (Some demo_payload) (Some demo_opts) = None"
  "ValidatePayload demo_lib (Some (demo_payload\<lparr>tp_Algorithm := ''SHA256''\<rparr>)) (Some demo_opts) = None"
  "known_modes demo_opts"
  by code_simp+

text \<open>
  C15: The canonical text that is hashed determines the token. Two payloads that both pass
  field validation (for the service's modes) and have the same canonical text agree on every
  field; only the spelling of the algorithm name, which is compared without letter case and
  not part of the canonical text, may differ. So no value of a field can pass for another
  field, also not through newlines in an IPv6 zone.
\<close>

theorem canonical_determines_payload:
  assumes "ValidatePayload L (Some p) (Some v) = None" and "known_modes v"
    and "ValidatePayload L (Some q) (Some w) = None" and "known_modes w"
    and "BuildCanonicalInput (Some p) = BuildCanonicalInput (Some q)"
  shows "q = p\<lparr>tp_Algorithm := tp_Algorithm q\<rparr>"
  using assms by (rule valid_canonical_eq)

theorem canonical_determines_payload_witness:
  "ValidatePayload demo_lib (Some demo_payload) (Some demo_opts) = None \<and>
   demo_payload\<lparr>tp_Algorithm := ''SHA256''\<rparr> =
     demo_payload\<lparr>tp_Algorithm := tp_Algorithm (demo_payload\<lparr>tp_Algorithm := ''SHA256''\<rparr>)\<rparr>"
proof -
  have "BuildCanonicalInput (Some demo_payload) =
      BuildCanonicalInput (Some (demo_payload\<lparr>tp_Algorithm := ''SHA256''\<rparr>))"
    by (simp add: BuildCanonicalInput_def canonical_ip_def)
  from canonical_determines_payload [OF demo_valid(1,3,2,3) this] demo_valid(1)
  show ?thesis by simp
qed

text \<open>
  C16: The sign id under which uses are counted identifies the work. For validated payloads,
  newline-free mode names and signs, and no hash collision between the two texts that are
  hashed into the ids, equal ids mean the same mode, the same sign and the same payload up to
  the spelling of the algorithm.
\<close>

theorem sign_id_determines_work:
  assumes "ValidatePayload L (Some p) (Some v) = None" and "known_modes v"
    and "ValidatePayload L (Some q) (Some w) = None" and "known_modes w"
    and "newline \<notin> set m" and "newline \<notin> set n" and "newline \<notin> set s" and "newline \<notin> set t"
    and no_collision: "Sum256 L (sign_id_input (Some p) s m) = Sum256 L (sign_id_input (Some q) t n) \<longrightarrow>
      sign_id_input (Some p) s m = sign_id_input (Some q) t n"
    and "ComputeSignID L (Some p) s m = ComputeSignID L (Some q) t n"
  shows "m = n \<and> s = t \<and> q = p\<lparr>tp_Algorithm := tp_Algorithm q\<rparr>"
proof -
  from assms(10) have "Sum256 L (sign_id_input (Some p) s m) = Sum256 L (sign_id_input (Some q) t n)"
    unfolding ComputeSignID_def by (rule hex_digest_inject)
  with no_collision have "sign_id_input (Some p) s m = sign_id_input (Some q) t n" by blast
  from sign_id_input_inject [OF this assms(5-8)]
  have mn: "m = n" and st: "s = t" and c: "BuildCanonicalInput (Some p) = BuildCanonicalInput (Some q)"
    by auto
  from valid_canonical_eq [OF assms(1-4) c] mn st show ?thesis by simp
qed

text \<open>A hash that tells the text of the demonstration token from all others.\<close>

definition telling_lib :: golib where
  "telling_lib = demo_lib\<lparr>Sum256 := (\<lambda>x. if x = sign_id_input (Some demo_payload) ''ab'' ''generic'' then 1 else 2)\<rparr>"

theorem sign_id_determines_work_witness:
  "ComputeSignID telling_lib (Some demo_payload) ''ab'' ''generic'' \<noteq>
     ComputeSignID telling_lib (Some (demo_payload\<lparr>tp_Counter := ''1f''\<rparr>)) ''ab'' ''generic'' \<and>
   ComputeSignID telling_lib (Some demo_payload) ''ab'' ''generic'' \<noteq>
     ComputeSignID telling_lib (Some demo_payload) ''AB'' ''generic'' \<and>
   demo_payload\<lparr>tp_Algorithm := ''SHA256''\<rparr> \<noteq> demo_payload \<and>
   ComputeSignID telling_lib (Some demo_payload) ''ab'' ''generic'' =
     ComputeSignID telling_lib (Some (demo_payload\<lparr>tp_Algorithm := ''SHA256''\<rparr>)) ''ab'' ''generic'' \<and>
   demo_payload\<lparr>tp_Algorithm := ''SHA256''\<rparr> =
     demo_payload\<lparr>tp_Algorithm := tp_Algorithm (demo_payload\<lparr>tp_Algorithm := ''SHA256''\<rparr>)\<rparr>"
proof -
  let ?r = "demo_payload\<lparr>tp_Algorithm := ''SHA256''\<rparr>"
  let ?q = "demo_payload\<lparr>tp_Counter := ''1f''\<rparr>"
  have valid: "ValidatePayload telling_lib (Some p) (Some demo_opts) = ValidatePayload demo_lib (Some p) (Some demo_opts)" for p
    by (simp add: ValidatePayload_def telling_lib_def ToLower_def EqualFold_def Let_def)
  have "ValidatePayload demo_lib (Some ?q) (Some demo_opts) = None" by code_simp
  then have v: "ValidatePayload telling_lib (Some demo_payload) (Some demo_opts) = None"
    "ValidatePayload telling_lib (Some ?q) (Some demo_opts) = None" by (simp_all add: valid demo_valid(1))
  have no_collision: "Sum256 telling_lib (sign_id_input (Some demo_payload) ''ab'' ''generic'') = Sum256 telling_lib x \<longrightarrow>
      sign_id_input (Some demo_payload) ''ab'' ''generic'' = x" for x
    by (simp add: telling_lib_def)
  have r: "ValidatePayload telling_lib (Some ?r) (Some demo_opts) = None" by (simp add: valid demo_valid(2))
  have same: "ComputeSignID telling_lib (Some demo_payload) ''ab'' ''generic'' = ComputeSignID telling_lib (Some ?r) ''ab'' ''generic''"
    by (simp add: ComputeSignID_def sign_id_input_def BuildCanonicalInput_def canonical_ip_def)
  note work = sign_id_determines_work [OF v(1) demo_valid(3) _ demo_valid(3) _ _ _ _ no_collision]
  have nl: "newline \<notin> set ''generic''" "newline \<notin> set ''ab''" "newline \<notin> set ''AB''" by simp_all
  have "?q \<noteq> demo_payload\<lparr>tp_Algorithm := tp_Algorithm ?q\<rparr>" and "?r \<noteq> demo_payload" by (simp_all add: demo_payload_def)
  moreover from work [OF r nl(1,1,2,2) same] have "?r = demo_payload\<lparr>tp_Algorithm := tp_Algorithm ?r\<rparr>" by blast
  ultimately show ?thesis
    using work [OF v(2) nl(1,1,2,2)] work [OF v(1) nl(1,1,2,3)] same by blast
qed

text \<open>
  C17: The difficulty check is a threshold on the hash value. The byte and mask arithmetic of
  \<^verbatim>\<open>HasLeadingZeroBits\<close> accepts the hash of a canonical text at difficulty \<open>n\<close> exactly when
  the hash, read as a 256-bit big-endian number, is below \<open>2^(256-n)\<close>; a difficulty of zero
  or less is always met and one above 256 never.
\<close>

theorem difficulty_is_threshold:
  "HasLeadingZeroBits32 (HashCanonical L c) n \<longleftrightarrow>
     n \<le> 0 \<or> n \<le> 256 \<and> unat (Sum256 L c) < 2 ^ (256 - nat n)"
  by (auto simp: HasLeadingZeroBits32_def HashCanonical_def HasLeadingZeroBits_iff)

text \<open>
  Padding does not make a different token. The padded and the unpadded base64url
  encoding of the same bytes decode to the same result, whatever the JSON parser answers.
\<close>

theorem DecodeToken_padding_irrelevant:
  "DecodeToken L (URLEncoding_Encode s) = DecodeToken L (RawURLEncoding_Encode s)"
proof (cases "b64_pad s = []")
  case True
  then show ?thesis by (simp add: URLEncoding_Encode_def)
next
  case False
  then have "s \<noteq> []" by (auto simp: b64_pad_def)
  then have "RawURLEncoding_Encode s \<noteq> []" by (simp add: RawURLEncoding_Encode_def b64_encode_Nil_iff)
  moreover from this have "URLEncoding_Encode s \<noteq> []" by (simp add: URLEncoding_Encode_def)
  ultimately show ?thesis using False
    by (simp add: DecodeToken_def RawURLEncoding_Decode_padded RawURLEncoding_roundtrip
        URLEncoding_roundtrip)
qed

end
