(* ===== verification/Config.thy ===== *)
theory Config
  imports Pow
begin

text \<open>
  Package \<^verbatim>\<open>internal/config\<close>: the configuration as records, one per struct of
  \<^verbatim>\<open>config.go\<close>, and the defaults of \<^verbatim>\<open>defaults.go\<close>. A pointer that may be nil is an option;
  a duration is a number of nanoseconds; a map is an association list.
\<close>

record ServerConfig =
  srv_Listen :: string
  srv_ReadTimeout :: int
  srv_WriteTimeout :: int
  srv_IdleTimeout :: int
  srv_ShutdownTimeout :: int

record ModeConfig =
  mc_Enabled :: bool
  mc_MinDifficulty :: int
  mc_MaxDifficulty :: int
  mc_MaxTTLSeconds :: int
  mc_RequireIP :: bool
  mc_CountUsage :: bool
  mc_MaxUses :: int
  mc_CountHeadRequest :: bool

record PowConfig =
  pc_Enabled :: "bool option"
  pc_DryRun :: bool
  pc_BypassAll :: bool
  pc_TokenParam :: string
  pc_SignParam :: string
  pc_MaxTokenLength :: int
  pc_MaxSignLength :: int
  pc_Algorithm :: string
  pc_PublicSalt :: string
  pc_AllowEmptySalt :: bool
  pc_AllowedPreviousSalts :: "string list"
  pc_IPBound :: ModeConfig
  pc_Generic :: ModeConfig

record ProtectionConfig =
  prot_ProtectedExtensions :: "string list"
  prot_ProtectedPaths :: "string list"
  prot_ExcludedPaths :: "string list"

record StorageConfig =
  st_Driver :: string
  st_CounterDriver :: string
  st_PgDSN :: string
  st_PgMaxOpenConns :: int
  st_PgMaxIdleConns :: int
  st_RedisAddr :: string
  st_RedisPassword :: string
  st_RedisDB :: int
  st_RedisKeyPrefix :: string

record PendingConfig =
  pnd_Enabled :: "bool option"
  pnd_MaxPerIP :: int
  pnd_BlockTTL :: int

record CounterWhenConfig =
  cw_IsProtected :: "bool option"
  cw_IsRangeRequest :: "bool option"
  cw_PowStatus :: string
  cw_PowMode :: string

record CounterConfig =
  cc_Key :: string
  cc_Window :: int
  cc_When :: CounterWhenConfig
  cc_Storage :: string

record PolicyConfig =
  polc_Target :: string
  polc_Status :: int
  polc_LimitRate :: string
  polc_Reason :: string

record CounterMatch =
  cm_Name :: string
  cm_Op :: string
  cm_Value :: int

record MatchConfig =
  mt_PathRegex :: string
  mt_PathPrefix :: string
  mt_ExtensionIn :: "string list"
  mt_MethodIn :: "string list"
  mt_IPCIDRIn :: "string list"
  mt_UserAgentRegex :: string
  mt_PowStatus :: string
  mt_PowStatusIn :: "string list"
  mt_PowMode :: string
  mt_IsProtected :: "bool option"
  mt_IsRangeRequest :: "bool option"
  mt_Counter :: "CounterMatch option"
  mt_RiskScoreGte :: "int option"

record RuleConfig =
  rc_Name :: string
  rc_Match :: MatchConfig
  rc_Target :: string
  rc_Chain :: string
  rc_Status :: int
  rc_LimitRate :: string
  rc_Reason :: string
  rc_Mark :: string

record ChainConfig =
  chc_Policy :: PolicyConfig
  chc_Rules :: "RuleConfig list"

record RiskControlConfig =
  rk_Enabled :: bool
  rk_Pending :: PendingConfig
  rk_Counters :: "(string, CounterConfig) gomap"
  rk_Chains :: "(string, ChainConfig) gomap"

record LoggingConfig =
  lg_Level :: string
  lg_Format :: string
  lg_LogAccess :: "bool option"
  lg_LogDenied :: "bool option"
  lg_HashIP :: bool
  lg_LogSalt :: string

record CleanupConfig =
  cl_Enabled :: "bool option"
  cl_Interval :: int
  cl_ExpiredGracePeriod :: int

record Config =
  cfg_Server :: ServerConfig
  cfg_Pow :: PowConfig
  cfg_Protection :: ProtectionConfig
  cfg_Storage :: StorageConfig
  cfg_RiskControl :: RiskControlConfig
  cfg_Logging :: LoggingConfig
  cfg_Cleanup :: CleanupConfig

section \<open>Defaults (defaults.go)\<close>

definition Second :: int where "Second = 1000000000"
definition Minute :: int where "Minute = 60 * Second"
definition Hour :: int where "Hour = 60 * Minute"

definition or_string :: "string \<Rightarrow> string \<Rightarrow> string" where
  "or_string d s = (if s = [] then d else s)"

definition or_int :: "int \<Rightarrow> int \<Rightarrow> int" where
  "or_int d i = (if i = 0 then d else i)"

definition or_on :: "bool option \<Rightarrow> bool option" where
  "or_on b = (case b of None \<Rightarrow> Some True | Some x \<Rightarrow> Some x)"

definition default_server :: "ServerConfig \<Rightarrow> ServerConfig" where
  "default_server c = c\<lparr>
     srv_Listen := or_string ''127.0.0.1:8080'' (srv_Listen c),
     srv_ReadTimeout := or_int (2 * Second) (srv_ReadTimeout c),
     srv_WriteTimeout := or_int (2 * Second) (srv_WriteTimeout c),
     srv_IdleTimeout := or_int (30 * Second) (srv_IdleTimeout c),
     srv_ShutdownTimeout := or_int (5 * Second) (srv_ShutdownTimeout c)\<rparr>"

definition default_ip_bound :: "ModeConfig \<Rightarrow> ModeConfig" where
  "default_ip_bound c = c\<lparr>
     mc_MinDifficulty := or_int 22 (mc_MinDifficulty c),
     mc_MaxDifficulty := or_int 28 (mc_MaxDifficulty c),
     mc_MaxTTLSeconds := or_int 86400 (mc_MaxTTLSeconds c)\<rparr>"

definition default_generic :: "ModeConfig \<Rightarrow> ModeConfig" where
  "default_generic c = c\<lparr>
     mc_MinDifficulty := or_int 22 (mc_MinDifficulty c),
     mc_MaxDifficulty := or_int 28 (mc_MaxDifficulty c),
     mc_MaxTTLSeconds := or_int 1800 (mc_MaxTTLSeconds c),
     mc_MaxUses := or_int 5 (mc_MaxUses c)\<rparr>"

definition default_pow :: "PowConfig \<Rightarrow> PowConfig" where
  "default_pow c = c\<lparr>
     pc_Enabled := or_on (pc_Enabled c),
     pc_TokenParam := or_string ''token'' (pc_TokenParam c),
     pc_SignParam := or_string ''sign'' (pc_SignParam c),
     pc_MaxTokenLength := or_int 4096 (pc_MaxTokenLength c),
     pc_MaxSignLength := or_int 128 (pc_MaxSignLength c),
     pc_Algorithm := or_string ''sha256'' (pc_Algorithm c),
     pc_IPBound := default_ip_bound (pc_IPBound c),
     pc_Generic := default_generic (pc_Generic c)\<rparr>"

definition default_pending :: "PendingConfig \<Rightarrow> PendingConfig" where
  "default_pending c = c\<lparr>
     pnd_Enabled := or_on (pnd_Enabled c),
     pnd_MaxPerIP := or_int 128 (pnd_MaxPerIP c),
     pnd_BlockTTL := or_int Hour (pnd_BlockTTL c)\<rparr>"

definition default_storage :: "StorageConfig \<Rightarrow> StorageConfig" where
  "default_storage c = c\<lparr>
     st_Driver := or_string ''memory'' (st_Driver c),
     st_CounterDriver := or_string ''memory'' (st_CounterDriver c),
     st_PgMaxOpenConns := or_int 20 (st_PgMaxOpenConns c),
     st_PgMaxIdleConns := or_int 5 (st_PgMaxIdleConns c),
     st_RedisAddr := or_string ''127.0.0.1:6379'' (st_RedisAddr c),
     st_RedisKeyPrefix := or_string ''mirrors-waf'' (st_RedisKeyPrefix c)\<rparr>"

definition default_logging :: "LoggingConfig \<Rightarrow> LoggingConfig" where
  "default_logging c = c\<lparr>
     lg_Level := or_string ''info'' (lg_Level c),
     lg_Format := or_string ''json'' (lg_Format c),
     lg_LogAccess := or_on (lg_LogAccess c),
     lg_LogDenied := or_on (lg_LogDenied c)\<rparr>"

definition default_cleanup :: "CleanupConfig \<Rightarrow> CleanupConfig" where
  "default_cleanup c = c\<lparr>
     cl_Enabled := or_on (cl_Enabled c),
     cl_Interval := or_int (10 * Minute) (cl_Interval c),
     cl_ExpiredGracePeriod := or_int (24 * Hour) (cl_ExpiredGracePeriod c)\<rparr>"

definition applyDefaults :: "Config \<Rightarrow> Config" where
  "applyDefaults c = c\<lparr>
     cfg_Server := default_server (cfg_Server c),
     cfg_Pow := default_pow (cfg_Pow c),
     cfg_RiskControl := (cfg_RiskControl c)\<lparr>rk_Pending := default_pending (rk_Pending (cfg_RiskControl c))\<rparr>,
     cfg_Storage := default_storage (cfg_Storage c),
     cfg_Logging := default_logging (cfg_Logging c),
     cfg_Cleanup := default_cleanup (cfg_Cleanup c)\<rparr>"

section \<open>Facts\<close>

lemma or_string_idem [simp]: "or_string d (or_string d s) = or_string d s"
  by (simp add: or_string_def)

lemma or_int_idem [simp]: "or_int d (or_int d i) = or_int d i"
  by (simp add: or_int_def)

lemma or_on_idem [simp]: "or_on (or_on b) = or_on b"
  by (simp add: or_on_def split: option.split)

lemma or_on_not_None [simp]: "or_on b \<noteq> None"
  by (cases b) (simp_all add: or_on_def)

lemmas default_defs = default_server_def default_pow_def default_ip_bound_def default_generic_def
  default_pending_def default_storage_def default_logging_def default_cleanup_def

text \<open>A configuration whose every field is Go's zero value, and a minimal valid one.\<close>

definition zero_mode :: ModeConfig where
  "zero_mode = \<lparr>mc_Enabled = False, mc_MinDifficulty = 0, mc_MaxDifficulty = 0, mc_MaxTTLSeconds = 0,
     mc_RequireIP = False, mc_CountUsage = False, mc_MaxUses = 0, mc_CountHeadRequest = False\<rparr>"

definition zero_config :: Config where
  "zero_config = \<lparr>
     cfg_Server = \<lparr>srv_Listen = [], srv_ReadTimeout = 0, srv_WriteTimeout = 0, srv_IdleTimeout = 0,
       srv_ShutdownTimeout = 0\<rparr>,
     cfg_Pow = \<lparr>pc_Enabled = None, pc_DryRun = False, pc_BypassAll = False, pc_TokenParam = [],
       pc_SignParam = [], pc_MaxTokenLength = 0, pc_MaxSignLength = 0, pc_Algorithm = [],
       pc_PublicSalt = [], pc_AllowEmptySalt = False, pc_AllowedPreviousSalts = [],
       pc_IPBound = zero_mode, pc_Generic = zero_mode\<rparr>,
     cfg_Protection = \<lparr>prot_ProtectedExtensions = [], prot_ProtectedPaths = [], prot_ExcludedPaths = []\<rparr>,
     cfg_Storage = \<lparr>st_Driver = [], st_CounterDriver = [], st_PgDSN = [], st_PgMaxOpenConns = 0,
       st_PgMaxIdleConns = 0, st_RedisAddr = [], st_RedisPassword = [], st_RedisDB = 0,
       st_RedisKeyPrefix = []\<rparr>,
     cfg_RiskControl = \<lparr>rk_Enabled = False,
       rk_Pending = \<lparr>pnd_Enabled = None, pnd_MaxPerIP = 0, pnd_BlockTTL = 0\<rparr>,
       rk_Counters = [], rk_Chains = []\<rparr>,
     cfg_Logging = \<lparr>lg_Level = [], lg_Format = [], lg_LogAccess = None, lg_LogDenied = None,
       lg_HashIP = False, lg_LogSalt = []\<rparr>,
     cfg_Cleanup = \<lparr>cl_Enabled = None, cl_Interval = 0, cl_ExpiredGracePeriod = 0\<rparr>\<rparr>"

definition config_pow_generic_on :: "Config \<Rightarrow> Config" where
  "config_pow_generic_on c = c\<lparr>cfg_Pow := (cfg_Pow c)\<lparr>pc_Generic := (pc_Generic (cfg_Pow c))\<lparr>mc_Enabled := True\<rparr>\<rparr>\<rparr>"

lemma applyDefaults_idem: "applyDefaults (applyDefaults c) = applyDefaults c"
  by (simp add: applyDefaults_def default_defs)

end
