(* ===== verification/RiskMatch.thy ===== *)
theory RiskMatch
  imports Config
begin

text \<open>
  \<^verbatim>\<open>internal/risk\<close>: the request as rules see it (\<^verbatim>\<open>types.go\<close>), the targets
  (\<^verbatim>\<open>target.go\<close>) and the compiled match conditions (\<^verbatim>\<open>matcher.go\<close>). The types that implement
  \<^verbatim>\<open>risk.Matcher\<close> are the constructors of one datatype; a compiled regular expression is the
  predicate it decides. A counter resolver is the function its \<^verbatim>\<open>Get\<close> computes; the caching of
  one evaluation pass means that asking twice gives the same answer.
\<close>

section \<open>Request, decision and trace (types.go)\<close>

type_synonym CounterResolver = "string \<Rightarrow> int"

record RequestContext =
  rq_Path :: string
  rq_Method :: string
  rq_Args :: string
  rq_IP :: string
  rq_UserAgent :: string
  rq_HasToken :: bool
  rq_HasSign :: bool
  rq_PowStatus :: string
  rq_PowMode :: string
  rq_IsProtected :: bool
  rq_IsRangeRequest :: bool
  rq_Counters :: "CounterResolver option"

definition NoopCounterResolver :: CounterResolver where
  "NoopCounterResolver = (\<lambda>_. 0)"

record Decision =
  dc_Target :: string
  dc_StatusCode :: int
  dc_LimitRate :: string
  dc_Reason :: string
  dc_Chain :: string
  dc_RuleName :: string
  dc_Marks :: "string list"

record TraceStep =
  ts_Chain :: string
  ts_Rule :: string
  ts_Matched :: bool
  ts_Target :: string
  ts_JumpTo :: string

section \<open>Targets (target.go)\<close>

definition TargetACCEPT :: string where "TargetACCEPT = ''ACCEPT''"
definition TargetREJECT :: string where "TargetREJECT = ''REJECT''"
definition TargetRATELIMIT :: string where "TargetRATELIMIT = ''RATE_LIMIT''"
definition TargetTOOMANY :: string where "TargetTOOMANY = ''TOO_MANY''"
definition TargetREQUIREPOW :: string where "TargetREQUIREPOW = ''REQUIRE_POW''"
definition TargetJUMP :: string where "TargetJUMP = ''JUMP''"
definition TargetRETURN :: string where "TargetRETURN = ''RETURN''"
definition TargetLOG :: string where "TargetLOG = ''LOG''"
definition TargetMARK :: string where "TargetMARK = ''MARK''"

lemmas target_defs = TargetACCEPT_def TargetREJECT_def TargetRATELIMIT_def TargetTOOMANY_def
  TargetREQUIREPOW_def TargetJUMP_def TargetRETURN_def TargetLOG_def TargetMARK_def

definition isTerminal :: "string \<Rightarrow> bool" where
  "isTerminal t \<longleftrightarrow> t \<in> {TargetACCEPT, TargetREJECT, TargetRATELIMIT, TargetTOOMANY, TargetREQUIREPOW}"

definition IsValidRuleTarget :: "string \<Rightarrow> bool" where
  "IsValidRuleTarget t \<longleftrightarrow> t \<in> {TargetACCEPT, TargetREJECT, TargetRATELIMIT, TargetTOOMANY,
     TargetREQUIREPOW, TargetJUMP, TargetRETURN, TargetLOG, TargetMARK}"

definition IsValidPolicyTarget :: "string \<Rightarrow> bool" where
  "IsValidPolicyTarget t \<longleftrightarrow>
     t \<in> {TargetACCEPT, TargetREJECT, TargetRATELIMIT, TargetTOOMANY, TargetREQUIREPOW}"

definition defaultStatusCodeFor :: "string \<Rightarrow> int" where
  "defaultStatusCodeFor t =
     (if t \<in> {TargetACCEPT, TargetRATELIMIT} then 200
      else if t \<in> {TargetREJECT, TargetREQUIREPOW} then 403
      else if t = TargetTOOMANY then 429
      else 0)"

section \<open>Matchers (matcher.go)\<close>

datatype RiskMatcher =
    matchAll
  | pathRegexMatcher "string \<Rightarrow> bool"
  | pathPrefixMatcher string
  | extensionMatcher "string list"
  | methodMatcher "string list"
  | ipCIDRMatcher "IPNet list"
  | uaRegexMatcher "string \<Rightarrow> bool"
  | powStatusMatcher string
  | powStatusInMatcher "string list"
  | powModeMatcher string
  | boolMatcher string bool
  | counterMatcher CounterMatch
  | andMatcher "RiskMatcher list"

text \<open>\<^verbatim>\<open>path.Ext\<close>: from the last dot of the last segment on.\<close>

fun ext_loop :: "string \<Rightarrow> string \<Rightarrow> string" where
  "ext_loop [] acc = []"
| "ext_loop (c # rest) acc =
     (if c = CHR ''/'' then []
      else if c = CHR ''.'' then c # acc
      else ext_loop rest (c # acc))"

definition path_Ext :: "string \<Rightarrow> string" where
  "path_Ext p = ext_loop (rev p) []"

definition compareCounter :: "int \<Rightarrow> string \<Rightarrow> int \<Rightarrow> bool" where
  "compareCounter v op target =
     (if op = ''>='' then v \<ge> target
      else if op = ''>'' then v > target
      else if op = ''=='' then v = target
      else if op = ''!='' then v \<noteq> target
      else if op = ''<='' then v \<le> target
      else if op = ''<'' then v < target
      else False)"

fun Match :: "golib \<Rightarrow> RequestContext \<Rightarrow> RiskMatcher \<Rightarrow> bool" where
  "Match L ctx matchAll = True"
| "Match L ctx (pathRegexMatcher re) = re (rq_Path ctx)"
| "Match L ctx (pathPrefixMatcher p) = HasPrefix (rq_Path ctx) p"
| "Match L ctx (extensionMatcher exts) =
     (let ext = ToLower L (path_Ext (rq_Path ctx)) in if ext = [] then False else ext \<in> set exts)"
| "Match L ctx (methodMatcher methods) = (ToUpper L (rq_Method ctx) \<in> set methods)"
| "Match L ctx (ipCIDRMatcher nets) =
     (case ParseAddr (rq_IP ctx) of
        None \<Rightarrow> False
      | Some addr \<Rightarrow> list_ex (\<lambda>n. IPNet_Contains n (AsSlice addr)) nets)"
| "Match L ctx (uaRegexMatcher re) = re (rq_UserAgent ctx)"
| "Match L ctx (powStatusMatcher s) = (rq_PowStatus ctx = s)"
| "Match L ctx (powStatusInMatcher ss) = (rq_PowStatus ctx \<in> set ss)"
| "Match L ctx (powModeMatcher m) = (rq_PowMode ctx = m)"
| "Match L ctx (boolMatcher fld want) =
     (if fld = ''is_protected'' then rq_IsProtected ctx = want
      else if fld = ''is_range_request'' then rq_IsRangeRequest ctx = want
      else False)"
| "Match L ctx (counterMatcher c) =
     (case rq_Counters ctx of
        None \<Rightarrow> False
      | Some res \<Rightarrow> compareCounter (res (cm_Name c)) (cm_Op c) (cm_Value c))"
| "Match L ctx (andMatcher parts) = list_all (Match L ctx) parts"

text \<open>
  \<^verbatim>\<open>CompileMatcher\<close>: one part per field that is set, in the order of the source. The error is
  the pattern or block that does not compile.
\<close>

fun rule_extensions :: "golib \<Rightarrow> string list \<Rightarrow> string list" where
  "rule_extensions L [] = []"
| "rule_extensions L (e0 # es) =
     (let e = ToLower L (TrimSpace L e0) in
      if e = [] then rule_extensions L es
      else (if HasPrefix e ''.'' then e else ''.'' @ e) # rule_extensions L es)"

fun parse_cidrs :: "string list \<Rightarrow> string + IPNet list" where
  "parse_cidrs [] = Inr []"
| "parse_cidrs (c # cs) =
     (case ParseCIDR c of
        None \<Rightarrow> Inl c
      | Some n \<Rightarrow> (case parse_cidrs cs of Inl e \<Rightarrow> Inl e | Inr ns \<Rightarrow> Inr (n # ns)))"

definition part_path_regex :: "golib \<Rightarrow> MatchConfig \<Rightarrow> string + RiskMatcher list" where
  "part_path_regex L m =
     (if mt_PathRegex m \<noteq> [] then
        (case regexp_Compile L (mt_PathRegex m) of
           None \<Rightarrow> Inl (mt_PathRegex m) | Some re \<Rightarrow> Inr [pathRegexMatcher re])
      else Inr [])"

definition part_ip_cidr :: "MatchConfig \<Rightarrow> string + RiskMatcher list" where
  "part_ip_cidr m =
     (if mt_IPCIDRIn m \<noteq> [] then
        (case parse_cidrs (mt_IPCIDRIn m) of Inl e \<Rightarrow> Inl e | Inr nets \<Rightarrow> Inr [ipCIDRMatcher nets])
      else Inr [])"

definition part_user_agent :: "golib \<Rightarrow> MatchConfig \<Rightarrow> string + RiskMatcher list" where
  "part_user_agent L m =
     (if mt_UserAgentRegex m \<noteq> [] then
        (case regexp_Compile L (mt_UserAgentRegex m) of
           None \<Rightarrow> Inl (mt_UserAgentRegex m) | Some re \<Rightarrow> Inr [uaRegexMatcher re])
      else Inr [])"

definition parts_path :: "golib \<Rightarrow> MatchConfig \<Rightarrow> RiskMatcher list" where
  "parts_path L m =
     (if mt_PathPrefix m \<noteq> [] then [pathPrefixMatcher (mt_PathPrefix m)] else []) @
     (if mt_ExtensionIn m \<noteq> [] then [extensionMatcher (rule_extensions L (mt_ExtensionIn m))] else []) @
     (if mt_MethodIn m \<noteq> []
      then [methodMatcher (map (\<lambda>mm. ToUpper L (TrimSpace L mm)) (mt_MethodIn m))] else [])"

definition parts_pow :: "MatchConfig \<Rightarrow> RiskMatcher list" where
  "parts_pow m =
     (if mt_PowStatus m \<noteq> [] then [powStatusMatcher (mt_PowStatus m)] else []) @
     (if mt_PowStatusIn m \<noteq> [] then [powStatusInMatcher (mt_PowStatusIn m)] else []) @
     (if mt_PowMode m \<noteq> [] then [powModeMatcher (mt_PowMode m)] else []) @
     (case mt_IsProtected m of None \<Rightarrow> [] | Some b \<Rightarrow> [boolMatcher ''is_protected'' b]) @
     (case mt_IsRangeRequest m of None \<Rightarrow> [] | Some b \<Rightarrow> [boolMatcher ''is_range_request'' b]) @
     (case mt_Counter m of None \<Rightarrow> [] | Some c \<Rightarrow> [counterMatcher c])"

definition CompileMatcher :: "golib \<Rightarrow> MatchConfig \<Rightarrow> string + RiskMatcher" where
  "CompileMatcher L m =
     (case part_path_regex L m of
        Inl e \<Rightarrow> Inl e
      | Inr p1 \<Rightarrow>
        (case part_ip_cidr m of
           Inl e \<Rightarrow> Inl e
         | Inr p2 \<Rightarrow>
           (case part_user_agent L m of
              Inl e \<Rightarrow> Inl e
            | Inr p3 \<Rightarrow>
                (let parts = p1 @ parts_path L m @ p2 @ p3 @ parts_pow m in
                 case parts of
                   [] \<Rightarrow> Inr matchAll
                 | [p] \<Rightarrow> Inr p
                 | _ \<Rightarrow> Inr (andMatcher parts)))))"

section \<open>Facts\<close>

lemma rule_extensions_set:
  "set (rule_extensions L es) =
     {(if HasPrefix e ''.'' then e else ''.'' @ e) | e. e \<noteq> [] \<and> (\<exists>e0 \<in> set es. e = ToLower L (TrimSpace L e0))}"
  by (induction es) (auto simp: Let_def)

lemma parse_cidrs_Inr:
  "parse_cidrs cs = Inr ns \<Longrightarrow> list_all2 (\<lambda>c n. ParseCIDR c = Some n) cs ns"
  by (induction cs arbitrary: ns) (auto split: option.splits sum.splits)

lemma parse_cidrs_Inl_iff: "(\<exists>e. parse_cidrs cs = Inl e) \<longleftrightarrow> (\<exists>c \<in> set cs. ParseCIDR c = None)"
  by (induction cs) (auto split: option.splits sum.splits)

text \<open>What a match condition says, field by field; an unset field says nothing.\<close>

definition regex_says :: "golib \<Rightarrow> string \<Rightarrow> string \<Rightarrow> bool" where
  "regex_says L p s \<longleftrightarrow> p = [] \<or> (case regexp_Compile L p of None \<Rightarrow> False | Some re \<Rightarrow> re s)"

definition extension_says :: "golib \<Rightarrow> string list \<Rightarrow> string \<Rightarrow> bool" where
  "extension_says L es path \<longleftrightarrow> es = [] \<or>
     path_Ext path \<noteq> [] \<and> ToLower L (path_Ext path) \<noteq> [] \<and> ToLower L (path_Ext path) \<in> set (rule_extensions L es)"

definition cidr_says :: "string list \<Rightarrow> string \<Rightarrow> bool" where
  "cidr_says cs ip \<longleftrightarrow> cs = [] \<or>
     (\<exists>addr. ParseAddr ip = Some addr \<and>
        (\<exists>c \<in> set cs. \<exists>n. ParseCIDR c = Some n \<and> IPNet_Contains n (AsSlice addr)))"

definition match_spec :: "golib \<Rightarrow> MatchConfig \<Rightarrow> RequestContext \<Rightarrow> bool" where
  "match_spec L m ctx \<longleftrightarrow>
     regex_says L (mt_PathRegex m) (rq_Path ctx) \<and>
     (mt_PathPrefix m = [] \<or> HasPrefix (rq_Path ctx) (mt_PathPrefix m)) \<and>
     extension_says L (mt_ExtensionIn m) (rq_Path ctx) \<and>
     (mt_MethodIn m = [] \<or>
        (\<exists>mm \<in> set (mt_MethodIn m). ToUpper L (rq_Method ctx) = ToUpper L (TrimSpace L mm))) \<and>
     cidr_says (mt_IPCIDRIn m) (rq_IP ctx) \<and>
     regex_says L (mt_UserAgentRegex m) (rq_UserAgent ctx) \<and>
     (mt_PowStatus m = [] \<or> rq_PowStatus ctx = mt_PowStatus m) \<and>
     (mt_PowStatusIn m = [] \<or> rq_PowStatus ctx \<in> set (mt_PowStatusIn m)) \<and>
     (mt_PowMode m = [] \<or> rq_PowMode ctx = mt_PowMode m) \<and>
     (mt_IsProtected m = None \<or> mt_IsProtected m = Some (rq_IsProtected ctx)) \<and>
     (mt_IsRangeRequest m = None \<or> mt_IsRangeRequest m = Some (rq_IsRangeRequest ctx)) \<and>
     (case mt_Counter m of
        None \<Rightarrow> True
      | Some c \<Rightarrow>
          (case rq_Counters ctx of
             None \<Rightarrow> False
           | Some res \<Rightarrow> compareCounter (res (cm_Name c)) (cm_Op c) (cm_Value c)))"

definition match_compiles :: "golib \<Rightarrow> MatchConfig \<Rightarrow> bool" where
  "match_compiles L m \<longleftrightarrow>
     (mt_PathRegex m \<noteq> [] \<longrightarrow> regexp_Compile L (mt_PathRegex m) \<noteq> None) \<and>
     (\<forall>c \<in> set (mt_IPCIDRIn m). ParseCIDR c \<noteq> None) \<and>
     (mt_UserAgentRegex m \<noteq> [] \<longrightarrow> regexp_Compile L (mt_UserAgentRegex m) \<noteq> None)"

definition says_all :: "golib \<Rightarrow> RequestContext \<Rightarrow> RiskMatcher list \<Rightarrow> bool" where
  "says_all L ctx ps \<longleftrightarrow> list_all (Match L ctx) ps"

lemma says_all_append [simp]: "says_all L ctx (ps @ qs) \<longleftrightarrow> says_all L ctx ps \<and> says_all L ctx qs"
  by (simp add: says_all_def)

lemma says_all_simps [simp]: "says_all L ctx []" "says_all L ctx (p # ps) \<longleftrightarrow> Match L ctx p \<and> says_all L ctx ps"
  by (simp_all add: says_all_def)

lemma part_path_regex_says:
  "part_path_regex L m = Inr ps \<Longrightarrow> says_all L ctx ps = regex_says L (mt_PathRegex m) (rq_Path ctx)"
  by (auto simp: part_path_regex_def regex_says_def split: if_splits option.splits)

lemma part_user_agent_says:
  "part_user_agent L m = Inr ps \<Longrightarrow> says_all L ctx ps = regex_says L (mt_UserAgentRegex m) (rq_UserAgent ctx)"
  by (auto simp: part_user_agent_def regex_says_def split: if_splits option.splits)

lemma cidr_nets:
  assumes "list_all2 (\<lambda>c n. ParseCIDR c = Some n) cs ns"
  shows "list_ex P ns \<longleftrightarrow> (\<exists>c \<in> set cs. \<exists>n. ParseCIDR c = Some n \<and> P n)"
  using assms by (induction rule: list_all2_induct) auto

lemma part_ip_cidr_says:
  assumes "part_ip_cidr m = Inr ps"
  shows "says_all L ctx ps = cidr_says (mt_IPCIDRIn m) (rq_IP ctx)"
proof (cases "mt_IPCIDRIn m = []")
  case True
  with assms show ?thesis by (simp add: part_ip_cidr_def cidr_says_def)
next
  case False
  with assms obtain nets where "parse_cidrs (mt_IPCIDRIn m) = Inr nets" and ps: "ps = [ipCIDRMatcher nets]"
    by (auto simp: part_ip_cidr_def split: sum.splits)
  then have "list_ex P nets \<longleftrightarrow> (\<exists>c \<in> set (mt_IPCIDRIn m). \<exists>n. ParseCIDR c = Some n \<and> P n)" for P
    by (intro cidr_nets parse_cidrs_Inr)
  with False ps show ?thesis by (simp add: cidr_says_def split: option.split)
qed

lemma ToLower_Nil [simp]: "ToLower L [] = []"
  by (simp add: ToLower_def is_ascii_def)

lemma parts_path_says:
  "says_all L ctx (parts_path L m) \<longleftrightarrow>
     (mt_PathPrefix m = [] \<or> HasPrefix (rq_Path ctx) (mt_PathPrefix m)) \<and>
     extension_says L (mt_ExtensionIn m) (rq_Path ctx) \<and>
     (mt_MethodIn m = [] \<or>
        (\<exists>mm \<in> set (mt_MethodIn m). ToUpper L (rq_Method ctx) = ToUpper L (TrimSpace L mm)))"
  by (auto simp: parts_path_def extension_says_def Let_def)

lemma parts_pow_says:
  "says_all L ctx (parts_pow m) \<longleftrightarrow>
     (mt_PowStatus m = [] \<or> rq_PowStatus ctx = mt_PowStatus m) \<and>
     (mt_PowStatusIn m = [] \<or> rq_PowStatus ctx \<in> set (mt_PowStatusIn m)) \<and>
     (mt_PowMode m = [] \<or> rq_PowMode ctx = mt_PowMode m) \<and>
     (mt_IsProtected m = None \<or> mt_IsProtected m = Some (rq_IsProtected ctx)) \<and>
     (mt_IsRangeRequest m = None \<or> mt_IsRangeRequest m = Some (rq_IsRangeRequest ctx)) \<and>
     (case mt_Counter m of
        None \<Rightarrow> True
      | Some c \<Rightarrow>
          (case rq_Counters ctx of
             None \<Rightarrow> False
           | Some res \<Rightarrow> compareCounter (res (cm_Name c)) (cm_Op c) (cm_Value c)))"
  by (auto simp: parts_pow_def split: option.split)

lemma compile_parts:
  assumes "CompileMatcher L m = Inr rm"
  obtains p1 p2 p3 where "part_path_regex L m = Inr p1" "part_ip_cidr m = Inr p2" "part_user_agent L m = Inr p3"
    "Match L ctx rm = says_all L ctx (p1 @ parts_path L m @ p2 @ p3 @ parts_pow m)"
proof -
  from assms obtain p1 p2 p3 where p: "part_path_regex L m = Inr p1" "part_ip_cidr m = Inr p2"
      "part_user_agent L m = Inr p3"
    by (auto simp: CompileMatcher_def split: sum.splits)
  let ?parts = "p1 @ parts_path L m @ p2 @ p3 @ parts_pow m"
  from assms p have "(case ?parts of [] \<Rightarrow> Inr matchAll | [q] \<Rightarrow> Inr q | _ \<Rightarrow> Inr (andMatcher ?parts)) =
      (Inr rm :: string + RiskMatcher)"
    by (simp only: CompileMatcher_def sum.case Let_def)
  then have "Match L ctx rm = says_all L ctx ?parts"
    by (cases ?parts rule: list.exhaust; cases "tl ?parts") (auto simp: says_all_def simp del: append_assoc)
  with p that show ?thesis by blast
qed

lemma CompileMatcher_Inl_iff: "(\<exists>e. CompileMatcher L m = Inl e) \<longleftrightarrow> \<not> match_compiles L m"
proof -
  have 1: "(\<exists>e. part_path_regex L m = Inl e) \<longleftrightarrow> mt_PathRegex m \<noteq> [] \<and> regexp_Compile L (mt_PathRegex m) = None"
    by (auto simp: part_path_regex_def split: option.split)
  have 2: "(\<exists>e. part_user_agent L m = Inl e) \<longleftrightarrow> mt_UserAgentRegex m \<noteq> [] \<and> regexp_Compile L (mt_UserAgentRegex m) = None"
    by (auto simp: part_user_agent_def split: option.split)
  have 3: "(\<exists>e. part_ip_cidr m = Inl e) \<longleftrightarrow> (\<exists>c \<in> set (mt_IPCIDRIn m). ParseCIDR c = None)"
    using parse_cidrs_Inl_iff [of "mt_IPCIDRIn m"] by (auto simp: part_ip_cidr_def split: sum.split)
  have "(\<exists>e. CompileMatcher L m = Inl e) \<longleftrightarrow>
      (\<exists>e. part_path_regex L m = Inl e) \<or> (\<exists>e. part_ip_cidr m = Inl e) \<or> (\<exists>e. part_user_agent L m = Inl e)"
    by (auto simp: CompileMatcher_def Let_def split: sum.splits list.splits)
  with 1 2 3 show ?thesis by (auto simp: match_compiles_def)
qed

section \<open>Properties\<close>

text \<open>
  C25: A compiled match condition is the conjunction of the fields that are set. Compilation
  fails exactly when a pattern or an address block of the rule does not parse; otherwise the
  compiled matcher, whatever its shape, accepts a request exactly when every field that is set
  holds of it, and an empty condition accepts everything.
\<close>

theorem match_is_conjunction:
  "case CompileMatcher L m of
     Inl e \<Rightarrow> \<not> match_compiles L m
   | Inr rm \<Rightarrow> match_compiles L m \<and> (\<forall>ctx. Match L ctx rm = match_spec L m ctx)"
proof (cases "CompileMatcher L m")
  case (Inl e)
  then show ?thesis using CompileMatcher_Inl_iff [of L m] by auto
next
  case (Inr rm)
  have "Match L ctx rm = match_spec L m ctx" for ctx
  proof -
    from compile_parts [OF Inr, where ctx = ctx] obtain p1 p2 p3
      where p: "part_path_regex L m = Inr p1" "part_ip_cidr m = Inr p2" "part_user_agent L m = Inr p3"
        and M: "Match L ctx rm = says_all L ctx (p1 @ parts_path L m @ p2 @ p3 @ parts_pow m)" by blast
    show ?thesis
      unfolding M match_spec_def says_all_append part_path_regex_says [OF p(1)] part_ip_cidr_says [OF p(2)]
        part_user_agent_says [OF p(3)] parts_path_says parts_pow_says
      by (simp only: conj_assoc)
  qed
  moreover have "match_compiles L m" using Inr CompileMatcher_Inl_iff [of L m] by auto
  ultimately show ?thesis using Inr by simp
qed


lemma ext_loop_dots: "CHR ''.'' \<notin> set acc \<Longrightarrow> ext_loop r acc = [] \<or>
    (\<exists>t. ext_loop r acc = CHR ''.'' # t \<and> CHR ''.'' \<notin> set t \<and> set t \<subseteq> set r \<union> set acc)"
proof (induction r arbitrary: acc)
  case (Cons c r)
  consider "c = CHR ''/''" | "c = CHR ''.''" | "c \<noteq> CHR ''/''" "c \<noteq> CHR ''.''" by blast
  then show ?case
  proof cases
    case 2
    with Cons.prems show ?thesis by (simp only: ext_loop.simps) auto
  next
    case 3
    with Cons.prems have "CHR ''.'' \<notin> set (c # acc)" by simp
    from Cons.IH [OF this] 3 show ?thesis by (simp only: ext_loop.simps if_False) auto
  qed simp
qed simp

lemma lower_byte_dot: "lower_byte c = CHR ''.'' \<longleftrightarrow> c = CHR ''.''"
proof -
  have "lower_byte c = CHR ''.'' \<Longrightarrow> byte_of c = (46 :: nat)"
    by (auto simp: lower_byte_def split: if_splits dest: arg_cong [where f = "of_char :: char \<Rightarrow> nat"])
  moreover have "byte_of c = (46 :: nat) \<Longrightarrow> c = CHR ''.''"
    using of_char_eq_iff [of c "CHR ''.''", where ?'a = nat] by simp
  moreover have "lower_byte (CHR ''.'') = CHR ''.''" by code_simp
  ultimately show ?thesis by blast
qed

lemma path_Ext_one_dot:
  assumes "is_ascii p"
  shows "CHR ''.'' \<notin> set (tl (ToLower L (path_Ext p)))"
proof -
  have "CHR ''.'' \<notin> set []" by simp
  from ext_loop_dots [OF this, of "rev p"] show ?thesis
  proof (elim disjE exE conjE)
    fix t assume e: "ext_loop (rev p) [] = CHR ''.'' # t" and "CHR ''.'' \<notin> set t" "set t \<subseteq> set (rev p) \<union> set []"
    moreover from this assms have "is_ascii (CHR ''.'' # t)" by (auto simp: is_ascii_def list_all_iff)
    moreover from \<open>CHR ''.'' \<notin> set t\<close> have "CHR ''.'' \<notin> lower_byte ` set t"
      using lower_byte_dot by (metis imageE)
    ultimately show ?thesis by (simp add: path_Ext_def ToLower_def)
  qed (simp_all add: path_Ext_def)
qed

text \<open>
  A rule's \<^verbatim>\<open>extension_in\<close> compares with the part after the last dot only. On an ASCII path a
  list whose entries all have a second dot, such as \<^verbatim>\<open>.tar.gz\<close>, matches no request at all,
  although the protection matcher accepts such suffixes.
\<close>

theorem compound_extension_never_matches:
  assumes "es \<noteq> []" and "\<forall>e \<in> set (rule_extensions L es). CHR ''.'' \<in> set (tl e)" and "is_ascii (rq_Path ctx)"
  shows "\<not> Match L ctx (extensionMatcher (rule_extensions L es))"
  using path_Ext_one_dot [OF assms(3), of L] assms(2) by (auto simp: Let_def)

definition demo_request :: RequestContext where
  "demo_request = \<lparr>rq_Path = ''/pub/a.tar.gz'', rq_Method = ''GET'', rq_Args = [], rq_IP = ''10.1.2.3'',
     rq_UserAgent = ''curl'', rq_HasToken = False, rq_HasSign = False, rq_PowStatus = ''missing'',
     rq_PowMode = [], rq_IsProtected = True, rq_IsRangeRequest = False, rq_Counters = None\<rparr>"

theorem compound_extension_never_matches_witness:
  "\<not> Match demo_lib demo_request (extensionMatcher (rule_extensions demo_lib [''.tar.gz'']))"
proof -
  have "\<forall>e \<in> set (rule_extensions demo_lib [''.tar.gz'']). CHR ''.'' \<in> set (tl e)"
    and "is_ascii (rq_Path demo_request)" by code_simp+
  with compound_extension_never_matches [of "[''.tar.gz'']" demo_lib demo_request] show ?thesis by simp
qed

end
