(* ===== verification/AuthResult.thy ===== *)
theory AuthResult
  imports RiskMatch
begin

text \<open>
  \<^verbatim>\<open>internal/auth\<close>: the request and the result of a verification (\<^verbatim>\<open>request.go\<close>,
  \<^verbatim>\<open>result.go\<close>), reasons, decisions and their statuses (\<^verbatim>\<open>reasons.go\<close>), the decision label of
  an allowed request (\<^verbatim>\<open>decision.go\<close>) and what is recorded about a result
  (\<^verbatim>\<open>result_recorder.go\<close>).
\<close>

record AuthRequest =
  ar_OriginalURI :: string
  ar_OriginalMethod :: string
  ar_OriginalArgs :: string
  ar_RealIP :: string
  ar_UserAgent :: string
  ar_OriginalRange :: string

record RiskTraceStep =
  rt_Chain :: string
  rt_Rule :: string
  rt_Matched :: bool
  rt_Target :: string
  rt_JumpTo :: string

record AuthResult =
  a_Allowed :: bool
  a_HTTPStatus :: int
  a_Reason :: string
  a_Mode :: string
  a_SignID :: string
  a_Uses :: int
  a_MaxUses :: int
  a_ErrorHeader :: string
  a_LimitRate :: string
  a_Decision :: string
  a_DryRunOriginalError :: string
  a_RiskChain :: string
  a_RiskRule :: string
  a_RiskTrace :: "RiskTraceStep list"
  a_RiskMarks :: "string list"

definition zero_result :: AuthResult where
  "zero_result = \<lparr>a_Allowed = False, a_HTTPStatus = 0, a_Reason = [], a_Mode = [], a_SignID = [], a_Uses = 0,
     a_MaxUses = 0, a_ErrorHeader = [], a_LimitRate = [], a_Decision = [], a_DryRunOriginalError = [],
     a_RiskChain = [], a_RiskRule = [], a_RiskTrace = [], a_RiskMarks = []\<rparr>"

section \<open>Decisions and reasons (reasons.go)\<close>

definition DecisionVerified :: string where "DecisionVerified = ''verified''"
definition DecisionUnverifiedSlow :: string where "DecisionUnverifiedSlow = ''unverified_slow''"
definition DecisionUnverifiedVerySlow :: string where "DecisionUnverifiedVerySlow = ''unverified_very_slow''"
definition DecisionNotProtected :: string where "DecisionNotProtected = ''not_protected''"
definition DecisionDenied :: string where "DecisionDenied = ''denied''"
definition DecisionBypass :: string where "DecisionBypass = ''bypass''"
definition DecisionDryRun :: string where "DecisionDryRun = ''dry_run''"
definition DecisionPowDisabled :: string where "DecisionPowDisabled = ''pow_disabled''"

definition ReasonNotProtected :: string where "ReasonNotProtected = ''not_protected''"
definition ReasonIPBoundValid :: string where "ReasonIPBoundValid = ''ip_bound_valid''"
definition ReasonGenericValid :: string where "ReasonGenericValid = ''generic_valid''"
definition ReasonDryRunAllow :: string where "ReasonDryRunAllow = ''dry_run_allow''"
definition ReasonBypassAll :: string where "ReasonBypassAll = ''bypass_all''"
definition ReasonPowDisabled :: string where "ReasonPowDisabled = ''pow_disabled''"
definition ReasonRiskAccept :: string where "ReasonRiskAccept = ''risk_accept''"
definition ReasonRiskRateLimit :: string where "ReasonRiskRateLimit = ''risk_rate_limit''"
definition ReasonRequirePowPass :: string where "ReasonRequirePowPass = ''require_pow_pass''"
definition ReasonValidPowFullSpeed :: string where "ReasonValidPowFullSpeed = ''valid_pow_full_speed''"
definition ReasonMissingHeaders :: string where "ReasonMissingHeaders = ''missing_headers''"
definition ReasonInvalidOriginalURI :: string where "ReasonInvalidOriginalURI = ''invalid_original_uri''"
definition ReasonMissingTokenOrSign :: string where "ReasonMissingTokenOrSign = ''missing_token_or_sign''"
definition ReasonTokenTooLong :: string where "ReasonTokenTooLong = ''token_too_long''"
definition ReasonSignTooLong :: string where "ReasonSignTooLong = ''sign_too_long''"
definition ReasonMalformedToken :: string where "ReasonMalformedToken = ''malformed_token''"
definition ReasonUnsupportedVersion :: string where "ReasonUnsupportedVersion = ''unsupported_version''"
definition ReasonUnsupportedMode :: string where "ReasonUnsupportedMode = ''unsupported_mode''"
definition ReasonModeDisabled :: string where "ReasonModeDisabled = ''mode_disabled''"
definition ReasonUnsupportedAlgorithm :: string where "ReasonUnsupportedAlgorithm = ''unsupported_algorithm''"
definition ReasonPathMismatch :: string where "ReasonPathMismatch = ''path_mismatch''"
definition ReasonExpired :: string where "ReasonExpired = ''expired''"
definition ReasonTTLTooLong :: string where "ReasonTTLTooLong = ''ttl_too_long''"
definition ReasonTimestampFromFuture :: string where "ReasonTimestampFromFuture = ''timestamp_from_future''"
definition ReasonDifficultyTooLow :: string where "ReasonDifficultyTooLow = ''difficulty_too_low''"
definition ReasonDifficultyTooHigh :: string where "ReasonDifficultyTooHigh = ''difficulty_too_high''"
definition ReasonInvalidCounter :: string where "ReasonInvalidCounter = ''invalid_counter''"
definition ReasonInvalidSalt :: string where "ReasonInvalidSalt = ''invalid_salt''"
definition ReasonInvalidIP :: string where "ReasonInvalidIP = ''invalid_ip''"
definition ReasonIPForbidden :: string where "ReasonIPForbidden = ''ip_forbidden''"
definition ReasonIPMissing :: string where "ReasonIPMissing = ''ip_missing''"
definition ReasonMissingRealIP :: string where "ReasonMissingRealIP = ''missing_real_ip''"
definition ReasonInvalidSignFormat :: string where "ReasonInvalidSignFormat = ''invalid_sign_format''"
definition ReasonSignMismatch :: string where "ReasonSignMismatch = ''sign_mismatch''"
definition ReasonDifficultyNotMet :: string where "ReasonDifficultyNotMet = ''difficulty_not_met''"
definition ReasonIPMismatch :: string where "ReasonIPMismatch = ''ip_mismatch''"
definition ReasonUsedUp :: string where "ReasonUsedUp = ''used_up''"
definition ReasonRateLimited :: string where "ReasonRateLimited = ''rate_limited''"
definition ReasonIPPendingBlocked :: string where "ReasonIPPendingBlocked = ''ip_pending_blocked''"
definition ReasonRiskReject :: string where "ReasonRiskReject = ''risk_reject''"
definition ReasonRiskTooMany :: string where "ReasonRiskTooMany = ''risk_too_many''"
definition ReasonStorageError :: string where "ReasonStorageError = ''storage_error''"
definition ReasonInternalError :: string where "ReasonInternalError = ''internal_error''"

lemmas reason_defs = ReasonNotProtected_def ReasonIPBoundValid_def ReasonGenericValid_def
  ReasonDryRunAllow_def ReasonBypassAll_def ReasonPowDisabled_def ReasonRiskAccept_def
  ReasonRiskRateLimit_def ReasonRequirePowPass_def ReasonValidPowFullSpeed_def ReasonMissingHeaders_def
  ReasonMissingTokenOrSign_def ReasonTokenTooLong_def ReasonSignTooLong_def ReasonMalformedToken_def
  ReasonUnsupportedVersion_def ReasonUnsupportedMode_def ReasonModeDisabled_def
  ReasonUnsupportedAlgorithm_def ReasonPathMismatch_def ReasonExpired_def ReasonTTLTooLong_def
  ReasonTimestampFromFuture_def ReasonDifficultyTooLow_def ReasonInvalidCounter_def
  ReasonInvalidSalt_def ReasonInvalidIP_def ReasonIPForbidden_def ReasonIPMissing_def
  ReasonMissingRealIP_def ReasonInvalidSignFormat_def ReasonSignMismatch_def
  ReasonDifficultyNotMet_def ReasonIPMismatch_def ReasonUsedUp_def ReasonRateLimited_def
  ReasonIPPendingBlocked_def ReasonRiskReject_def ReasonRiskTooMany_def ReasonStorageError_def
  ReasonInternalError_def

lemmas decision_defs = DecisionVerified_def DecisionUnverifiedSlow_def DecisionUnverifiedVerySlow_def
  DecisionNotProtected_def DecisionDenied_def DecisionBypass_def DecisionDryRun_def DecisionPowDisabled_def

definition statusForReason :: "string \<Rightarrow> int" where
  "statusForReason reason =
     (if reason \<in> {ReasonNotProtected, ReasonIPBoundValid, ReasonGenericValid, ReasonDryRunAllow,
          ReasonBypassAll, ReasonPowDisabled, ReasonRiskAccept, ReasonRiskRateLimit, ReasonRequirePowPass} then 200
      else if reason \<in> {ReasonRateLimited, ReasonRiskTooMany, ReasonIPPendingBlocked} then 429
      else if reason \<in> {ReasonStorageError, ReasonInternalError, ReasonMissingHeaders, ReasonMissingRealIP} then 500
      else 403)"

section \<open>Constructors of results (result.go)\<close>

definition allow :: "string \<Rightarrow> string \<Rightarrow> AuthResult" where
  "allow reason mode = zero_result\<lparr>a_Allowed := True, a_HTTPStatus := 200, a_Reason := reason, a_Mode := mode,
     a_Decision := DecisionVerified\<rparr>"

definition allowDecision :: "string \<Rightarrow> string \<Rightarrow> string \<Rightarrow> AuthResult" where
  "allowDecision reason mode decision = zero_result\<lparr>a_Allowed := True, a_HTTPStatus := 200, a_Reason := reason,
     a_Mode := mode, a_Decision := decision\<rparr>"

definition deny :: "string \<Rightarrow> AuthResult" where
  "deny reason = zero_result\<lparr>a_Allowed := False, a_HTTPStatus := statusForReason reason, a_Reason := reason,
     a_ErrorHeader := reason, a_Decision := DecisionDenied\<rparr>"

definition denyMode :: "string \<Rightarrow> string \<Rightarrow> AuthResult" where
  "denyMode reason mode = (deny reason)\<lparr>a_Mode := mode\<rparr>"

definition denyStatus :: "int \<Rightarrow> string \<Rightarrow> string \<Rightarrow> AuthResult" where
  "denyStatus status reason mode = (denyMode reason mode)\<lparr>a_HTTPStatus := status\<rparr>"

definition withSignID :: "AuthResult \<Rightarrow> string \<Rightarrow> AuthResult" where
  "withSignID r signID = r\<lparr>a_SignID := signID\<rparr>"

lemmas result_defs = allow_def allowDecision_def deny_def denyMode_def denyStatus_def withSignID_def zero_result_def

section \<open>Rates and decision labels (decision.go)\<close>

text \<open>The number, with the wrap-around of \<^verbatim>\<open>int\<close>, and the byte after it (NUL when there is none).\<close>

definition parseRate :: "string \<Rightarrow> (int \<times> char) option" where
  "parseRate s =
     (if s = [] then None
      else let ds = takeWhile is_digit s; r = dropWhile is_digit s in
        if ds = [] then None
        else Some (foldl (\<lambda>n c. wrap64 (n * 10 + int (digit_val c))) 0 ds,
                   case r of [] \<Rightarrow> CHR 0x00 | u # _ \<Rightarrow> u))"

definition isVerySlowRate :: "string \<Rightarrow> bool" where
  "isVerySlowRate rate =
     (case parseRate rate of
        None \<Rightarrow> False
      | Some (n, unit) \<Rightarrow>
          let bytesPerSec =
            (if unit \<in> {CHR ''k'', CHR ''K''} then wrap64 (n * 1024)
             else if unit \<in> {CHR ''m'', CHR ''M''} then wrap64 (wrap64 (n * 1024) * 1024)
             else if unit \<in> {CHR ''g'', CHR ''G''} then wrap64 (wrap64 (wrap64 (n * 1024) * 1024) * 1024)
             else n)
          in bytesPerSec \<le> 128 * 1024)"

definition isVerifiedReason :: "string \<Rightarrow> bool" where
  "isVerifiedReason reason \<longleftrightarrow>
     reason \<in> {ReasonGenericValid, ReasonIPBoundValid, ReasonRequirePowPass, ReasonValidPowFullSpeed}"

definition decideForAllow :: "AuthResult \<Rightarrow> string" where
  "decideForAllow res =
     (if a_Mode res \<noteq> [] \<and> isVerifiedReason (a_Reason res) then DecisionVerified
      else if a_LimitRate res \<noteq> [] \<and> a_LimitRate res \<noteq> ''0'' then
        (if isVerySlowRate (a_LimitRate res) then DecisionUnverifiedVerySlow else DecisionUnverifiedSlow)
      else DecisionVerified)"

definition powStatusToReason :: "string \<Rightarrow> string" where
  "powStatusToReason status =
     (if status = ''invalid'' then ReasonSignMismatch
      else if status = ''expired'' then ReasonExpired
      else if status = ''used_up'' then ReasonUsedUp
      else if status = ''unverifiable'' then ReasonMissingRealIP
      else if status = ''mode_disabled'' then ReasonModeDisabled
      else ReasonSignMismatch)"

definition reasonForAccept :: "string \<Rightarrow> string" where
  "reasonForAccept r = (if r = [] then ReasonRiskAccept else r)"

definition statusBucket :: "bool \<Rightarrow> string" where
  "statusBucket allowed = (if allowed then ''allow'' else ''deny'')"

section \<open>Recording (result\_recorder.go)\<close>

definition maxLoggedFieldLen :: nat where "maxLoggedFieldLen = 512"

text \<open>The marker is an ellipsis (three bytes of UTF-8) and the word in parentheses.\<close>

definition truncated_marker :: string where
  "truncated_marker = [CHR 0xE2, CHR 0x80, CHR 0xA6] @ ''(truncated)''"

definition truncateForLog :: "string \<Rightarrow> nat \<Rightarrow> string" where
  "truncateForLog s m = (if length s \<le> m then s else take m s @ truncated_marker)"

definition protectedLabel :: "bool option \<Rightarrow> string" where
  "protectedLabel p = (case p of None \<Rightarrow> ''unknown'' | Some True \<Rightarrow> ''true'' | Some False \<Rightarrow> ''false'')"

definition shouldLogResult :: "LoggingConfig \<Rightarrow> AuthResult \<Rightarrow> bool" where
  "shouldLogResult lg res =
     (if a_HTTPStatus res \<ge> 500 then True
      else if a_Allowed res then lg_LogAccess lg = None \<or> lg_LogAccess lg = Some True
      else lg_LogDenied lg = None \<or> lg_LogDenied lg = Some True)"

definition log_level :: "AuthResult \<Rightarrow> string" where
  "log_level res =
     (if \<not> a_Allowed res then (if a_HTTPStatus res \<ge> 500 then ''error'' else ''warn'') else ''info'')"

text \<open>The labels of the counter that is incremented, and the level of the log line, if any.\<close>

record Recorded =
  rec_labels :: "string list"
  rec_log :: "string option"
  rec_result :: AuthResult

definition record_entry :: "LoggingConfig \<Rightarrow> bool option \<Rightarrow> AuthResult \<Rightarrow> Recorded" where
  "record_entry lg prot res =
     \<lparr>rec_labels = [statusBucket (a_Allowed res), a_Reason res, a_Mode res, protectedLabel prot],
      rec_log = (if shouldLogResult lg res then Some (log_level res) else None), rec_result = res\<rparr>"

section \<open>Facts\<close>

lemma result_simps [simp]:
  "a_Allowed (allow r m)" "a_Allowed (allowDecision r m d)" "\<not> a_Allowed (deny r)" "\<not> a_Allowed (denyMode r m)"
  "\<not> a_Allowed (denyStatus st r m)" "a_Allowed (withSignID x sid) = a_Allowed x"
  "a_HTTPStatus (allow r m) = 200" "a_HTTPStatus (allowDecision r m d) = 200"
  "a_HTTPStatus (deny r) = statusForReason r" "a_HTTPStatus (denyMode r m) = statusForReason r"
  "a_HTTPStatus (denyStatus st r m) = st" "a_HTTPStatus (withSignID x sid) = a_HTTPStatus x"
  "a_Reason (allow r m) = r" "a_Reason (allowDecision r m d) = r" "a_Reason (deny r) = r"
  "a_Reason (denyMode r m) = r" "a_Reason (denyStatus st r m) = r" "a_Reason (withSignID x sid) = a_Reason x"
  "a_Mode (allow r m) = m" "a_Mode (deny r) = []" "a_Mode (denyMode r m) = m" "a_Mode (denyStatus st r m) = m"
  by (simp_all add: result_defs)

end
