(* ===== verification/RiskEngine.thy ===== *)
theory RiskEngine
  imports RiskMatch
begin

text \<open>
  \<^verbatim>\<open>internal/risk\<close>: rules, chains and policies (\<^verbatim>\<open>chain.go\<close>), compilation from the
  configuration (\<^verbatim>\<open>config.go\<close>) and the evaluation of chains (\<^verbatim>\<open>engine.go\<close>).

  \<^verbatim>\<open>evalChain\<close> recurses through JUMP rules and is bounded by the count of visits per chain name.
  The model takes the depth of jumps as fuel and answers \<^verbatim>\<open>None\<close> when it runs out; the fuel that
  \<^verbatim>\<open>Evaluate\<close> uses, nine visits for each name a rule can jump to and for the entry, is shown to be
  always enough. The shared trace, marks and visit counts are threaded as \<open>evalState\<close>.
\<close>

section \<open>Chains (chain.go)\<close>

record Rule =
  rl_Name :: string
  rl_Match :: RiskMatcher
  rl_Target :: string
  rl_Chain :: string
  rl_Status :: int
  rl_LimitRate :: string
  rl_Reason :: string
  rl_Mark :: string

record Policy =
  pol_Target :: string
  pol_Status :: int
  pol_LimitRate :: string
  pol_Reason :: string

record Chain =
  ch_Name :: string
  ch_Rules :: "Rule list"
  ch_Policy :: Policy

type_synonym ChainMap = "(string, Chain) gomap"

datatype risk_error =
    ErrNoChains
  | ErrDisabled
  | ErrChainNotFound string
  | ErrPolicyTarget string string
  | ErrRuleTarget string nat string
  | ErrRuleMatch string nat string

section \<open>Compilation (config.go)\<close>

definition convertCounter :: "CounterMatch option \<Rightarrow> CounterMatch option" where
  "convertCounter c =
     map_option (\<lambda>x. \<lparr>cm_Name = cm_Name x, cm_Op = cm_Op x, cm_Value = cm_Value x\<rparr>) c"

definition compileRule :: "golib \<Rightarrow> string \<Rightarrow> nat \<Rightarrow> RuleConfig \<Rightarrow> risk_error + Rule" where
  "compileRule L chain i rc =
     (if \<not> IsValidRuleTarget (rc_Target rc) then Inl (ErrRuleTarget chain i (rc_Target rc))
      else case CompileMatcher L ((rc_Match rc)\<lparr>mt_Counter := convertCounter (mt_Counter (rc_Match rc))\<rparr>) of
        Inl e \<Rightarrow> Inl (ErrRuleMatch chain i e)
      | Inr m \<Rightarrow> Inr \<lparr>rl_Name = rc_Name rc, rl_Match = m, rl_Target = rc_Target rc, rl_Chain = rc_Chain rc,
          rl_Status = rc_Status rc, rl_LimitRate = rc_LimitRate rc, rl_Reason = rc_Reason rc,
          rl_Mark = rc_Mark rc\<rparr>)"

fun compileRules :: "golib \<Rightarrow> string \<Rightarrow> nat \<Rightarrow> RuleConfig list \<Rightarrow> risk_error + Rule list" where
  "compileRules L chain i [] = Inr []"
| "compileRules L chain i (r # rs) =
     (case compileRule L chain i r of
        Inl e \<Rightarrow> Inl e
      | Inr x \<Rightarrow> (case compileRules L chain (Suc i) rs of Inl e \<Rightarrow> Inl e | Inr xs \<Rightarrow> Inr (x # xs)))"

definition compileChain :: "golib \<Rightarrow> string \<Rightarrow> ChainConfig \<Rightarrow> risk_error + Chain" where
  "compileChain L name cc =
     (if \<not> IsValidPolicyTarget (polc_Target (chc_Policy cc))
      then Inl (ErrPolicyTarget name (polc_Target (chc_Policy cc)))
      else case compileRules L name 0 (chc_Rules cc) of
        Inl e \<Rightarrow> Inl e
      | Inr rules \<Rightarrow> Inr \<lparr>ch_Name = name, ch_Rules = rules,
          ch_Policy = \<lparr>pol_Target = polc_Target (chc_Policy cc), pol_Status = polc_Status (chc_Policy cc),
            pol_LimitRate = polc_LimitRate (chc_Policy cc), pol_Reason = polc_Reason (chc_Policy cc)\<rparr>\<rparr>)"

fun compileChains :: "golib \<Rightarrow> (string, ChainConfig) gomap \<Rightarrow> risk_error + ChainMap" where
  "compileChains L [] = Inr []"
| "compileChains L ((name, cc) # rest) =
     (case compileChain L name cc of
        Inl e \<Rightarrow> Inl e
      | Inr c \<Rightarrow> (case compileChains L rest of Inl e \<Rightarrow> Inl e | Inr cs \<Rightarrow> Inr ((name, c) # cs)))"

definition NewEngine :: "ChainMap \<Rightarrow> risk_error + ChainMap" where
  "NewEngine cm = (if cm = [] then Inl ErrNoChains else Inr cm)"

definition FromConfig :: "golib \<Rightarrow> RiskControlConfig \<Rightarrow> risk_error + ChainMap" where
  "FromConfig L rc =
     (if \<not> rk_Enabled rc then Inl ErrDisabled
      else case compileChains L (rk_Chains rc) of Inl e \<Rightarrow> Inl e | Inr cm \<Rightarrow> NewEngine cm)"

section \<open>Evaluation (engine.go)\<close>

record evalState =
  es_trace :: "TraceStep list"
  es_marks :: "string list"
  es_visited :: "string \<Rightarrow> nat"

type_synonym outcome = "(risk_error + Decision) \<times> evalState"

definition lookupChain :: "golib \<Rightarrow> ChainMap \<Rightarrow> string \<Rightarrow> Chain option" where
  "lookupChain L e name =
     (case map_of e name of
        Some c \<Rightarrow> Some c
      | None \<Rightarrow> map_option snd (List.find (\<lambda>(k, v). EqualFold L k name) e))"

definition applyPolicy :: "string \<Rightarrow> Chain \<Rightarrow> evalState \<Rightarrow> Decision" where
  "applyPolicy chainName chain st =
     \<lparr>dc_Target = pol_Target (ch_Policy chain), dc_StatusCode = pol_Status (ch_Policy chain),
      dc_LimitRate = pol_LimitRate (ch_Policy chain), dc_Reason = pol_Reason (ch_Policy chain),
      dc_Chain = chainName, dc_RuleName = ''policy'', dc_Marks = es_marks st\<rparr>"

definition decisionFromRule :: "string \<Rightarrow> Rule \<Rightarrow> Decision" where
  "decisionFromRule chainName rule =
     \<lparr>dc_Target = rl_Target rule,
      dc_StatusCode = (if rl_Status rule = 0 then defaultStatusCodeFor (rl_Target rule) else rl_Status rule),
      dc_LimitRate = rl_LimitRate rule, dc_Reason = rl_Reason rule, dc_Chain = chainName,
      dc_RuleName = rl_Name rule, dc_Marks = []\<rparr>"

definition depth_exceeded :: "string \<Rightarrow> Decision" where
  "depth_exceeded name =
     \<lparr>dc_Target = TargetREJECT, dc_StatusCode = 500, dc_LimitRate = [], dc_Reason = ''chain_depth_exceeded'',
      dc_Chain = name, dc_RuleName = [], dc_Marks = []\<rparr>"

definition trace_step :: "string \<Rightarrow> Rule \<Rightarrow> bool \<Rightarrow> TraceStep" where
  "trace_step name rule matched =
     \<lparr>ts_Chain = name, ts_Rule = rl_Name rule, ts_Matched = matched,
      ts_Target = (if matched then rl_Target rule else []),
      ts_JumpTo = (if matched \<and> rl_Target rule = TargetJUMP then rl_Chain rule else [])\<rparr>"

definition log_step :: "TraceStep \<Rightarrow> evalState \<Rightarrow> evalState" where
  "log_step s st = st\<lparr>es_trace := es_trace st @ [s]\<rparr>"

text \<open>The loop over the rules of a chain; \<open>jump\<close> evaluates the chain a JUMP rule names.\<close>

fun evalRules ::
  "golib \<Rightarrow> RequestContext \<Rightarrow> (string \<Rightarrow> evalState \<Rightarrow> outcome option) \<Rightarrow> string \<Rightarrow> Chain \<Rightarrow> Rule list \<Rightarrow>
   evalState \<Rightarrow> outcome option" where
  "evalRules L ctx jump name chain [] st = Some (Inr (applyPolicy name chain st), st)"
| "evalRules L ctx jump name chain (rule # rules) st0 =
     (let matched = Match L ctx (rl_Match rule);
          st = log_step (trace_step name rule matched) st0 in
      if \<not> matched then evalRules L ctx jump name chain rules st
      else if isTerminal (rl_Target rule) then
        Some (Inr ((decisionFromRule name rule)\<lparr>dc_Marks := es_marks st\<rparr>), st)
      else if rl_Target rule = TargetJUMP then
        (case jump (rl_Chain rule) st of
           None \<Rightarrow> None
         | Some (Inl err, st') \<Rightarrow> Some (Inl err, st')
         | Some (Inr dec, st') \<Rightarrow>
             if isTerminal (dc_Target dec) then
               Some (Inr (if dc_Reason dec = [] then dec\<lparr>dc_Reason := rl_Reason rule\<rparr> else dec), st')
             else evalRules L ctx jump name chain rules st')
      else if rl_Target rule = TargetRETURN then Some (Inr (applyPolicy name chain st), st)
      else if rl_Target rule = TargetMARK then
        evalRules L ctx jump name chain rules
          (if rl_Mark rule \<noteq> [] then st\<lparr>es_marks := es_marks st @ [rl_Mark rule]\<rparr> else st)
      else evalRules L ctx jump name chain rules st)"

definition visit :: "string \<Rightarrow> evalState \<Rightarrow> evalState" where
  "visit u st = st\<lparr>es_visited := (es_visited st)(u := Suc (es_visited st u))\<rparr>"

fun evalChain ::
  "golib \<Rightarrow> ChainMap \<Rightarrow> RequestContext \<Rightarrow> nat \<Rightarrow> string \<Rightarrow> evalState \<Rightarrow> outcome option" where
  "evalChain L e ctx 0 name st = None"
| "evalChain L e ctx (Suc fuel) name st =
     (case lookupChain L e name of
        None \<Rightarrow> Some (Inl (ErrChainNotFound name), st)
      | Some chain \<Rightarrow>
          let st' = visit (ToUpper L name) st in
          if es_visited st' (ToUpper L name) > 8 then Some (Inr (depth_exceeded name), st')
          else evalRules L ctx (evalChain L e ctx fuel) name chain (ch_Rules chain) st')"

record Result =
  res_Decision :: Decision
  res_Trace :: "TraceStep list"

definition jump_names :: "ChainMap \<Rightarrow> string list" where
  "jump_names e = concat (map (\<lambda>(k, c). map rl_Chain (ch_Rules c)) e)"

definition enough_fuel :: "ChainMap \<Rightarrow> nat" where
  "enough_fuel e = Suc (9 * Suc (length (jump_names e)))"

definition init_state :: evalState where
  "init_state = \<lparr>es_trace = [], es_marks = [], es_visited = (\<lambda>_. 0)\<rparr>"

definition zero_context :: RequestContext where
  "zero_context = \<lparr>rq_Path = [], rq_Method = [], rq_Args = [], rq_IP = [], rq_UserAgent = [],
     rq_HasToken = False, rq_HasSign = False, rq_PowStatus = [], rq_PowMode = [], rq_IsProtected = False,
     rq_IsRangeRequest = False, rq_Counters = None\<rparr>"

definition with_resolver :: "RequestContext option \<Rightarrow> RequestContext" where
  "with_resolver ro =
     (let ctx = (case ro of None \<Rightarrow> zero_context | Some c \<Rightarrow> c) in
      if rq_Counters ctx = None then ctx\<lparr>rq_Counters := Some NoopCounterResolver\<rparr> else ctx)"

definition EvaluateWithEntry ::
  "golib \<Rightarrow> ChainMap \<Rightarrow> RequestContext option \<Rightarrow> string \<Rightarrow> (risk_error + Result) option" where
  "EvaluateWithEntry L e ro entry0 =
     (let entry = (if entry0 = [] then ''INPUT'' else entry0) in
      case evalChain L e (with_resolver ro) (enough_fuel e) entry init_state of
        None \<Rightarrow> None
      | Some (Inl err, st) \<Rightarrow> Some (Inl err)
      | Some (Inr d, st) \<Rightarrow> Some (Inr \<lparr>res_Decision = d\<lparr>dc_Marks := es_marks st\<rparr>, res_Trace = es_trace st\<rparr>))"

definition Evaluate :: "golib \<Rightarrow> ChainMap \<Rightarrow> RequestContext option \<Rightarrow> (risk_error + Result) option" where
  "Evaluate L e ro = EvaluateWithEntry L e ro ''INPUT''"

section \<open>Enough fuel\<close>

text \<open>The visits that are left before the guard stops a chain name of the set.\<close>

definition visits_left :: "string set \<Rightarrow> evalState \<Rightarrow> nat" where
  "visits_left S st = (\<Sum>u \<in> S. 9 - es_visited st u)"

definition later :: "evalState \<Rightarrow> evalState \<Rightarrow> bool" where
  "later st st' \<longleftrightarrow> (\<forall>u. es_visited st u \<le> es_visited st' u)"

lemma later_refl [simp]: "later st st"
  by (simp add: later_def)

lemma later_trans [trans]: "later a b \<Longrightarrow> later b c \<Longrightarrow> later a c"
  by (meson later_def le_trans)

lemma later_log [simp]: "later a (log_step s b) = later a b" "later (log_step s a) b = later a b"
  by (simp_all add: later_def log_step_def)

lemma later_marks [simp]: "later a (b\<lparr>es_marks := m\<rparr>) = later a b" "later (a\<lparr>es_marks := m\<rparr>) b = later a b"
  by (simp_all add: later_def)

lemma later_visit [simp]: "later st (visit u st)"
  by (simp add: later_def visit_def)

lemma visits_left_mono: "later st st' \<Longrightarrow> visits_left S st' \<le> visits_left S st"
  unfolding visits_left_def later_def by (intro sum_mono diff_le_mono2) simp

lemma visits_left_visit:
  assumes "finite S" and "u \<in> S" and "es_visited st u \<le> 8"
  shows "Suc (visits_left S (visit u st)) = visits_left S st"
proof -
  have "visits_left S (visit u st) = (9 - Suc (es_visited st u)) + (\<Sum>x \<in> S - {u}. 9 - es_visited st x)"
    unfolding visits_left_def using assms(1,2) by (simp add: sum.remove visit_def)
  moreover have "visits_left S st = (9 - es_visited st u) + (\<Sum>x \<in> S - {u}. 9 - es_visited st x)"
    unfolding visits_left_def using assms(1,2) by (simp add: sum.remove)
  ultimately show ?thesis using assms(3) by simp
qed

text \<open>A jump function that answers, and only moves the counts up, as long as visits are left.\<close>

definition jump_ok :: "golib \<Rightarrow> (string \<Rightarrow> evalState \<Rightarrow> outcome option) \<Rightarrow> string set \<Rightarrow> nat \<Rightarrow> bool" where
  "jump_ok L jump S n \<longleftrightarrow>
     (\<forall>name st. ToUpper L name \<in> S \<longrightarrow> visits_left S st < n \<longrightarrow>
        (\<exists>r st'. jump name st = Some (r, st') \<and> later st st'))"

lemma jump_okD:
  "jump_ok L jump S n \<Longrightarrow> ToUpper L name \<in> S \<Longrightarrow> visits_left S st < n \<Longrightarrow>
     \<exists>r st'. jump name st = Some (r, st') \<and> later st st'"
  by (simp add: jump_ok_def)

lemma evalRules_total:
  assumes "jump_ok L jump S n" and "\<forall>r \<in> set rules. ToUpper L (rl_Chain r) \<in> S" and "visits_left S st < n"
  shows "\<exists>r st'. evalRules L ctx jump name chain rules st = Some (r, st') \<and> later st st'"
  using assms(2,3)
proof (induction rules arbitrary: st)
  case Nil
  then show ?case by simp
next
  case (Cons rule rules)
  let ?m = "Match L ctx (rl_Match rule)"
  let ?st = "log_step (trace_step name rule ?m) st"
  have later: "later st ?st" by simp
  have rec: "\<exists>r st''. evalRules L ctx jump name chain rules st' = Some (r, st'') \<and> later st st''" if "later st st'" for st'
  proof -
    have "visits_left S st' < n" using visits_left_mono [OF that, of S] Cons.prems(2) by simp
    from Cons.IH [OF _ this] Cons.prems(1) obtain r st'' where
      "evalRules L ctx jump name chain rules st' = Some (r, st'')" "later st' st''" by auto
    with that show ?thesis using later_trans by blast
  qed
  have "visits_left S ?st < n" using visits_left_mono [OF later, of S] Cons.prems(2) by simp
  with jump_okD [OF assms(1), of "rl_Chain rule" ?st] Cons.prems(1)
  obtain r st1 where j: "jump (rl_Chain rule) ?st = Some (r, st1)" and st1: "later ?st st1" by auto
  have st1': "later st st1" using later st1 by (rule later_trans)
  show ?case
  proof (cases ?m)
    case False
    with rec [OF later] show ?thesis by (simp add: Let_def)
  next
    case True
    with rec [OF later] rec [OF st1'] rec [of "?st\<lparr>es_marks := es_marks ?st @ [rl_Mark rule]\<rparr>"] j st1'
    show ?thesis by (cases r) (simp_all add: Let_def)
  qed
qed

lemma lookupChain_in: "lookupChain L e name = Some c \<Longrightarrow> \<exists>k. (k, c) \<in> set e"
  unfolding lookupChain_def
  by (auto split: option.splits dest!: map_of_SomeD find_Some_iff [THEN iffD1] nth_mem)

lemma jump_names_in: "(k, c) \<in> set e \<Longrightarrow> r \<in> set (ch_Rules c) \<Longrightarrow> rl_Chain r \<in> set (jump_names e)"
  by (force simp: jump_names_def)

lemma evalChain_total:
  assumes "finite S" and "ToUpper L ` set (jump_names e) \<subseteq> S"
  shows "jump_ok L (evalChain L e ctx n) S n"
proof (induction n)
  case 0
  then show ?case by (simp add: jump_ok_def)
next
  case (Suc n)
  show ?case unfolding jump_ok_def
  proof (intro allI impI)
    fix name st
    assume S: "ToUpper L name \<in> S" and left: "visits_left S st < Suc n"
    let ?st = "visit (ToUpper L name) st"
    show "\<exists>r st'. evalChain L e ctx (Suc n) name st = Some (r, st') \<and> later st st'"
    proof (cases "lookupChain L e name")
      case (Some chain)
      show ?thesis
      proof (cases "es_visited ?st (ToUpper L name) > 8")
        case False
        then have "es_visited st (ToUpper L name) \<le> 8" by (simp add: visit_def)
        from visits_left_visit [OF assms(1) S this] left have "visits_left S ?st < n" by simp
        moreover obtain k where "(k, chain) \<in> set e" using lookupChain_in [OF Some] by blast
        then have "\<forall>r \<in> set (ch_Rules chain). ToUpper L (rl_Chain r) \<in> S"
          using jump_names_in assms(2) by blast
        ultimately obtain r st' where
          "evalRules L ctx (evalChain L e ctx n) name chain (ch_Rules chain) ?st = Some (r, st')" "later ?st st'"
          using evalRules_total [OF Suc] by blast
        moreover from this(2) have "later st st'" using later_trans [OF later_visit] by blast
        ultimately show ?thesis using Some False by simp
      qed (use Some in simp)
    qed simp
  qed
qed

lemma enough_fuel_works:
  "\<exists>r st. evalChain L e ctx (enough_fuel e) name init_state = Some (r, st)"
proof -
  define S where "S = insert (ToUpper L name) (ToUpper L ` set (jump_names e))"
  have fin: "finite S" and sub: "ToUpper L ` set (jump_names e) \<subseteq> S" by (auto simp: S_def)
  have "card S \<le> Suc (length (jump_names e))"
  proof -
    have "card S \<le> Suc (card (ToUpper L ` set (jump_names e)))"
      unfolding S_def by (simp add: card_insert_if)
    also have "card (ToUpper L ` set (jump_names e)) \<le> card (set (jump_names e))"
      by (rule card_image_le) simp
    also have "\<dots> \<le> length (jump_names e)" by (rule card_length)
    finally show ?thesis by simp
  qed
  then have "visits_left S init_state < enough_fuel e"
    by (simp add: visits_left_def init_state_def enough_fuel_def)
  with evalChain_total [OF fin sub, of ctx "enough_fuel e"] show ?thesis
    unfolding jump_ok_def S_def by blast
qed

section \<open>What compilation guarantees\<close>

definition compiled :: "ChainMap \<Rightarrow> bool" where
  "compiled e \<longleftrightarrow> (\<forall>(k, c) \<in> set e. isTerminal (pol_Target (ch_Policy c)) \<and>
     (\<forall>r \<in> set (ch_Rules c). IsValidRuleTarget (rl_Target r)))"

lemma convertCounter_id [simp]: "convertCounter c = c"
  by (cases c) (simp_all add: convertCounter_def)

definition rule_compiles :: "golib \<Rightarrow> RuleConfig \<Rightarrow> bool" where
  "rule_compiles L rc \<longleftrightarrow> IsValidRuleTarget (rc_Target rc) \<and> match_compiles L (rc_Match rc)"

definition chain_compiles :: "golib \<Rightarrow> ChainConfig \<Rightarrow> bool" where
  "chain_compiles L cc \<longleftrightarrow> IsValidPolicyTarget (polc_Target (chc_Policy cc)) \<and>
     (\<forall>rc \<in> set (chc_Rules cc). rule_compiles L rc)"

text \<open>The fields a compiled rule shares with its configuration.\<close>

definition rule_of :: "golib \<Rightarrow> RuleConfig \<Rightarrow> Rule \<Rightarrow> bool" where
  "rule_of L rc r \<longleftrightarrow> rl_Target r = rc_Target rc \<and> rl_Chain r = rc_Chain rc \<and> rl_Name r = rc_Name rc \<and>
     rl_Reason r = rc_Reason rc \<and> CompileMatcher L (rc_Match rc) = Inr (rl_Match r)"

lemma compileRule_cases:
  "case compileRule L n i rc of
     Inl e \<Rightarrow> \<not> rule_compiles L rc
   | Inr r \<Rightarrow> rule_compiles L rc \<and> rule_of L rc r"
proof -
  have "(\<exists>e. CompileMatcher L (rc_Match rc) = Inl e) \<longleftrightarrow> \<not> match_compiles L (rc_Match rc)"
    by (rule CompileMatcher_Inl_iff)
  then show ?thesis
    by (auto simp: compileRule_def rule_compiles_def rule_of_def split: sum.split)
qed

lemma compileRules_cases:
  "case compileRules L n i rcs of
     Inl e \<Rightarrow> \<exists>rc \<in> set rcs. \<not> rule_compiles L rc
   | Inr rs \<Rightarrow> (\<forall>rc \<in> set rcs. rule_compiles L rc) \<and> list_all2 (rule_of L) rcs rs"
proof (induction rcs arbitrary: i)
  case (Cons rc rcs)
  show ?case using compileRule_cases [where L = L and n = n and i = i and rc = rc] Cons.IH [of "Suc i"] by (auto split: sum.splits)
qed simp

definition chain_of :: "golib \<Rightarrow> ChainConfig \<Rightarrow> Chain \<Rightarrow> bool" where
  "chain_of L cc c \<longleftrightarrow> pol_Target (ch_Policy c) = polc_Target (chc_Policy cc) \<and>
     list_all2 (rule_of L) (chc_Rules cc) (ch_Rules c)"

lemma compileChain_cases:
  "case compileChain L n cc of
     Inl e \<Rightarrow> \<not> chain_compiles L cc
   | Inr c \<Rightarrow> chain_compiles L cc \<and> chain_of L cc c"
  using compileRules_cases [where L = L and n = n and i = 0 and rcs = "chc_Rules cc"]
  by (auto simp: compileChain_def chain_compiles_def chain_of_def split: sum.splits)

lemma compileChains_cases:
  "case compileChains L m of
     Inl e \<Rightarrow> \<exists>(k, cc) \<in> set m. \<not> chain_compiles L cc
   | Inr cm \<Rightarrow> (\<forall>(k, cc) \<in> set m. chain_compiles L cc) \<and>
       list_all2 (\<lambda>(k, cc) (k', c). k = k' \<and> chain_of L cc c) m cm"
proof (induction m)
  case (Cons x m)
  obtain k cc where x: "x = (k, cc)" by (cases x)
  show ?case using compileChain_cases [where L = L and n = k and cc = cc] Cons.IH x by (auto split: sum.splits)
qed simp

lemma FromConfig_compiled:
  assumes "FromConfig L rc = Inr e"
  shows "list_all2 (\<lambda>(k, cc) (k', c). k = k' \<and> chain_of L cc c) (rk_Chains rc) e" and "compiled e" and "e \<noteq> []"
proof -
  from assms have c: "compileChains L (rk_Chains rc) = Inr e" and "e \<noteq> []"
    by (auto simp: FromConfig_def NewEngine_def split: if_splits sum.splits)
  then show "e \<noteq> []" and a2: "list_all2 (\<lambda>(k, cc) (k', c). k = k' \<and> chain_of L cc c) (rk_Chains rc) e"
    using compileChains_cases [where L = L and m = "rk_Chains rc"] by simp_all
  have all: "\<forall>(k, cc) \<in> set (rk_Chains rc). chain_compiles L cc"
    using c compileChains_cases [where L = L and m = "rk_Chains rc"] by simp
  show "compiled e" unfolding compiled_def
  proof clarify
    fix k c assume "(k, c) \<in> set e"
    from list_all2_right [OF a2 this] obtain cc where cc: "(k, cc) \<in> set (rk_Chains rc)" and of: "chain_of L cc c"
      by auto
    have "IsValidRuleTarget (rl_Target r)" if "r \<in> set (ch_Rules c)" for r
    proof -
      from of that obtain rc' where "rc' \<in> set (chc_Rules cc)" "rule_of L rc' r"
        unfolding chain_of_def by (blast dest: list_all2_right)
      with all cc show ?thesis by (auto simp: chain_compiles_def rule_compiles_def rule_of_def)
    qed
    moreover have "isTerminal (pol_Target (ch_Policy c))"
      using all cc of by (auto simp: chain_compiles_def chain_of_def IsValidPolicyTarget_def isTerminal_def)
    ultimately show "isTerminal (pol_Target (ch_Policy c)) \<and> (\<forall>r \<in> set (ch_Rules c). IsValidRuleTarget (rl_Target r))"
      by blast
  qed
qed

section \<open>The verdict without fuel and guard\<close>

text \<open>
  A rule decides when it matches and its target ends the walk of the chain: a terminal target,
  JUMP or RETURN. The rules before it leave their steps in the trace and their marks.
\<close>

definition decides :: "golib \<Rightarrow> RequestContext \<Rightarrow> Rule \<Rightarrow> bool" where
  "decides L ctx r \<longleftrightarrow> Match L ctx (rl_Match r) \<and>
     (isTerminal (rl_Target r) \<or> rl_Target r = TargetJUMP \<or> rl_Target r = TargetRETURN)"

definition steps :: "golib \<Rightarrow> RequestContext \<Rightarrow> string \<Rightarrow> Rule list \<Rightarrow> TraceStep list" where
  "steps L ctx name rs = map (\<lambda>r. trace_step name r (Match L ctx (rl_Match r))) rs"

definition marks_of :: "golib \<Rightarrow> RequestContext \<Rightarrow> Rule list \<Rightarrow> string list" where
  "marks_of L ctx rs =
     map rl_Mark (filter (\<lambda>r. Match L ctx (rl_Match r) \<and> rl_Target r = TargetMARK \<and> rl_Mark r \<noteq> []) rs)"

definition default_reason :: "string \<Rightarrow> Decision \<Rightarrow> Decision" where
  "default_reason reason d = (if dc_Reason d = [] then d\<lparr>dc_Reason := reason\<rparr> else d)"

definition undecided :: "golib \<Rightarrow> RequestContext \<Rightarrow> Rule list \<Rightarrow> bool" where
  "undecided L ctx rs \<longleftrightarrow> (\<forall>r \<in> set rs. \<not> decides L ctx r)"

text \<open>
  The verdict on a chain: the names of the chains entered, the trace, the marks and the
  decision (with the marks left out of it).
\<close>

inductive verdict ::
  "golib \<Rightarrow> ChainMap \<Rightarrow> RequestContext \<Rightarrow> string \<Rightarrow> string list \<Rightarrow> TraceStep list \<Rightarrow> string list \<Rightarrow> Decision \<Rightarrow> bool"
  for L e ctx where
  by_policy:
    "lookupChain L e name = Some c \<Longrightarrow> undecided L ctx (ch_Rules c) \<Longrightarrow>
     verdict L e ctx name [name] (steps L ctx name (ch_Rules c)) (marks_of L ctx (ch_Rules c))
       (applyPolicy name c init_state)"
| by_rule:
    "lookupChain L e name = Some c \<Longrightarrow> ch_Rules c = pre @ r # post \<Longrightarrow> undecided L ctx pre \<Longrightarrow>
     decides L ctx r \<Longrightarrow> isTerminal (rl_Target r) \<Longrightarrow>
     verdict L e ctx name [name] (steps L ctx name (pre @ [r])) (marks_of L ctx pre) (decisionFromRule name r)"
| by_return:
    "lookupChain L e name = Some c \<Longrightarrow> ch_Rules c = pre @ r # post \<Longrightarrow> undecided L ctx pre \<Longrightarrow>
     decides L ctx r \<Longrightarrow> rl_Target r = TargetRETURN \<Longrightarrow>
     verdict L e ctx name [name] (steps L ctx name (pre @ [r])) (marks_of L ctx pre) (applyPolicy name c init_state)"
| by_jump:
    "lookupChain L e name = Some c \<Longrightarrow> ch_Rules c = pre @ r # post \<Longrightarrow> undecided L ctx pre \<Longrightarrow>
     decides L ctx r \<Longrightarrow> rl_Target r = TargetJUMP \<Longrightarrow> verdict L e ctx (rl_Chain r) ns tr ms d \<Longrightarrow>
     verdict L e ctx name (name # ns) (steps L ctx name (pre @ [r]) @ tr) (marks_of L ctx pre @ ms)
       (default_reason (rl_Reason r) d)"

lemma target_distinct [simp]:
  "\<not> isTerminal TargetJUMP" "\<not> isTerminal TargetRETURN" "\<not> isTerminal TargetMARK" "\<not> isTerminal TargetLOG"
  "TargetRETURN \<noteq> TargetJUMP" "TargetJUMP \<noteq> TargetRETURN" "TargetMARK \<noteq> TargetJUMP" "TargetMARK \<noteq> TargetRETURN"
  "TargetJUMP \<noteq> TargetMARK" "TargetRETURN \<noteq> TargetMARK" "isTerminal TargetREJECT"
  by (simp_all add: isTerminal_def target_defs)

lemma policy_in:
  assumes "compiled e" and "lookupChain L e name = Some c"
  shows "isTerminal (pol_Target (ch_Policy c))"
  using assms lookupChain_in [OF assms(2)] by (auto simp: compiled_def)

lemma verdict_terminal:
  assumes "verdict L e ctx name ns tr ms d" and "compiled e"
  shows "isTerminal (dc_Target d) \<and> dc_Marks d = []"
  using assms(1)
  by induction (auto simp: applyPolicy_def init_state_def decisionFromRule_def default_reason_def policy_in [OF assms(2)])

definition advance :: "golib \<Rightarrow> RequestContext \<Rightarrow> string \<Rightarrow> Rule list \<Rightarrow> evalState \<Rightarrow> evalState" where
  "advance L ctx name rs st =
     st\<lparr>es_trace := es_trace st @ steps L ctx name rs, es_marks := es_marks st @ marks_of L ctx rs\<rparr>"

lemma advance_Nil [simp]: "advance L ctx name [] st = st"
  by (simp add: advance_def steps_def marks_of_def)

lemma advance_fields [simp]:
  "es_visited (advance L ctx name rs st) = es_visited st"
  "es_marks (advance L ctx name rs st) = es_marks st @ marks_of L ctx rs"
  "es_trace (advance L ctx name rs st) = es_trace st @ steps L ctx name rs"
  by (simp_all add: advance_def)

lemma evalRules_undecided:
  assumes "undecided L ctx pre"
  shows "evalRules L ctx jump name chain (pre @ rest) st =
    evalRules L ctx jump name chain rest (advance L ctx name pre st)"
  using assms
proof (induction pre arbitrary: st)
  case (Cons r pre)
  have nd: "\<not> decides L ctx r" and "undecided L ctx pre" using Cons.prems by (auto simp: undecided_def)
  note IH = Cons.IH [OF this(2)]
  let ?st = "(if Match L ctx (rl_Match r) \<and> rl_Target r = TargetMARK \<and> rl_Mark r \<noteq> []
     then (log_step (trace_step name r (Match L ctx (rl_Match r))) st)
       \<lparr>es_marks := es_marks st @ [rl_Mark r]\<rparr>
     else log_step (trace_step name r (Match L ctx (rl_Match r))) st)"
  have "evalRules L ctx jump name chain ((r # pre) @ rest) st = evalRules L ctx jump name chain (pre @ rest) ?st"
    using nd by (cases "Match L ctx (rl_Match r)") (auto simp: decides_def Let_def log_step_def)
  moreover have "advance L ctx name pre ?st = advance L ctx name (r # pre) st"
    by (simp add: advance_def steps_def marks_of_def log_step_def)
  ultimately show ?case using IH by simp
qed simp

lemma evalChain_enter:
  assumes "lookupChain L e name = Some c" and "es_visited st (ToUpper L name) < 8"
  shows "evalChain L e ctx (Suc n) name st =
    evalRules L ctx (evalChain L e ctx n) name c (ch_Rules c) (visit (ToUpper L name) st)"
  using assms by (simp add: visit_def)

lemma visit_fields [simp]: "es_trace (visit u st) = es_trace st" "es_marks (visit u st) = es_marks st"
  by (simp_all add: visit_def)

lemma log_step_fields [simp]:
  "es_trace (log_step s st) = es_trace st @ [s]" "es_marks (log_step s st) = es_marks st"
  "es_visited (log_step s st) = es_visited st"
  by (simp_all add: log_step_def)

text \<open>An answer of \<^verbatim>\<open>evalChain\<close> that agrees with a verdict.\<close>

definition answers :: "outcome option \<Rightarrow> evalState \<Rightarrow> TraceStep list \<Rightarrow> string list \<Rightarrow> Decision \<Rightarrow> bool" where
  "answers out st tr ms d \<longleftrightarrow>
     (\<exists>d' st'. out = Some (Inr d', st') \<and> d'\<lparr>dc_Marks := []\<rparr> = d \<and> es_trace st' = es_trace st @ tr \<and>
        es_marks st' = es_marks st @ ms)"

lemma steps_append: "steps L ctx name (pre @ [r]) = steps L ctx name pre @ [trace_step name r (Match L ctx (rl_Match r))]"
  by (simp add: steps_def)

lemma applyPolicy_marks: "(applyPolicy name c st)\<lparr>dc_Marks := []\<rparr> = applyPolicy name c init_state"
  by (simp add: applyPolicy_def init_state_def)

lemma evalChain_verdict:
  assumes "verdict L e ctx name ns tr ms d" and "compiled e"
    and "\<forall>u. es_visited st u + count_list (map (ToUpper L) ns) u \<le> 8"
  shows "answers (evalChain L e ctx (length ns) name st) st tr ms d"
  using assms(1,3)
proof (induction arbitrary: st)
  case (by_policy name c)
  have "es_visited st (ToUpper L name) < 8"
    using spec [OF by_policy.prems, of "ToUpper L name"] by simp
  note E = evalChain_enter [OF by_policy.hyps(1) this, of ctx 0]
  show ?case
    using E evalRules_undecided [OF by_policy.hyps(2), of _ name c "[]"]
    by (simp add: answers_def applyPolicy_marks)
next
  case (by_rule name c pre r post)
  have "es_visited st (ToUpper L name) < 8"
    using spec [OF by_rule.prems, of "ToUpper L name"] by simp
  note E = evalChain_enter [OF by_rule.hyps(1) this, of ctx 0]
  show ?case
    using E by_rule.hyps(2,4,5) evalRules_undecided [OF by_rule.hyps(3), of _ name c "r # post"]
    by (simp add: answers_def steps_append decides_def Let_def decisionFromRule_def)
next
  case (by_return name c pre r post)
  have "es_visited st (ToUpper L name) < 8"
    using spec [OF by_return.prems, of "ToUpper L name"] by simp
  note E = evalChain_enter [OF by_return.hyps(1) this, of ctx 0]
  show ?case
    using E by_return.hyps(2,4,5) evalRules_undecided [OF by_return.hyps(3), of _ name c "r # post"]
    by (simp add: answers_def steps_append decides_def Let_def applyPolicy_marks)
next
  case (by_jump name c pre r post ns tr ms d)
  let ?u = "ToUpper L name"
  have "es_visited st ?u < 8" using spec [OF by_jump.prems, of ?u] by simp
  note E = evalChain_enter [OF by_jump.hyps(1) this, of ctx "length ns"]
  let ?st = "log_step (trace_step name r True) (advance L ctx name pre (visit ?u st))"
  have "\<forall>u. es_visited ?st u + count_list (map (ToUpper L) ns) u \<le> 8"
  proof
    fix u show "es_visited ?st u + count_list (map (ToUpper L) ns) u \<le> 8"
      using spec [OF by_jump.prems, of u] by (auto simp: visit_def split: if_splits)
  qed
  from by_jump.IH [OF this] obtain d' st' where
    j: "evalChain L e ctx (length ns) (rl_Chain r) ?st = Some (Inr d', st')" and d': "d'\<lparr>dc_Marks := []\<rparr> = d"
    and tr: "es_trace st' = es_trace ?st @ tr" "es_marks st' = es_marks ?st @ ms" by (auto simp: answers_def)
  have final: "isTerminal (dc_Target d')" and rs: "dc_Reason d' = dc_Reason d"
    using verdict_terminal [OF by_jump.hyps(6) assms(2)] d' by auto
  show ?case
    using E j final tr rs d' by_jump.hyps(2,4,5) evalRules_undecided [OF by_jump.hyps(3), of _ name c "r # post"]
    by (auto simp: answers_def steps_append decides_def Let_def default_reason_def)
qed

subsection \<open>More fuel changes nothing\<close>

lemma evalRules_mono:
  assumes "\<And>x s r. jump x s = Some r \<Longrightarrow> jump' x s = Some r"
  shows "evalRules L ctx jump name chain rules st = Some r \<Longrightarrow> evalRules L ctx jump' name chain rules st = Some r"
proof (induction rules arbitrary: st)
  case (Cons rule rules)
  let ?st = "log_step (trace_step name rule (Match L ctx (rl_Match rule))) st"
  show ?case
  proof (cases "jump (rl_Chain rule) ?st")
    case None
    with Cons show ?thesis by (auto simp: Let_def split: if_splits)
  next
    case (Some out)
    with assms have "jump' (rl_Chain rule) ?st = Some out" by blast
    moreover obtain x s where "out = (x, s)" by (cases out)
    ultimately show ?thesis using Some Cons by (cases x) (auto simp: Let_def split: if_splits)
  qed
qed simp

lemma evalChain_mono:
  "evalChain L e ctx n name st = Some r \<Longrightarrow> n \<le> m \<Longrightarrow> evalChain L e ctx m name st = Some r"
proof (induction n arbitrary: m name st r)
  case (Suc n)
  then obtain m' where m: "m = Suc m'" and "n \<le> m'" by (cases m) auto
  then have up: "evalRules L ctx (evalChain L e ctx m') name c rules s = Some x"
    if "evalRules L ctx (evalChain L e ctx n) name c rules s = Some x" for c rules s x
    using evalRules_mono [OF _ that, of "evalChain L e ctx m'"] Suc.IH by blast
  show ?case
  proof (cases "lookupChain L e name")
    case None
    then show ?thesis using Suc.prems m by simp
  next
    case (Some c)
    show ?thesis
      using Suc.prems(1) m Some up [of c "ch_Rules c" "visit (ToUpper L name) st" r]
      by (cases "es_visited (visit (ToUpper L name) st) (ToUpper L name) > 8") simp_all
  qed
qed simp

lemma evalChain_enough:
  assumes "evalChain L e ctx n name init_state = Some r"
  shows "evalChain L e ctx (enough_fuel e) name init_state = Some r"
proof -
  obtain x st where "evalChain L e ctx (enough_fuel e) name init_state = Some (x, st)"
    using enough_fuel_works by blast
  from evalChain_mono [OF this] evalChain_mono [OF assms] this show ?thesis
    by (metis max.cobounded1 max.cobounded2)
qed

subsection \<open>When jumps cannot go round\<close>

text \<open>A rank of the chain names of a set \<open>N\<close> that every JUMP lowers without leaving the set.\<close>

definition ranked :: "golib \<Rightarrow> ChainMap \<Rightarrow> string set \<Rightarrow> (string \<Rightarrow> nat) \<Rightarrow> bool" where
  "ranked L e N rank \<longleftrightarrow>
     (\<forall>name \<in> N. \<forall>c r. lookupChain L e name = Some c \<longrightarrow> r \<in> set (ch_Rules c) \<longrightarrow> rl_Target r = TargetJUMP \<longrightarrow>
        rl_Chain r \<in> N \<and> lookupChain L e (rl_Chain r) \<noteq> None \<and>
        rank (ToUpper L (rl_Chain r)) < rank (ToUpper L name))"

lemma undecided_split:
  "undecided L ctx rs \<or> (\<exists>pre r post. rs = pre @ r # post \<and> undecided L ctx pre \<and> decides L ctx r)"
  unfolding undecided_def using split_list_first_prop [of rs "decides L ctx"] by blast

lemma verdict_exists:
  assumes "ranked L e N rank" and "name \<in> N" and "lookupChain L e name \<noteq> None"
  shows "\<exists>ns tr ms d. verdict L e ctx name ns tr ms d \<and> distinct (map (ToUpper L) ns) \<and>
    (\<forall>n \<in> set ns. rank (ToUpper L n) \<le> rank (ToUpper L name))"
  using assms(2,3)
proof (induction "rank (ToUpper L name)" arbitrary: name rule: less_induct)
  case less
  from less.prems(2) obtain c where c: "lookupChain L e name = Some c" by blast
  from undecided_split [of L ctx "ch_Rules c"] consider
    "undecided L ctx (ch_Rules c)" | pre r post where "ch_Rules c = pre @ r # post" "undecided L ctx pre" "decides L ctx r"
    by blast
  then show ?case
  proof cases
    case 1
    from verdict.by_policy [OF c 1] have "\<exists>tr ms d. verdict L e ctx name [name] tr ms d" by blast
    then show ?thesis by fastforce
  next
    case 2
    then consider "isTerminal (rl_Target r)" | "rl_Target r = TargetRETURN" | "rl_Target r = TargetJUMP"
      by (auto simp: decides_def)
    then show ?thesis
    proof cases
      case 1
      from verdict.by_rule [OF c 2 1] have "\<exists>tr ms d. verdict L e ctx name [name] tr ms d" by blast
      then show ?thesis by fastforce
    next
      case b: 2
      from verdict.by_return [OF c 2 b] have "\<exists>tr ms d. verdict L e ctx name [name] tr ms d" by blast
      then show ?thesis by fastforce
    next
      case 3
      have "r \<in> set (ch_Rules c)" using 2 by simp
      with assms(1) less.prems(1) c 3 have N: "rl_Chain r \<in> N" and ex: "lookupChain L e (rl_Chain r) \<noteq> None"
        and lt: "rank (ToUpper L (rl_Chain r)) < rank (ToUpper L name)"
        unfolding ranked_def by blast+
      from less.hyps [OF lt N ex] obtain ns tr ms d where v: "verdict L e ctx (rl_Chain r) ns tr ms d"
        and dis: "distinct (map (ToUpper L) ns)"
        and rk: "\<forall>n \<in> set ns. rank (ToUpper L n) \<le> rank (ToUpper L (rl_Chain r))" by blast
      from rk lt have "ToUpper L name \<notin> set (map (ToUpper L) ns)" and "\<forall>n \<in> set ns. rank (ToUpper L n) \<le> rank (ToUpper L name)"
        by fastforce+
      with verdict.by_jump [OF c 2 3 v] dis show ?thesis by (intro exI [of _ "name # ns"]) auto
    qed
  qed
qed

subsection \<open>Decisions of a compiled engine are terminal\<close>

definition ends :: "outcome option \<Rightarrow> bool" where
  "ends out \<longleftrightarrow> (\<forall>d st. out = Some (Inr d, st) \<longrightarrow> isTerminal (dc_Target d))"

lemma evalRules_ends:
  assumes "\<And>x s. ends (jump x s)" and "isTerminal (pol_Target (ch_Policy chain))"
  shows "ends (evalRules L ctx jump name chain rules st)"
proof (induction rules arbitrary: st)
  case Nil
  then show ?case using assms(2) by (simp add: ends_def applyPolicy_def)
next
  case (Cons rule rules)
  let ?st = "log_step (trace_step name rule (Match L ctx (rl_Match rule))) st"
  have j: "isTerminal (dc_Target d)" if "jump (rl_Chain rule) ?st = Some (Inr d, st')" for d st'
    using assms(1) that unfolding ends_def by blast
  note IH = Cons.IH [unfolded ends_def, rule_format]
  show ?case unfolding ends_def
    by (auto simp: Let_def decisionFromRule_def applyPolicy_def assms(2) dest: IH j
        split: if_splits option.splits sum.splits)
qed

lemma evalChain_ends:
  assumes "compiled e"
  shows "ends (evalChain L e ctx n name st)"
proof (induction n arbitrary: name st)
  case (Suc n)
  show ?case
  proof (cases "lookupChain L e name")
    case (Some c)
    with evalRules_ends [OF Suc policy_in [OF assms Some]] show ?thesis
      by (simp add: Let_def ends_def depth_exceeded_def)
  qed (simp add: ends_def)
qed (simp add: ends_def)

lemma verdict_evaluates:
  assumes "FromConfig L rc = Inr e" and "verdict L e (with_resolver ro) entry ns tr ms d" and "entry \<noteq> []"
    and "\<forall>u. count_list (map (ToUpper L) ns) u \<le> 8"
  shows "EvaluateWithEntry L e ro entry =
    Some (Inr \<lparr>res_Decision = d\<lparr>dc_Marks := ms\<rparr>, res_Trace = tr\<rparr>)"
proof -
  have "answers (evalChain L e (with_resolver ro) (length ns) entry init_state) init_state tr ms d"
    using assms(2,4) FromConfig_compiled(2) [OF assms(1)]
    by (intro evalChain_verdict) (simp_all add: init_state_def)
  then obtain d' st' where run: "evalChain L e (with_resolver ro) (length ns) entry init_state = Some (Inr d', st')"
    and d: "d'\<lparr>dc_Marks := []\<rparr> = d" and "es_trace st' = tr" "es_marks st' = ms"
    by (auto simp: answers_def init_state_def)
  moreover have "d'\<lparr>dc_Marks := ms\<rparr> = d\<lparr>dc_Marks := ms\<rparr>" using d by auto
  ultimately show ?thesis
    using evalChain_enough [OF run] assms(3) by (simp add: EvaluateWithEntry_def)
qed

section \<open>Properties\<close>

text \<open>
  C20: Evaluation always ends. For every set of chains, compiled or not, cyclic or not, every
  request and every entry chain, the walk finishes: the fuel of nine visits for each name that
  can be jumped to is never used up, thanks to the guard on repeated visits.
\<close>

theorem Evaluate_terminates: "EvaluateWithEntry L e ro entry \<noteq> None"
proof -
  define name where "name = (if entry = [] then ''INPUT'' else entry)"
  obtain r st where "evalChain L e (with_resolver ro) (enough_fuel e) name init_state = Some (r, st)"
    using enough_fuel_works by blast
  then show ?thesis by (cases r) (simp_all add: EvaluateWithEntry_def name_def Let_def)
qed

text \<open>
  C22: An engine built from a configuration always decides. When evaluation of any entry chain
  returns a decision, its target is one of ACCEPT, REJECT, RATE\_LIMIT, TOO\_MANY and REQUIRE\_POW;
  it never falls off a chain with a JUMP, RETURN, LOG or MARK.
\<close>

theorem decision_is_terminal:
  assumes "FromConfig L rc = Inr e" and "EvaluateWithEntry L e ro entry = Some (Inr r)"
  shows "isTerminal (dc_Target (res_Decision r))"
proof -
  have c: "compiled e" using FromConfig_compiled(2) [OF assms(1)] .
  from assms(2) obtain d st where
    "evalChain L e (with_resolver ro) (enough_fuel e) (if entry = [] then ''INPUT'' else entry) init_state =
       Some (Inr d, st)" and "dc_Target (res_Decision r) = dc_Target d"
    by (auto simp: EvaluateWithEntry_def Let_def split: option.splits sum.splits)
  with evalChain_ends [OF c] show ?thesis unfolding ends_def by metis
qed

definition demo_rule :: "string \<Rightarrow> string \<Rightarrow> string \<Rightarrow> RuleConfig" where
  "demo_rule name target arg = \<lparr>rc_Name = name,
     rc_Match = \<lparr>mt_PathRegex = [], mt_PathPrefix = [], mt_ExtensionIn = [], mt_MethodIn = [], mt_IPCIDRIn = [],
       mt_UserAgentRegex = [], mt_PowStatus = ''missing'', mt_PowStatusIn = [], mt_PowMode = [],
       mt_IsProtected = None, mt_IsRangeRequest = None, mt_Counter = None, mt_RiskScoreGte = None\<rparr>,
     rc_Target = target, rc_Chain = arg, rc_Status = 0, rc_LimitRate = [], rc_Reason = name, rc_Mark = arg\<rparr>"

definition demo_risk :: RiskControlConfig where
  "demo_risk = \<lparr>rk_Enabled = True, rk_Pending = \<lparr>pnd_Enabled = None, pnd_MaxPerIP = 8, pnd_BlockTTL = Hour\<rparr>,
     rk_Counters = [],
     rk_Chains =
       [(''input'', \<lparr>chc_Policy = \<lparr>polc_Target = ''ACCEPT'', polc_Status = 0, polc_LimitRate = [], polc_Reason = ''open''\<rparr>,
          chc_Rules = [demo_rule ''note'' ''MARK'' ''m1'', demo_rule ''check'' ''JUMP'' ''RISK'']\<rparr>),
        (''risk'', \<lparr>chc_Policy = \<lparr>polc_Target = ''ACCEPT'', polc_Status = 0, polc_LimitRate = [], polc_Reason = ''open''\<rparr>,
          chc_Rules = [demo_rule ''stop'' ''REJECT'' []]\<rparr>)]\<rparr>"

definition demo_crule :: "string \<Rightarrow> string \<Rightarrow> string \<Rightarrow> Rule" where
  "demo_crule name target arg = \<lparr>rl_Name = name, rl_Match = powStatusMatcher ''missing'', rl_Target = target,
     rl_Chain = arg, rl_Status = 0, rl_LimitRate = [], rl_Reason = name, rl_Mark = arg\<rparr>"

definition demo_chain :: "string \<Rightarrow> Rule list \<Rightarrow> Chain" where
  "demo_chain name rules = \<lparr>ch_Name = name, ch_Rules = rules, ch_Policy = \<lparr>pol_Target = ''ACCEPT'', pol_Status = 0,
     pol_LimitRate = [], pol_Reason = ''open''\<rparr>\<rparr>"

definition demo_engine :: ChainMap where
  "demo_engine =
     [(''input'', demo_chain ''input'' [demo_crule ''note'' ''MARK'' ''m1'', demo_crule ''check'' ''JUMP'' ''RISK'']),
      (''risk'', demo_chain ''risk'' [demo_crule ''stop'' ''REJECT'' []])]"

lemma demo_FromConfig: "FromConfig demo_lib demo_risk = Inr demo_engine"
  by (simp add: FromConfig_def demo_risk_def demo_rule_def compileChain_def compileRule_def CompileMatcher_def
      part_path_regex_def part_ip_cidr_def part_user_agent_def parts_path_def parts_pow_def NewEngine_def
      IsValidPolicyTarget_def IsValidRuleTarget_def target_defs demo_engine_def demo_chain_def demo_crule_def)

lemma demo_evaluates:
  "case EvaluateWithEntry demo_lib demo_engine (Some demo_request) ''INPUT'' of
     Some (Inr r) \<Rightarrow> dc_Target (res_Decision r) = ''REJECT'' \<and> dc_Marks (res_Decision r) = [''m1''] | _ \<Rightarrow> False"
  by code_simp

theorem decision_is_terminal_witness:
  "\<exists>r. EvaluateWithEntry demo_lib demo_engine (Some demo_request) ''INPUT'' = Some (Inr r) \<and>
     isTerminal (dc_Target (res_Decision r))"
proof -
  from demo_evaluates obtain r where r: "EvaluateWithEntry demo_lib demo_engine (Some demo_request) ''INPUT'' = Some (Inr r)"
    by (auto split: option.splits sum.splits)
  with decision_is_terminal [OF demo_FromConfig r] show ?thesis by blast
qed

text \<open>
  C5: Evaluation is first match. In each chain the first rule that matches and has a deciding
  target settles the request: a terminal target gives its decision, RETURN gives the chain's own
  policy, JUMP hands over to the other chain for good (a reason is filled in when the other
  chain gave none), and without such a rule the policy decides; LOG and MARK only leave a
  trace or a mark. The decision, the marks and the trace of \<^verbatim>\<open>Evaluate\<close> are those of this
  verdict, as long as no chain name is entered more than eight times.
\<close>

theorem Evaluate_is_first_match:
  assumes "FromConfig L rc = Inr e" and "verdict L e (with_resolver ro) entry ns tr ms d" and "entry \<noteq> []"
    and "\<forall>u. count_list (map (ToUpper L) ns) u \<le> 8"
  shows "EvaluateWithEntry L e ro entry =
    Some (Inr \<lparr>res_Decision = d\<lparr>dc_Marks := ms\<rparr>, res_Trace = tr\<rparr>)"
  using assms by (rule verdict_evaluates)

lemma demo_verdict:
  "verdict demo_lib demo_engine (with_resolver (Some demo_request)) ''INPUT'' [''INPUT'', ''RISK'']
     (steps demo_lib (with_resolver (Some demo_request)) ''INPUT''
        [demo_crule ''note'' ''MARK'' ''m1'', demo_crule ''check'' ''JUMP'' ''RISK''] @
      steps demo_lib (with_resolver (Some demo_request)) ''RISK'' [demo_crule ''stop'' ''REJECT'' []])
     [''m1''] (default_reason ''check'' (decisionFromRule ''RISK'' (demo_crule ''stop'' ''REJECT'' [])))"
proof -
  let ?ctx = "with_resolver (Some demo_request)"
  have m: "Match demo_lib ?ctx (rl_Match (demo_crule n t a))" for n t a
    by (simp add: demo_crule_def with_resolver_def demo_request_def)
  have t: "rl_Target (demo_crule n t a) = t" "rl_Chain (demo_crule n t a) = a" "rl_Mark (demo_crule n t a) = a"
    "rl_Reason (demo_crule n t a) = n" for n t a by (simp_all add: demo_crule_def)
  have l: "lookupChain demo_lib demo_engine ''INPUT'' = Some (demo_chain ''input''
        [demo_crule ''note'' ''MARK'' ''m1'', demo_crule ''check'' ''JUMP'' ''RISK''])"
    "lookupChain demo_lib demo_engine ''RISK'' = Some (demo_chain ''risk'' [demo_crule ''stop'' ''REJECT'' []])"
  proof -
    have "EqualFold demo_lib ''input'' ''INPUT''" "\<not> EqualFold demo_lib ''input'' ''RISK''"
      "EqualFold demo_lib ''risk'' ''RISK''" by code_simp+
    then show "lookupChain demo_lib demo_engine ''INPUT'' = Some (demo_chain ''input''
        [demo_crule ''note'' ''MARK'' ''m1'', demo_crule ''check'' ''JUMP'' ''RISK''])"
      "lookupChain demo_lib demo_engine ''RISK'' = Some (demo_chain ''risk'' [demo_crule ''stop'' ''REJECT'' []])"
      by (simp_all add: lookupChain_def demo_engine_def)
  qed
  have u: "undecided demo_lib ?ctx []" "undecided demo_lib ?ctx [demo_crule ''note'' ''MARK'' ''m1'']"
    by (simp_all add: undecided_def decides_def t isTerminal_def target_defs)
  have d: "decides demo_lib ?ctx (demo_crule ''stop'' ''REJECT'' [])"
    "decides demo_lib ?ctx (demo_crule ''check'' ''JUMP'' ''RISK'')"
    by (simp_all add: decides_def m t isTerminal_def target_defs)
  have "verdict demo_lib demo_engine ?ctx ''RISK'' [''RISK'']
      (steps demo_lib ?ctx ''RISK'' ([] @ [demo_crule ''stop'' ''REJECT'' []])) (marks_of demo_lib ?ctx [])
      (decisionFromRule ''RISK'' (demo_crule ''stop'' ''REJECT'' []))"
    by (rule verdict.by_rule [OF l(2) _ u(1) d(1), of "[]"])
       (simp_all add: demo_chain_def t isTerminal_def target_defs)
  then have r: "verdict demo_lib demo_engine ?ctx (rl_Chain (demo_crule ''check'' ''JUMP'' ''RISK'')) [''RISK'']
      (steps demo_lib ?ctx ''RISK'' [demo_crule ''stop'' ''REJECT'' []]) []
      (decisionFromRule ''RISK'' (demo_crule ''stop'' ''REJECT'' []))"
    by (simp add: t marks_of_def)
  show ?thesis
    using verdict.by_jump [OF l(1) _ u(2) d(2) _ r, of "[]"] m
    by (simp add: demo_chain_def t target_defs marks_of_def)
qed

theorem Evaluate_is_first_match_witness:
  "\<exists>tr. EvaluateWithEntry demo_lib demo_engine (Some demo_request) ''INPUT'' =
     Some (Inr \<lparr>res_Decision =
       (default_reason ''check'' (decisionFromRule ''RISK'' (demo_crule ''stop'' ''REJECT'' [])))\<lparr>dc_Marks := [''m1'']\<rparr>,
       res_Trace = tr\<rparr>)"
proof -
  have "\<forall>u. count_list (map (ToUpper demo_lib) [''INPUT'', ''RISK'']) u \<le> 8" by simp
  from Evaluate_is_first_match [OF demo_FromConfig demo_verdict _ this] show ?thesis by blast
qed

end
