(* ===== verification/UsageStore.thy ===== *)
theory UsageStore
  imports Config
begin

text \<open>
  Package \<^verbatim>\<open>internal/storage\<close>: the records of the usage store, the contract its clients rely on
  as the locale \<open>usage_store\<close>, and the in-memory implementation of
  \<^verbatim>\<open>storage/memory/usage.go\<close> with the interpretation that discharges the contract.

  Every operation of the in-memory store runs under one mutex, so it is a function on the state.
  A use of the wall clock (only when the caller passes no time) is the argument \<open>wall\<close>. A map
  that \<^verbatim>\<open>Close\<close> has set to nil is the empty list.
\<close>

section \<open>The interface (store.go, errors.go)\<close>

datatype store_error = ErrNotFound | ErrClosed | ErrInvalidWindow | ErrBackend

record ConsumeInput =
  ci_ID :: string
  ci_Mode :: string
  ci_Path :: string
  ci_Sign :: string
  ci_TokenHash :: string
  ci_ExpiresAt :: int
  ci_MaxUses :: int
  ci_IP :: string
  ci_UserAgent :: string
  ci_NowUnix :: int
  ci_GraceSeconds :: int
  ci_SkipConsume :: bool

record ConsumeResult =
  cr_Allowed :: bool
  cr_Uses :: int
  cr_MaxUses :: int
  cr_Reason :: string

record UsageRecord =
  ur_ID :: string
  ur_Mode :: string
  ur_Path :: string
  ur_Sign :: string
  ur_TokenHash :: string
  ur_Uses :: int
  ur_MaxUses :: int
  ur_FirstIP :: string
  ur_LastIP :: string
  ur_UserAgent :: string
  ur_ExpiresAt :: int
  ur_CreatedAt :: int
  ur_UpdatedAt :: int

section \<open>The in-memory store (memory/usage.go)\<close>

record MemUsageStore =
  us_records :: "(string, UsageRecord) gomap"
  us_closed :: bool

definition NewUsageStore :: MemUsageStore where
  "NewUsageStore = \<lparr>us_records = [], us_closed = False\<rparr>"

definition consume_now :: "int \<Rightarrow> ConsumeInput \<Rightarrow> int" where
  "consume_now wall inp = (if ci_NowUnix inp = 0 then wall else ci_NowUnix inp)"

definition fresh_record :: "ConsumeInput \<Rightarrow> int \<Rightarrow> UsageRecord" where
  "fresh_record inp now = \<lparr>ur_ID = ci_ID inp, ur_Mode = ci_Mode inp, ur_Path = ci_Path inp,
     ur_Sign = ci_Sign inp, ur_TokenHash = ci_TokenHash inp, ur_Uses = 0, ur_MaxUses = ci_MaxUses inp,
     ur_FirstIP = ci_IP inp, ur_LastIP = ci_IP inp, ur_UserAgent = ci_UserAgent inp,
     ur_ExpiresAt = ci_ExpiresAt inp, ur_CreatedAt = now, ur_UpdatedAt = now\<rparr>"

definition charge_record :: "ConsumeInput \<Rightarrow> int \<Rightarrow> UsageRecord \<Rightarrow> UsageRecord" where
  "charge_record inp now rec = rec\<lparr>
     ur_Uses := (if ci_SkipConsume inp then ur_Uses rec else wrap64 (ur_Uses rec + 1)),
     ur_LastIP := ci_IP inp,
     ur_UpdatedAt := now,
     ur_UserAgent := (if ur_UserAgent rec = [] then ci_UserAgent inp else ur_UserAgent rec)\<rparr>"

text \<open>The part of \<^verbatim>\<open>Consume\<close> under the lock.\<close>

definition Consume_locked ::
  "int \<Rightarrow> ConsumeInput \<Rightarrow> MemUsageStore \<Rightarrow> ConsumeResult \<times> MemUsageStore" where
  "Consume_locked wall inp s =
     (let now = consume_now wall inp;
          rec = (case map_of (us_records s) (ci_ID inp) of Some r \<Rightarrow> r | None \<Rightarrow> fresh_record inp now);
          s1 = s\<lparr>us_records := AList.update (ci_ID inp) rec (us_records s)\<rparr> in
      if ur_Uses rec \<ge> ci_MaxUses inp then
        (\<lparr>cr_Allowed = False, cr_Uses = ur_Uses rec, cr_MaxUses = ci_MaxUses inp, cr_Reason = ''used_up''\<rparr>, s1)
      else let rec' = charge_record inp now rec in
        (\<lparr>cr_Allowed = True, cr_Uses = ur_Uses rec', cr_MaxUses = ci_MaxUses inp, cr_Reason = ''ok''\<rparr>,
         s\<lparr>us_records := AList.update (ci_ID inp) rec' (us_records s)\<rparr>))"

definition Consume ::
  "int \<Rightarrow> ConsumeInput \<Rightarrow> MemUsageStore \<Rightarrow> (store_error + ConsumeResult) \<times> MemUsageStore" where
  "Consume wall inp s =
     (if us_closed s then (Inl ErrClosed, s) else apfst Inr (Consume_locked wall inp s))"

definition Get :: "string \<Rightarrow> MemUsageStore \<Rightarrow> store_error + UsageRecord" where
  "Get sid s =
     (if us_closed s then Inl ErrClosed
      else case map_of (us_records s) sid of None \<Rightarrow> Inl ErrNotFound | Some rec \<Rightarrow> Inr rec)"

definition CleanupExpired ::
  "int \<Rightarrow> MemUsageStore \<Rightarrow> (store_error + int) \<times> MemUsageStore" where
  "CleanupExpired beforeUnix s =
     (if us_closed s then (Inl ErrClosed, s)
      else let kept = filter (\<lambda>(sid, rec). \<not> ur_ExpiresAt rec < beforeUnix) (us_records s) in
        (Inr (int (length (us_records s)) - int (length kept)), s\<lparr>us_records := kept\<rparr>))"

definition CountActive :: "MemUsageStore \<Rightarrow> store_error + int" where
  "CountActive s = (if us_closed s then Inl ErrClosed else Inr (int (length (us_records s))))"

definition Close :: "MemUsageStore \<Rightarrow> MemUsageStore" where
  "Close s = s\<lparr>us_closed := True, us_records := []\<rparr>"

section \<open>The contract\<close>

text \<open>
  What a client may rely on, for calls that \<open>fit\<close> the limit \<open>M\<close>. \<open>uses s sid\<close> is the number of uses
  charged to a sign id, \<open>inv M\<close> the states reachable under the limit \<open>M\<close>; the argument of type
  \<^typ>\<open>'e\<close> stands for what the environment contributes to a call. An error may or may not have
  charged a use; an admitted call that is not exempt has charged exactly one.
\<close>

locale usage_store =
  fixes consume :: "'e \<Rightarrow> ConsumeInput \<Rightarrow> 's \<Rightarrow> (store_error + ConsumeResult) \<times> 's"
    and uses :: "'s \<Rightarrow> string \<Rightarrow> int"
    and inv :: "int \<Rightarrow> 's \<Rightarrow> bool"
    and fits :: "int \<Rightarrow> 'e \<Rightarrow> ConsumeInput \<Rightarrow> bool"
  assumes inv_consume: "inv M s \<Longrightarrow> fits M e i \<Longrightarrow> inv M (snd (consume e i s))"
    and uses_le: "inv M s \<Longrightarrow> uses s sid \<le> M"
    and uses_mono: "inv M s \<Longrightarrow> fits M e i \<Longrightarrow> uses s sid \<le> uses (snd (consume e i s)) sid"
    and uses_frame: "inv M s \<Longrightarrow> sid \<noteq> ci_ID i \<Longrightarrow> uses (snd (consume e i s)) sid = uses s sid"
    and charged: "inv M s \<Longrightarrow> fits M e i \<Longrightarrow> fst (consume e i s) = Inr r \<Longrightarrow> cr_Allowed r \<Longrightarrow>
      \<not> ci_SkipConsume i \<Longrightarrow> uses (snd (consume e i s)) (ci_ID i) = uses s (ci_ID i) + 1"
begin

text \<open>A call that consumed: admitted, not exempt, for the given id.\<close>

definition charged_to :: "string \<Rightarrow> ConsumeInput \<Rightarrow> store_error + ConsumeResult \<Rightarrow> bool" where
  "charged_to sid i res \<longleftrightarrow> ci_ID i = sid \<and> \<not> ci_SkipConsume i \<and>
     (case res of Inr r \<Rightarrow> cr_Allowed r | Inl _ \<Rightarrow> False)"

fun admissions :: "string \<Rightarrow> ('e \<times> ConsumeInput) list \<Rightarrow> 's \<Rightarrow> nat" where
  "admissions sid [] s = 0"
| "admissions sid ((e, i) # xs) s =
     (if charged_to sid i (fst (consume e i s)) then 1 else 0) + admissions sid xs (snd (consume e i s))"

fun final :: "('e \<times> ConsumeInput) list \<Rightarrow> 's \<Rightarrow> 's" where
  "final [] s = s"
| "final ((e, i) # xs) s = final xs (snd (consume e i s))"

lemma step_admissions:
  assumes "inv M s" and "fits M e i"
  shows "uses s sid + (if charged_to sid i (fst (consume e i s)) then 1 else 0) \<le> uses (snd (consume e i s)) sid"
  using charged [OF assms] uses_mono [OF assms]
  by (auto simp: charged_to_def split: sum.splits)

lemma admissions_uses:
  assumes "inv M s" and "\<forall>(e, i) \<in> set xs. fits M e i"
  shows "uses s sid + int (admissions sid xs s) \<le> uses (final xs s) sid \<and> inv M (final xs s)"
  using assms
proof (induction xs arbitrary: s)
  case Nil
  then show ?case by simp
next
  case (Cons x xs)
  obtain e i where x: "x = (e, i)" by (cases x)
  with Cons.prems have M: "fits M e i" and rest: "\<forall>(e, i) \<in> set xs. fits M e i" by auto
  have "inv M (snd (consume e i s))" using Cons.prems(1) M by (rule inv_consume)
  from Cons.IH [OF this rest] step_admissions [OF Cons.prems(1) M, of sid] show ?case
    using x by (auto split: if_splits)
qed

text \<open>However the calls for an id interleave with other calls, at most \<open>M\<close> of them are charged.\<close>

lemma admissions_bounded:
  assumes "inv M s" and "\<forall>(e, i) \<in> set xs. fits M e i"
  shows "int (admissions sid xs s) \<le> M - uses s sid"
  using admissions_uses [OF assms, of sid] uses_le [of M "final xs s" sid] by linarith

end

section \<open>The in-memory store keeps the contract\<close>

definition mem_uses :: "MemUsageStore \<Rightarrow> string \<Rightarrow> int" where
  "mem_uses s sid = (case map_of (us_records s) sid of None \<Rightarrow> 0 | Some r \<Rightarrow> ur_Uses r)"

definition mem_inv :: "int \<Rightarrow> MemUsageStore \<Rightarrow> bool" where
  "mem_inv M s \<longleftrightarrow> wf_map (us_records s) \<and> 0 \<le> M \<and> M < 2 ^ 63 \<and> (us_closed s \<longrightarrow> us_records s = []) \<and>
     (\<forall>sid r. map_of (us_records s) sid = Some r \<longrightarrow> ur_ID r = sid \<and> 0 \<le> ur_Uses r \<and> ur_Uses r \<le> M)"

lemma mem_inv_New: "0 \<le> M \<Longrightarrow> M < 2 ^ 63 \<Longrightarrow> mem_inv M NewUsageStore"
  by (simp add: mem_inv_def NewUsageStore_def)

definition record_for :: "int \<Rightarrow> ConsumeInput \<Rightarrow> MemUsageStore \<Rightarrow> UsageRecord" where
  "record_for wall inp s =
     (case map_of (us_records s) (ci_ID inp) of Some r \<Rightarrow> r | None \<Rightarrow> fresh_record inp (consume_now wall inp))"

lemma record_for_inv:
  assumes "mem_inv M s"
  shows "ur_ID (record_for wall inp s) = ci_ID inp \<and> 0 \<le> ur_Uses (record_for wall inp s) \<and>
    ur_Uses (record_for wall inp s) \<le> M \<and> ur_Uses (record_for wall inp s) = mem_uses s (ci_ID inp)"
  using assms by (auto simp: mem_inv_def record_for_def mem_uses_def fresh_record_def split: option.split)

lemma Consume_locked_eq:
  "Consume_locked wall inp s =
     (if ur_Uses (record_for wall inp s) \<ge> ci_MaxUses inp then
        (\<lparr>cr_Allowed = False, cr_Uses = ur_Uses (record_for wall inp s), cr_MaxUses = ci_MaxUses inp,
          cr_Reason = ''used_up''\<rparr>,
         s\<lparr>us_records := AList.update (ci_ID inp) (record_for wall inp s) (us_records s)\<rparr>)
      else let rec' = charge_record inp (consume_now wall inp) (record_for wall inp s) in
        (\<lparr>cr_Allowed = True, cr_Uses = ur_Uses rec', cr_MaxUses = ci_MaxUses inp, cr_Reason = ''ok''\<rparr>,
         s\<lparr>us_records := AList.update (ci_ID inp) rec' (us_records s)\<rparr>))"
  by (simp add: Consume_locked_def record_for_def Let_def)

lemma charge_record_uses:
  assumes "0 \<le> ur_Uses r" and "ur_Uses r < M" and "M < 2 ^ 63"
  shows "ur_Uses (charge_record inp now r) = ur_Uses r + (if ci_SkipConsume inp then 0 else 1)"
proof -
  have "in_int64 (ur_Uses r + 1)" using assms by (simp add: in_int64_def)
  then show ?thesis by (simp add: charge_record_def)
qed

lemma charge_record_frame [simp]:
  "ur_ID (charge_record inp now r) = ur_ID r" "ur_FirstIP (charge_record inp now r) = ur_FirstIP r"
  "ur_ExpiresAt (charge_record inp now r) = ur_ExpiresAt r"
  "ur_MaxUses (charge_record inp now r) = ur_MaxUses r"
  by (simp_all add: charge_record_def)

text \<open>The state after a call, in one equation: the record of the id, charged or not.\<close>

definition consumed_record :: "int \<Rightarrow> ConsumeInput \<Rightarrow> MemUsageStore \<Rightarrow> UsageRecord" where
  "consumed_record wall inp s =
     (if ur_Uses (record_for wall inp s) \<ge> ci_MaxUses inp then record_for wall inp s
      else charge_record inp (consume_now wall inp) (record_for wall inp s))"

lemma Consume_state:
  "snd (Consume wall inp s) =
     (if us_closed s then s
      else s\<lparr>us_records := AList.update (ci_ID inp) (consumed_record wall inp s) (us_records s)\<rparr>)"
  by (simp add: Consume_def Consume_locked_eq consumed_record_def Let_def)

lemma Consume_result:
  "fst (Consume wall inp s) =
     (if us_closed s then Inl ErrClosed
      else Inr \<lparr>cr_Allowed = (ur_Uses (record_for wall inp s) < ci_MaxUses inp),
        cr_Uses = ur_Uses (consumed_record wall inp s), cr_MaxUses = ci_MaxUses inp,
        cr_Reason = (if ur_Uses (record_for wall inp s) < ci_MaxUses inp then ''ok'' else ''used_up'')\<rparr>)"
  by (simp add: Consume_def Consume_locked_eq consumed_record_def Let_def not_le)

text \<open>A call keeps to the limit \<open>M\<close> when it passes it or does not charge at all.\<close>

definition within_limit :: "int \<Rightarrow> ConsumeInput \<Rightarrow> bool" where
  "within_limit M inp \<longleftrightarrow> ci_MaxUses inp = M \<or> ci_SkipConsume inp"

lemma consumed_record_uses:
  assumes "mem_inv M s" and "within_limit M inp"
  shows "ur_Uses (consumed_record wall inp s) = mem_uses s (ci_ID inp) +
    (if mem_uses s (ci_ID inp) < M \<and> \<not> ci_SkipConsume inp then 1 else 0)"
proof (cases "ci_SkipConsume inp")
  case True
  then show ?thesis using record_for_inv [OF assms(1), of wall inp]
    by (simp add: consumed_record_def charge_record_def)
next
  case False
  have "M < 2 ^ 63" using assms(1) by (simp add: mem_inv_def)
  with charge_record_uses [of "record_for wall inp s" M inp "consume_now wall inp"]
    record_for_inv [OF assms(1), of wall inp] assms(2) False show ?thesis
    by (auto simp: consumed_record_def within_limit_def)
qed

lemma mem_uses_Consume:
  "mem_uses (snd (Consume wall inp s)) sid =
     (if \<not> us_closed s \<and> sid = ci_ID inp then ur_Uses (consumed_record wall inp s) else mem_uses s sid)"
  by (simp add: Consume_state mem_uses_def)

lemma mem_inv_Consume:
  assumes "mem_inv M s" and "within_limit M inp"
  shows "mem_inv M (snd (Consume wall inp s))"
proof -
  have "ur_ID (consumed_record wall inp s) = ci_ID inp"
    using record_for_inv [OF assms(1)] by (simp add: consumed_record_def)
  moreover have "0 \<le> ur_Uses (consumed_record wall inp s)" "ur_Uses (consumed_record wall inp s) \<le> M"
    using consumed_record_uses [OF assms, of wall] record_for_inv [OF assms(1), of wall inp] by auto
  ultimately show ?thesis using assms(1)
    by (simp add: mem_inv_def Consume_state)
qed

lemma mem_uses_le: "mem_inv M s \<Longrightarrow> mem_uses s sid \<le> M"
  by (auto simp: mem_inv_def mem_uses_def split: option.split)

interpretation mem: usage_store Consume mem_uses mem_inv "\<lambda>M wall. within_limit M"
proof
  fix M s i sid r and e :: int
  assume inv: "mem_inv M s"
  show "mem_uses s sid \<le> M" using inv by (rule mem_uses_le)
  show "sid \<noteq> ci_ID i \<Longrightarrow> mem_uses (snd (Consume e i s)) sid = mem_uses s sid"
    by (simp add: mem_uses_Consume)
  assume lim: "within_limit M i"
  show "mem_inv M (snd (Consume e i s))" using inv lim by (rule mem_inv_Consume)
  show "mem_uses s sid \<le> mem_uses (snd (Consume e i s)) sid"
    using consumed_record_uses [OF inv lim, of e] by (simp add: mem_uses_Consume)
  show "mem_uses (snd (Consume e i s)) (ci_ID i) = mem_uses s (ci_ID i) + 1"
    if "fst (Consume e i s) = Inr r" "cr_Allowed r" "\<not> ci_SkipConsume i"
  proof -
    from that have "\<not> us_closed s" and "ur_Uses (record_for e i s) < ci_MaxUses i"
      by (auto simp: Consume_result split: if_splits)
    with consumed_record_uses [OF inv lim, of e] record_for_inv [OF inv, of e i] lim that(3) show ?thesis
      by (simp add: mem_uses_Consume within_limit_def)
  qed
qed

section \<open>Cleanup and the other operations\<close>

lemma mem_inv_Cleanup: "mem_inv M s \<Longrightarrow> mem_inv M (snd (CleanupExpired b s))"
  by (auto simp: mem_inv_def CleanupExpired_def Let_def map_of_filter split: option.splits if_splits)

lemma mem_inv_Close: "mem_inv M s \<Longrightarrow> mem_inv M (Close s)"
  by (simp add: mem_inv_def Close_def)

lemma Get_Cleanup:
  assumes "mem_inv M s"
  shows "Get sid (snd (CleanupExpired b s)) =
    (case Get sid s of
       Inl e \<Rightarrow> Inl e
     | Inr r \<Rightarrow> if ur_ExpiresAt r < b then Inl ErrNotFound else Inr r)"
  using assms
  by (auto simp: Get_def CleanupExpired_def Let_def mem_inv_def map_of_filter split: option.split)

section \<open>Properties\<close>

subsection \<open>Runs of the store\<close>

datatype UsageOp = OpConsume int ConsumeInput | OpGet string | OpCleanup int | OpClose

definition usage_step :: "UsageOp \<Rightarrow> MemUsageStore \<Rightarrow> MemUsageStore" where
  "usage_step op s =
     (case op of
        OpConsume wall inp \<Rightarrow> snd (Consume wall inp s)
      | OpGet _ \<Rightarrow> s
      | OpCleanup b \<Rightarrow> snd (CleanupExpired b s)
      | OpClose \<Rightarrow> Close s)"

text \<open>Whether an operation charged a use to the sign id.\<close>

definition charges :: "string \<Rightarrow> UsageOp \<Rightarrow> MemUsageStore \<Rightarrow> bool" where
  "charges sid op s =
     (case op of
        OpConsume wall inp \<Rightarrow> ci_ID inp = sid \<and> \<not> ci_SkipConsume inp \<and>
          (case fst (Consume wall inp s) of Inr r \<Rightarrow> cr_Allowed r | Inl _ \<Rightarrow> False)
      | _ \<Rightarrow> False)"

fun charged_uses :: "string \<Rightarrow> (int \<times> UsageOp) list \<Rightarrow> MemUsageStore \<Rightarrow> nat" where
  "charged_uses sid [] s = 0"
| "charged_uses sid ((t, op) # ops) s =
     (if charges sid op s then 1 else 0) + charged_uses sid ops (usage_step op s)"

text \<open>
  The operations of the service at their times: every charge uses the configured limit, and a
  record is made or charged only for a token that has not expired; a cleanup removes what expired before a moment that
  is not in the future; the times do not decrease.
\<close>

definition op_ok :: "int \<Rightarrow> string \<Rightarrow> int \<Rightarrow> int \<times> UsageOp \<Rightarrow> bool" where
  "op_ok M sid expiry timed =
     (case timed of
        (t, OpConsume wall inp) \<Rightarrow> within_limit M inp \<and>
          (ci_ID inp = sid \<longrightarrow> ci_ExpiresAt inp = expiry \<and> t < expiry)
      | (t, OpCleanup b) \<Rightarrow> b \<le> t
      | _ \<Rightarrow> True)"

definition usage_inv :: "int \<Rightarrow> string \<Rightarrow> int \<Rightarrow> int \<Rightarrow> int \<Rightarrow> MemUsageStore \<Rightarrow> bool" where
  "usage_inv M sid expiry t n s \<longleftrightarrow> mem_inv M s \<and> n \<le> M \<and>
     (n \<le> mem_uses s sid \<or> expiry \<le> t \<or> us_closed s) \<and>
     (\<forall>r. map_of (us_records s) sid = Some r \<longrightarrow> ur_ExpiresAt r = expiry)"

lemma consumed_record_expiry:
  "ur_ExpiresAt (consumed_record wall inp s) =
     (case map_of (us_records s) (ci_ID inp) of Some r \<Rightarrow> ur_ExpiresAt r | None \<Rightarrow> ci_ExpiresAt inp)"
  by (simp add: consumed_record_def record_for_def fresh_record_def split: option.split)

lemma usage_inv_Consume:
  assumes "usage_inv M sid expiry t n s" and "op_ok M sid expiry (t', OpConsume wall inp)" and "t \<le> t'"
  shows "usage_inv M sid expiry t' (n + (if charges sid (OpConsume wall inp) s then 1 else 0))
    (snd (Consume wall inp s))"
proof -
  from assms have inv: "mem_inv M s" and M: "within_limit M inp" and n: "n \<le> M"
    by (auto simp: usage_inv_def op_ok_def)
  have le: "mem_uses (snd (Consume wall inp s)) sid \<le> M"
    using mem_uses_le [OF mem_inv_Consume [OF inv M]] .
  have live: "n \<le> mem_uses s sid" if "charges sid (OpConsume wall inp) s"
    using that assms by (auto simp: usage_inv_def op_ok_def charges_def Consume_result split: if_splits)
  have up: "mem_uses s sid + (if charges sid (OpConsume wall inp) s then 1 else 0)
      \<le> mem_uses (snd (Consume wall inp s)) sid"
    using consumed_record_uses [OF inv M, of wall] record_for_inv [OF inv, of wall inp] M
    by (auto simp: charges_def Consume_result mem_uses_Consume within_limit_def split: if_splits)
  show ?thesis
  proof (cases "us_closed s")
    case True
    then show ?thesis using assms
      by (auto simp: usage_inv_def charges_def Consume_state Consume_result)
  next
    case False
    have "ur_ExpiresAt r = expiry" if "map_of (us_records (snd (Consume wall inp s))) sid = Some r" for r
      using that assms(1,2) False consumed_record_expiry [of wall inp s]
      by (auto simp: usage_inv_def op_ok_def Consume_state split: if_splits option.splits)
    with False assms(1,3) mem_inv_Consume [OF inv M] le up live n show ?thesis
      by (auto simp: usage_inv_def Consume_state)
  qed
qed

lemma usage_inv_Cleanup:
  assumes "usage_inv M sid expiry t n s" and "b \<le> t'" and "t \<le> t'"
  shows "usage_inv M sid expiry t' n (snd (CleanupExpired b s))"
proof -
  have inv: "mem_inv M s" using assms(1) by (simp add: usage_inv_def)
  then have wf: "wf_map (us_records s)" by (simp add: mem_inv_def)
  show ?thesis
    using assms mem_inv_Cleanup [OF inv, of b]
    by (auto simp: usage_inv_def CleanupExpired_def Let_def mem_uses_def map_of_filter [OF wf]
        split: option.splits if_splits)
qed

lemma usage_inv_step:
  assumes "usage_inv M sid expiry t n s" and "op_ok M sid expiry (t', op)" and "t \<le> t'"
  shows "usage_inv M sid expiry t' (n + (if charges sid op s then 1 else 0)) (usage_step op s)"
proof (cases op)
  case (OpConsume wall inp)
  with usage_inv_Consume [of M sid expiry t n s t' wall inp] assms show ?thesis
    by (simp add: usage_step_def)
next
  case (OpCleanup b)
  with usage_inv_Cleanup [of M sid expiry t n s b t'] assms show ?thesis
    by (simp add: usage_step_def charges_def op_ok_def)
next
  case OpClose
  with assms mem_inv_Close [of M s] show ?thesis
    by (auto simp: usage_step_def charges_def usage_inv_def Close_def)
qed (use assms in \<open>auto simp: usage_step_def charges_def usage_inv_def\<close>)

lemma charged_uses_bound:
  assumes "usage_inv M sid expiry t n s" and "\<forall>x \<in> set ops. op_ok M sid expiry x"
    and "sorted (t # map fst ops)"
  shows "n + int (charged_uses sid ops s) \<le> M"
  using assms
proof (induction ops arbitrary: t n s)
  case Nil
  then show ?case by (simp add: usage_inv_def)
next
  case (Cons x ops)
  obtain t' op where x: "x = (t', op)" by (cases x)
  with Cons.prems have "usage_inv M sid expiry t' (n + (if charges sid op s then 1 else 0)) (usage_step op s)"
    by (intro usage_inv_step [OF Cons.prems(1)]) auto
  from Cons.IH [OF this] Cons.prems(2,3) x show ?case by (simp split: if_splits)
qed


definition demo_consume :: ConsumeInput where
  "demo_consume = \<lparr>ci_ID = ''a1'', ci_Mode = ''generic'', ci_Path = ''/a.iso'', ci_Sign = ''5e'',
     ci_TokenHash = ''77'', ci_ExpiresAt = 2000, ci_MaxUses = 2, ci_IP = ''10.0.0.1'', ci_UserAgent = ''ua'',
     ci_NowUnix = 1500, ci_GraceSeconds = 60, ci_SkipConsume = False\<rparr>"

definition demo_ops :: "(int \<times> UsageOp) list" where
  "demo_ops = [(1500, OpConsume 0 demo_consume), (1500, OpConsume 0 (demo_consume\<lparr>ci_ID := ''b2''\<rparr>)),
     (1600, OpConsume 0 demo_consume), (1700, OpCleanup 1600), (1800, OpConsume 0 demo_consume)]"



fun consume_repeat :: "nat \<Rightarrow> int \<Rightarrow> ConsumeInput \<Rightarrow> MemUsageStore \<Rightarrow> (store_error + ConsumeResult) list" where
  "consume_repeat 0 wall inp s = []"
| "consume_repeat (Suc k) wall inp s =
     fst (Consume wall inp s) # consume_repeat k wall inp (snd (Consume wall inp s))"

definition quota_answer :: "int \<Rightarrow> int \<Rightarrow> ConsumeResult" where
  "quota_answer M u =
     (if u < M then \<lparr>cr_Allowed = True, cr_Uses = u + 1, cr_MaxUses = M, cr_Reason = ''ok''\<rparr>
      else \<lparr>cr_Allowed = False, cr_Uses = M, cr_MaxUses = M, cr_Reason = ''used_up''\<rparr>)"

lemma Consume_charging:
  assumes "mem_inv M s" and "\<not> us_closed s" and "ci_MaxUses inp = M" and "\<not> ci_SkipConsume inp"
  shows "fst (Consume wall inp s) = Inr (quota_answer M (mem_uses s (ci_ID inp))) \<and>
    mem_uses (snd (Consume wall inp s)) (ci_ID inp) = min M (mem_uses s (ci_ID inp) + 1) \<and>
    \<not> us_closed (snd (Consume wall inp s))"
proof -
  have le: "mem_uses s (ci_ID inp) \<le> M" using assms(1) by (rule mem_uses_le)
  have "ur_Uses (record_for wall inp s) = mem_uses s (ci_ID inp)" using record_for_inv [OF assms(1)] by simp
  moreover have "mem_uses (snd (Consume wall inp s)) (ci_ID inp) = ur_Uses (consumed_record wall inp s)"
    using assms(2) by (simp add: mem_uses_Consume)
  moreover have "us_closed (snd (Consume wall inp s)) = us_closed s" by (simp add: Consume_state)
  ultimately show ?thesis using le consumed_record_uses [OF assms(1), of inp wall] assms(2-4)
    by (auto simp: Consume_result quota_answer_def within_limit_def)
qed

text \<open>
  The quota is exact. When \<open>u\<close> uses of an id are on record, the next \<open>M - u\<close> charging calls for
  it are admitted, with the running count in the answer, and every further call is refused with
  the reason \<^verbatim>\<open>used_up\<close>; a refused call leaves the count alone.
\<close>

theorem quota_is_exact:
  assumes "mem_inv M s" and "\<not> us_closed s" and "ci_MaxUses inp = M" and "\<not> ci_SkipConsume inp"
  shows "consume_repeat k wall inp s =
    map (\<lambda>j. Inr (quota_answer M (min M (mem_uses s (ci_ID inp) + int j)))) [0..<k]"
  using assms(1,2)
proof (induction k arbitrary: s)
  case 0
  then show ?case by simp
next
  case (Suc k)
  have le: "mem_uses s (ci_ID inp) \<le> M" using Suc.prems(1) by (rule mem_uses_le)
  have "within_limit M inp" using assms(3) by (simp add: within_limit_def)
  from Consume_charging [OF Suc.prems assms(3,4), of wall] Suc.IH [OF mem.inv_consume [OF Suc.prems(1) this]]
  have "consume_repeat (Suc k) wall inp s = Inr (quota_answer M (mem_uses s (ci_ID inp))) #
      map (\<lambda>j. Inr (quota_answer M (min M (min M (mem_uses s (ci_ID inp) + 1) + int j)))) [0..<k]" by simp
  also have "\<dots> = map (\<lambda>j. Inr (quota_answer M (min M (mem_uses s (ci_ID inp) + int j)))) (0 # map Suc [0..<k])"
    using le by (auto simp: min_def intro!: arg_cong [where f = "quota_answer M"])
  also have "0 # map Suc [0..<k] = [0..<Suc k]" by (simp add: map_Suc_upt upt_conv_Cons)
  finally show ?case .
qed

theorem quota_is_exact_witness:
  "map (\<lambda>r. case r of Inr x \<Rightarrow> cr_Allowed x | Inl _ \<Rightarrow> False) (consume_repeat 3 0 demo_consume NewUsageStore)
     = [True, True, False]"
proof -
  have "mem_inv 2 NewUsageStore" by (rule mem_inv_New) simp_all
  moreover have "\<not> us_closed NewUsageStore" "ci_MaxUses demo_consume = 2" "\<not> ci_SkipConsume demo_consume"
    by code_simp+
  moreover have "map (\<lambda>r. case r of Inr x \<Rightarrow> cr_Allowed x | Inl (_ :: store_error) \<Rightarrow> False)
      (map (\<lambda>j. Inr (quota_answer 2 (min 2 (mem_uses NewUsageStore (ci_ID demo_consume) + int j)))) [0..<3]) =
      [True, True, False]" by code_simp
  ultimately show ?thesis using quota_is_exact [of 2 NewUsageStore demo_consume 3 0] by simp
qed

end
