(* ===== verification/CounterStore.thy ===== *)
theory CounterStore
  imports UsageStore
begin

text \<open>
  \<^verbatim>\<open>storage/memory/counter.go\<close>: the in-memory fixed-window counter, its contract as the locale
  \<open>counter_store\<close> and the interpretation on the model. An instant is a number of nanoseconds since
  the Unix epoch; every reading of the clock is an argument. Calls run under one mutex.
\<close>

section \<open>The store\<close>

record counterBucket =
  cb_value :: int
  cb_expiresAt :: int

record MemCounterStore =
  cs_buckets :: "(string, counterBucket) gomap"
  cs_closed :: bool
  cs_lastSweep :: int

definition sweepInterval :: int where "sweepInterval = 30 * Second"

text \<open>Go's zero time is the start of year 1.\<close>

definition zero_time :: int where "zero_time = - 62135596800 * Second"

definition NewCounterStore :: MemCounterStore where
  "NewCounterStore = \<lparr>cs_buckets = [], cs_closed = False, cs_lastSweep = zero_time\<rparr>"

definition counter_sweepLocked :: "int \<Rightarrow> MemCounterStore \<Rightarrow> MemCounterStore" where
  "counter_sweepLocked now s =
     (if now - cs_lastSweep s < sweepInterval then s
      else s\<lparr>cs_lastSweep := now,
        cs_buckets := filter (\<lambda>(k, b). \<not> now > cb_expiresAt b) (cs_buckets s)\<rparr>)"

text \<open>Go's integer division truncates towards zero.\<close>

definition go_div :: "int \<Rightarrow> int \<Rightarrow> int" where
  "go_div x y = (if (x < 0) = (y < 0) then \<bar>x\<bar> div \<bar>y\<bar> else - (\<bar>x\<bar> div \<bar>y\<bar>))"

definition bucketStart :: "int \<Rightarrow> int \<Rightarrow> int" where
  "bucketStart window t = wrap64 (go_div (wrap64 t) window * window)"

definition bucketKey :: "string \<Rightarrow> string \<Rightarrow> int \<Rightarrow> int \<Rightarrow> string" where
  "bucketKey name key window t = name @ ''|'' @ key @ ''|'' @ itoa (bucketStart window t)"

definition live_bucket :: "int \<Rightarrow> string \<Rightarrow> MemCounterStore \<Rightarrow> counterBucket option" where
  "live_bucket now k s =
     (case map_of (cs_buckets s) k of
        None \<Rightarrow> None
      | Some b \<Rightarrow> if now > cb_expiresAt b then None else Some b)"

definition Incr ::
  "int \<Rightarrow> int \<Rightarrow> string \<Rightarrow> string \<Rightarrow> int \<Rightarrow> MemCounterStore \<Rightarrow> (store_error + int \<times> int) \<times> MemCounterStore" where
  "Incr now now2 name key window s =
     (if cs_closed s then (Inl ErrClosed, s)
      else if window \<le> 0 then (Inl ErrInvalidWindow, s)
      else let s1 = counter_sweepLocked now s;
               k = bucketKey name key window now;
               b = (case live_bucket now k s1 of
                      Some b \<Rightarrow> b
                    | None \<Rightarrow> \<lparr>cb_value = 0, cb_expiresAt = now + window\<rparr>);
               b' = b\<lparr>cb_value := wrap64 (cb_value b + 1)\<rparr>;
               remaining = cb_expiresAt b' - now2 in
        (Inr (cb_value b', if remaining < 0 then 0 else remaining),
         s1\<lparr>cs_buckets := AList.update k b' (cs_buckets s1)\<rparr>))"

definition counter_Get ::
  "int \<Rightarrow> string \<Rightarrow> string \<Rightarrow> int \<Rightarrow> MemCounterStore \<Rightarrow> store_error + int" where
  "counter_Get now name key window s =
     (if cs_closed s then Inl ErrClosed
      else if window \<le> 0 then Inl ErrInvalidWindow
      else case live_bucket now (bucketKey name key window now) s of
        None \<Rightarrow> Inr 0
      | Some b \<Rightarrow> Inr (cb_value b))"

definition Reset ::
  "int \<Rightarrow> string \<Rightarrow> string \<Rightarrow> int \<Rightarrow> MemCounterStore \<Rightarrow> store_error option \<times> MemCounterStore" where
  "Reset now name key window s =
     (if cs_closed s then (Some ErrClosed, s)
      else if window \<le> 0 then (Some ErrInvalidWindow, s)
      else (None, s\<lparr>cs_buckets := AList.delete (bucketKey name key window now) (cs_buckets s)\<rparr>))"

definition counter_Close :: "MemCounterStore \<Rightarrow> MemCounterStore" where
  "counter_Close s = s\<lparr>cs_closed := True, cs_buckets := []\<rparr>"

section \<open>Bucket keys\<close>

lemma bucketStart_eq:
  assumes "0 < w" and "0 \<le> t" and "t < 2 ^ 63"
  shows "bucketStart w t = t div w * w"
proof -
  have t: "wrap64 t = t" using assms by (intro wrap64_id) (simp add: in_int64_def)
  have "t div w * w \<le> t" using assms(1) by (simp add: minus_mod_eq_div_mult [symmetric])
  moreover have "0 \<le> t div w * w" using assms by (simp add: pos_imp_zdiv_nonneg_iff)
  ultimately have "in_int64 (t div w * w)" using assms(3) by (simp add: in_int64_def)
  with t assms show ?thesis by (simp add: bucketStart_def go_div_def)
qed

lemma bucketStart_bounds:
  assumes "0 < w" and "0 \<le> t" and "t < 2 ^ 63"
  shows "0 \<le> bucketStart w t" "bucketStart w t \<le> t" "t < bucketStart w t + w"
proof -
  note eq = bucketStart_eq [OF assms]
  show "0 \<le> bucketStart w t" using eq assms by (simp add: pos_imp_zdiv_nonneg_iff)
  show "bucketStart w t \<le> t" using eq assms(1) by (simp add: minus_mod_eq_div_mult [symmetric])
  show "t < bucketStart w t + w" using eq assms(1) pos_mod_bound [of w t] by (simp add: minus_mod_eq_div_mult [symmetric])
qed

definition bar_free :: "string \<Rightarrow> bool" where
  "bar_free s \<longleftrightarrow> CHR ''|'' \<notin> set s"

lemma itoa_bar_free:
  assumes "- (2 ^ 63) < n" and "n < 2 ^ 63"
  shows "CHR ''|'' \<notin> set (itoa n)"
proof -
  have "\<not> is_digit (CHR ''|'')" by code_simp
  then have "CHR ''|'' \<notin> set (show_nat m)" for m using show_nat_hd by blast
  then show ?thesis using itoa_eq_FormatInt [OF assms] by (simp add: FormatInt_def)
qed

lemma itoa_inject:
  assumes "- (2 ^ 63) < m" "m < 2 ^ 63" "- (2 ^ 63) < n" "n < 2 ^ 63" and "itoa m = itoa n"
  shows "m = n"
  using assms by (simp add: itoa_eq_FormatInt)

lemma bucketKey_inject:
  assumes "bar_free n" and "bar_free n'" and "0 < w" and "0 < w'" and "0 \<le> t" "t < 2 ^ 63" "0 \<le> t'" "t' < 2 ^ 63"
    and "bucketKey n k w t = bucketKey n' k' w' t'"
  shows "n = n' \<and> k = k' \<and> bucketStart w t = bucketStart w' t'"
proof -
  let ?b = "bucketStart w t" and ?b' = "bucketStart w' t'"
  have r: "- (2 ^ 63) < ?b" "?b < 2 ^ 63" "- (2 ^ 63) < ?b'" "?b' < 2 ^ 63"
    using bucketStart_bounds [OF assms(3,5,6)] bucketStart_bounds [OF assms(4,7,8)] assms(6,8) by linarith+
  have "n @ CHR ''|'' # (k @ ''|'' @ itoa ?b) = n' @ CHR ''|'' # (k' @ ''|'' @ itoa ?b')"
    using assms(9) by (simp add: bucketKey_def)
  with assms(1,2) have n: "n = n'" and "k @ CHR ''|'' # itoa ?b = k' @ CHR ''|'' # itoa ?b'"
    using split_at_first [of "CHR ''|''" n n' "k @ ''|'' @ itoa ?b" "k' @ ''|'' @ itoa ?b'"]
    unfolding bar_free_def by simp_all
  from split_at_last [OF itoa_bar_free [OF r(1,2)] itoa_bar_free [OF r(3,4)] this(2)]
  show ?thesis using n itoa_inject [OF r] by blast
qed

section \<open>The contract\<close>

text \<open>
  At one instant \<open>e\<close>: incrementing a counter answers its new value, which the next lookup finds;
  no other counter changes. The names are those for which storage keys are unambiguous.
\<close>

locale counter_store =
  fixes incr :: "'e \<Rightarrow> string \<Rightarrow> string \<Rightarrow> int \<Rightarrow> 's \<Rightarrow> (store_error + int \<times> int) \<times> 's"
    and get :: "'e \<Rightarrow> string \<Rightarrow> string \<Rightarrow> int \<Rightarrow> 's \<Rightarrow> store_error + int"
    and inv :: "'e \<Rightarrow> 's \<Rightarrow> bool"
    and ok :: "string \<Rightarrow> bool"
  assumes get_total: "inv e s \<Longrightarrow> 0 < w \<Longrightarrow> \<exists>v. get e n k w s = Inr v"
    and incr_total: "inv e s \<Longrightarrow> 0 < w \<Longrightarrow> \<exists>v r. fst (incr e n k w s) = Inr (v, r)"
    and incr_inv: "inv e s \<Longrightarrow> inv e (snd (incr e n k w s))"
    and incr_value: "inv e s \<Longrightarrow> 0 < w \<Longrightarrow> get e n k w s = Inr v \<Longrightarrow>
      fst (incr e n k w s) = Inr (x, r) \<Longrightarrow> x = wrap64 (v + 1)"
    and get_incr: "inv e s \<Longrightarrow> 0 < w \<Longrightarrow> get e n k w s = Inr v \<Longrightarrow>
      get e n k w (snd (incr e n k w s)) = Inr (wrap64 (v + 1))"
    and get_incr_other: "inv e s \<Longrightarrow> ok n \<Longrightarrow> ok n' \<Longrightarrow> n \<noteq> n' \<or> k \<noteq> k' \<Longrightarrow>
      get e n' k' w' (snd (incr e n k w s)) = get e n' k' w' s"
begin

fun incr_all :: "'e \<Rightarrow> (string \<times> string \<times> int) list \<Rightarrow> 's \<Rightarrow> 's" where
  "incr_all e [] s = s"
| "incr_all e ((n, k, w) # xs) s = incr_all e xs (snd (incr e n k w s))"

lemma incr_all_inv: "inv e s \<Longrightarrow> inv e (incr_all e xs s)"
  by (induction xs arbitrary: s) (auto simp: incr_inv)

lemma incr_all_other:
  assumes "inv e s" and "ok n" and "\<forall>(n', k', w') \<in> set xs. ok n' \<and> (n' \<noteq> n \<or> k' \<noteq> k)"
  shows "get e n k w (incr_all e xs s) = get e n k w s"
  using assms
proof (induction xs arbitrary: s)
  case (Cons x xs)
  obtain n' k' w' where x: "x = (n', k', w')" by (cases x)
  with Cons.prems have ne: "ok n'" "n' \<noteq> n \<or> k' \<noteq> k" by auto
  have "get e n k w (snd (incr e n' k' w' s)) = get e n k w s"
    using get_incr_other [OF Cons.prems(1) ne(1) Cons.prems(2)] ne(2) by blast
  with Cons x incr_inv [OF Cons.prems(1), of n' k' w'] show ?case by auto
qed simp

text \<open>One pass over counters with distinct names moves each of them by one.\<close>

lemma incr_all_each:
  assumes "inv e s" and "distinct (map fst xs)" and "\<forall>(n, k, w) \<in> set xs. ok n \<and> 0 < w"
    and "(n, k, w) \<in> set xs" and "get e n k w s = Inr v"
  shows "get e n k w (incr_all e xs s) = Inr (wrap64 (v + 1))"
  using assms
proof (induction xs arbitrary: s)
  case (Cons x xs)
  obtain n' k' w' where x: "x = (n', k', w')" by (cases x)
  have inv': "inv e (snd (incr e n' k' w' s))" using Cons.prems(1) by (rule incr_inv)
  show ?case
  proof (cases "x = (n, k, w)")
    case True
    with x Cons.prems have "get e n k w (snd (incr e n' k' w' s)) = Inr (wrap64 (v + 1))"
      using get_incr [OF Cons.prems(1) _ Cons.prems(5)] by auto
    moreover have "get e n k w (incr_all e xs (snd (incr e n' k' w' s))) = get e n k w (snd (incr e n' k' w' s))"
    proof (rule incr_all_other [OF inv'])
      show "ok n" using Cons.prems(3,4) by auto
      show "\<forall>(n', k', w') \<in> set xs. ok n' \<and> (n' \<noteq> n \<or> k' \<noteq> k)" using Cons.prems(2,3) True by force
    qed
    ultimately show ?thesis using x by simp
  next
    case False
    with Cons.prems x have m: "(n, k, w) \<in> set xs" by auto
    then have "n \<noteq> n'" using Cons.prems(2) x by force
    then have "get e n k w (snd (incr e n' k' w' s)) = Inr v"
      using get_incr_other [OF Cons.prems(1)] Cons.prems(3,4,5) x by auto
    with Cons.IH [OF inv' _ _ m] Cons.prems(2,3) x show ?thesis by simp
  qed
qed simp

end

section \<open>The in-memory store keeps the contract\<close>

definition counter_inv :: "int \<times> int \<Rightarrow> MemCounterStore \<Rightarrow> bool" where
  "counter_inv e s \<longleftrightarrow> \<not> cs_closed s \<and> wf_map (cs_buckets s) \<and> 0 \<le> fst e \<and> fst e < 2 ^ 63"

definition incr_at :: "int \<times> int \<Rightarrow> string \<Rightarrow> string \<Rightarrow> int \<Rightarrow> MemCounterStore \<Rightarrow> (store_error + int \<times> int) \<times> MemCounterStore" where
  "incr_at e = Incr (fst e) (snd e)"

definition get_at :: "int \<times> int \<Rightarrow> string \<Rightarrow> string \<Rightarrow> int \<Rightarrow> MemCounterStore \<Rightarrow> store_error + int" where
  "get_at e = counter_Get (fst e)"

lemma live_bucket_sweep [simp]:
  assumes "wf_map (cs_buckets s)"
  shows "live_bucket now k (counter_sweepLocked now s) = live_bucket now k s"
  using assms by (simp add: live_bucket_def counter_sweepLocked_def map_of_filter split: option.split)

lemma wf_counter_sweep [simp]: "wf_map (cs_buckets s) \<Longrightarrow> wf_map (cs_buckets (counter_sweepLocked now s))"
  by (simp add: counter_sweepLocked_def)

lemma closed_counter_sweep [simp]: "cs_closed (counter_sweepLocked now s) = cs_closed s"
  by (simp add: counter_sweepLocked_def)

lemma live_bucket_update:
  "live_bucket now k (s\<lparr>cs_buckets := AList.update k' b (cs_buckets s)\<rparr>) =
     (if k = k' then (if now > cb_expiresAt b then None else Some b) else live_bucket now k s)"
  by (simp add: live_bucket_def)

definition bucket_for :: "int \<Rightarrow> string \<Rightarrow> int \<Rightarrow> MemCounterStore \<Rightarrow> counterBucket" where
  "bucket_for now k window s =
     (case live_bucket now k s of Some b \<Rightarrow> b | None \<Rightarrow> \<lparr>cb_value = 0, cb_expiresAt = now + window\<rparr>)"

lemma bucket_for_live: "0 < w \<Longrightarrow> \<not> now > cb_expiresAt (bucket_for now k w s)"
  by (auto simp: bucket_for_def live_bucket_def split: option.splits if_splits)

lemma Incr_eq:
  assumes "\<not> cs_closed s" and "0 < w" and "wf_map (cs_buckets s)"
  shows "Incr now now2 n k w s =
    (let key = bucketKey n k w now; b = bucket_for now key w s; b' = b\<lparr>cb_value := wrap64 (cb_value b + 1)\<rparr> in
     (Inr (cb_value b', if cb_expiresAt b' - now2 < 0 then 0 else cb_expiresAt b' - now2),
      (counter_sweepLocked now s)\<lparr>cs_buckets :=
         AList.update key b' (cs_buckets (counter_sweepLocked now s))\<rparr>))"
  using assms by (simp add: Incr_def bucket_for_def Let_def)

lemma get_at_eq:
  "counter_inv e s \<Longrightarrow> 0 < w \<Longrightarrow>
     get_at e n k w s = Inr (cb_value (bucket_for (fst e) (bucketKey n k w (fst e)) w s))"
  by (simp add: get_at_def counter_Get_def counter_inv_def bucket_for_def split: option.split)

lemma live_bucket_Incr:
  assumes "counter_inv e s" and "0 < w"
  shows "live_bucket (fst e) key (snd (incr_at e n k w s)) =
    (if key = bucketKey n k w (fst e) then
       Some ((bucket_for (fst e) key w s)\<lparr>cb_value := wrap64 (cb_value (bucket_for (fst e) key w s) + 1)\<rparr>)
     else live_bucket (fst e) key s)"
  using assms bucket_for_live [OF assms(2), of "fst e" "bucketKey n k w (fst e)" s]
  by (simp add: incr_at_def counter_inv_def Incr_eq Let_def live_bucket_update)

interpretation memc: counter_store incr_at get_at counter_inv bar_free
proof
  fix e :: "int \<times> int" and s :: MemCounterStore and n k n' k' w w' v x r
  assume inv: "counter_inv e s"
  then have c: "\<not> cs_closed s" "wf_map (cs_buckets s)" "0 \<le> fst e" "fst e < 2 ^ 63" by (simp_all add: counter_inv_def)
  show "counter_inv e (snd (incr_at e n k w s))"
    using c by (cases "0 < w") (simp_all add: incr_at_def Incr_eq Incr_def counter_inv_def Let_def)
  show "bar_free n \<Longrightarrow> bar_free n' \<Longrightarrow> n \<noteq> n' \<or> k \<noteq> k' \<Longrightarrow>
      get_at e n' k' w' (snd (incr_at e n k w s)) = get_at e n' k' w' s"
  proof (cases "0 < w \<and> 0 < w'")
    case True
    assume "bar_free n" "bar_free n'" "n \<noteq> n' \<or> k \<noteq> k'"
    with True c have "bucketKey n' k' w' (fst e) \<noteq> bucketKey n k w (fst e)"
      using bucketKey_inject [of n' n w' w "fst e" "fst e" k' k] by auto
    with True c live_bucket_Incr [OF inv, of w "bucketKey n' k' w' (fst e)" n k] show ?thesis
      by (simp add: get_at_def counter_Get_def incr_at_def Incr_eq Let_def)
  next
    case False
    with c show ?thesis
      by (cases "0 < w") (simp_all add: get_at_def counter_Get_def incr_at_def Incr_def Incr_eq Let_def)
  qed
  assume w: "0 < w"
  show "\<exists>v. get_at e n k w s = Inr v" using get_at_eq [OF inv w] by blast
  show "\<exists>v r. fst (incr_at e n k w s) = Inr (v, r)" using c w by (simp add: incr_at_def Incr_eq Let_def)
  assume v: "get_at e n k w s = Inr v"
  then have val: "v = cb_value (bucket_for (fst e) (bucketKey n k w (fst e)) w s)" using get_at_eq [OF inv w] by simp
  show "fst (incr_at e n k w s) = Inr (x, r) \<Longrightarrow> x = wrap64 (v + 1)"
    using c w val by (simp add: incr_at_def Incr_eq Let_def)
  show "get_at e n k w (snd (incr_at e n k w s)) = Inr (wrap64 (v + 1))"
    using live_bucket_Incr [OF inv w, of "bucketKey n k w (fst e)" n k] val c w
    by (simp add: get_at_def counter_Get_def incr_at_def Incr_eq Let_def)
qed

section \<open>Counting over time\<close>

datatype CounterOp = CIncr string string | CReset string string

text \<open>A run, latest operation first; \<open>W\<close> gives the window of each counter.\<close>

fun counter_run :: "(string \<Rightarrow> int) \<Rightarrow> (int \<times> CounterOp) list \<Rightarrow> MemCounterStore" where
  "counter_run W [] = NewCounterStore"
| "counter_run W ((t, CIncr n k) # h) = snd (Incr t t n k (W n) (counter_run W h))"
| "counter_run W ((t, CReset n k) # h) = snd (Reset t n k (W n) (counter_run W h))"

text \<open>The increments of a counter in the window that starts at \<open>b\<close>, since its last reset in it.\<close>

fun window_count :: "(string \<Rightarrow> int) \<Rightarrow> string \<Rightarrow> string \<Rightarrow> int \<Rightarrow> (int \<times> CounterOp) list \<Rightarrow> nat" where
  "window_count W n k b [] = 0"
| "window_count W n k b ((t, CIncr n' k') # h) =
     (if n' = n \<and> k' = k \<and> bucketStart (W n) t = b then Suc (window_count W n k b h) else window_count W n k b h)"
| "window_count W n k b ((t, CReset n' k') # h) =
     (if n' = n \<and> k' = k \<and> bucketStart (W n) t = b then 0 else window_count W n k b h)"

definition op_name :: "CounterOp \<Rightarrow> string" where
  "op_name op = (case op of CIncr n k \<Rightarrow> n | CReset n k \<Rightarrow> n)"

definition run_ok :: "(string \<Rightarrow> int) \<Rightarrow> (int \<times> CounterOp) list \<Rightarrow> bool" where
  "run_ok W h \<longleftrightarrow> sorted (rev (map fst h)) \<and>
     (\<forall>(t, op) \<in> set h. 0 \<le> t \<and> t < 2 ^ 63 \<and> bar_free (op_name op) \<and> 0 < W (op_name op))"

definition bucket_agrees ::
  "(string \<Rightarrow> int) \<Rightarrow> (int \<times> CounterOp) list \<Rightarrow> int \<Rightarrow> string \<Rightarrow> string \<Rightarrow> int \<Rightarrow> counterBucket option \<Rightarrow> bool" where
  "bucket_agrees W h t n k b bo =
     (case bo of
        Some bkt \<Rightarrow> cb_value bkt = int (window_count W n k b h) \<and> b + W n \<le> cb_expiresAt bkt
      | None \<Rightarrow> window_count W n k b h = 0 \<or> b + W n < t)"

definition counts_agree :: "(string \<Rightarrow> int) \<Rightarrow> (int \<times> CounterOp) list \<Rightarrow> int \<Rightarrow> MemCounterStore \<Rightarrow> bool" where
  "counts_agree W h t s \<longleftrightarrow> \<not> cs_closed s \<and> wf_map (cs_buckets s) \<and>
     (\<forall>n k t0. bar_free n \<longrightarrow> 0 < W n \<longrightarrow> 0 \<le> t0 \<longrightarrow> t0 < 2 ^ 63 \<longrightarrow>
        bucket_agrees W h t n k (bucketStart (W n) t0) (map_of (cs_buckets s) (bucketKey n k (W n) t0)))"

lemma window_count_le: "window_count W n k b h \<le> length h"
  by (induction W n k b h rule: window_count.induct) auto

lemma counts_agree_later:
  assumes "counts_agree W h t s" and "t \<le> t'"
  shows "counts_agree W h t' s"
proof -
  have "bucket_agrees W h t n k b bo \<Longrightarrow> bucket_agrees W h t' n k b bo" for n k b bo
    using assms(2) by (auto simp: bucket_agrees_def split: option.splits)
  with assms(1) show ?thesis by (simp add: counts_agree_def)
qed

lemma counts_agree_sweep:
  assumes "counts_agree W h t s" and "t \<le> t'"
  shows "counts_agree W h t' (counter_sweepLocked t' s)"
  unfolding counts_agree_def
proof (intro conjI allI impI)
  show "\<not> cs_closed (counter_sweepLocked t' s)" "wf_map (cs_buckets (counter_sweepLocked t' s))"
    using assms(1) by (simp_all add: counts_agree_def)
  fix n k t0
  assume "bar_free n" "0 < W n" "0 \<le> t0" "t0 < (2 :: int) ^ 63"
  with assms(1) have a: "bucket_agrees W h t n k (bucketStart (W n) t0) (map_of (cs_buckets s) (bucketKey n k (W n) t0))"
    and wf: "wf_map (cs_buckets s)" by (auto simp: counts_agree_def)
  have "map_of (cs_buckets (counter_sweepLocked t' s)) (bucketKey n k (W n) t0) = map_of (cs_buckets s) (bucketKey n k (W n) t0) \<or>
      map_of (cs_buckets (counter_sweepLocked t' s)) (bucketKey n k (W n) t0) = None \<and>
        (\<exists>b. map_of (cs_buckets s) (bucketKey n k (W n) t0) = Some b \<and> t' > cb_expiresAt b)"
    using wf by (auto simp: counter_sweepLocked_def map_of_filter split: option.split)
  with a assms(2) show "bucket_agrees W h t' n k (bucketStart (W n) t0)
      (map_of (cs_buckets (counter_sweepLocked t' s)) (bucketKey n k (W n) t0))"
    by (auto simp: bucket_agrees_def split: option.splits)
qed

lemma current_bucket:
  assumes "counts_agree W h t s" and "bar_free n" and "0 < W n" and "0 \<le> t" and "t < 2 ^ 63"
  shows "cb_value (bucket_for t (bucketKey n k (W n) t) (W n) s) = int (window_count W n k (bucketStart (W n) t) h)"
    and "bucketStart (W n) t + W n \<le> cb_expiresAt (bucket_for t (bucketKey n k (W n) t) (W n) s)"
proof -
  have "bucket_agrees W h t n k (bucketStart (W n) t) (map_of (cs_buckets s) (bucketKey n k (W n) t))"
    using assms by (simp add: counts_agree_def)
  moreover note bucketStart_bounds [OF assms(3-5)]
  ultimately show "cb_value (bucket_for t (bucketKey n k (W n) t) (W n) s) = int (window_count W n k (bucketStart (W n) t) h)"
    and "bucketStart (W n) t + W n \<le> cb_expiresAt (bucket_for t (bucketKey n k (W n) t) (W n) s)"
    by (auto simp: bucket_agrees_def bucket_for_def live_bucket_def split: option.splits if_splits)
qed

lemma counts_agree_put:
  assumes "counts_agree W h t s" and n: "bar_free n" "0 < W n" and t: "0 \<le> t" "t < 2 ^ 63"
    and other: "\<And>n' k' b. n' \<noteq> n \<or> k' \<noteq> k \<or> b \<noteq> bucketStart (W n) t \<Longrightarrow> window_count W n' k' b h' = window_count W n' k' b h"
    and here: "bucket_agrees W h' t n k (bucketStart (W n) t) (map_of m (bucketKey n k (W n) t))"
    and m: "\<And>key. key \<noteq> bucketKey n k (W n) t \<Longrightarrow> map_of m key = map_of (cs_buckets s) key" and wf: "wf_map m"
  shows "counts_agree W h' t (s\<lparr>cs_buckets := m\<rparr>)"
  unfolding counts_agree_def
proof (intro conjI allI impI)
  show "\<not> cs_closed (s\<lparr>cs_buckets := m\<rparr>)" "wf_map (cs_buckets (s\<lparr>cs_buckets := m\<rparr>))"
    using assms(1) wf by (simp_all add: counts_agree_def)
  fix n' k' t0
  assume a: "bar_free n'" "0 < W n'" "0 \<le> t0" "t0 < (2 :: int) ^ 63"
  show "bucket_agrees W h' t n' k' (bucketStart (W n') t0) (map_of (cs_buckets (s\<lparr>cs_buckets := m\<rparr>)) (bucketKey n' k' (W n') t0))"
  proof (cases "bucketKey n' k' (W n') t0 = bucketKey n k (W n) t")
    case True
    from bucketKey_inject [OF a(1) n(1) a(2) n(2) a(3,4) t True] have "n' = n" "k' = k"
      and "bucketStart (W n') t0 = bucketStart (W n) t" by blast+
    with here True show ?thesis by simp
  next
    case False
    then have "n' \<noteq> n \<or> k' \<noteq> k \<or> bucketStart (W n') t0 \<noteq> bucketStart (W n) t"
      by (auto simp: bucketKey_def)
    note w = other [OF this]
    have "bucket_agrees W h t n' k' (bucketStart (W n') t0) (map_of (cs_buckets s) (bucketKey n' k' (W n') t0))"
      using assms(1) a by (simp add: counts_agree_def)
    with w m [OF False] show ?thesis by (simp add: bucket_agrees_def split: option.splits)
  qed
qed

lemma counts_agree_Incr:
  assumes "counts_agree W h t0 s" and "t0 \<le> t" and n: "bar_free n" "0 < W n" and t: "0 \<le> t" "t < 2 ^ 63"
    and len: "int (length h) < 2 ^ 63 - 1"
  shows "counts_agree W ((t, CIncr n k) # h) t (snd (Incr t t2 n k (W n) s))"
proof -
  let ?s = "counter_sweepLocked t s" and ?key = "bucketKey n k (W n) t"
  have ag: "counts_agree W h t ?s" using assms(1,2) by (rule counts_agree_sweep)
  have c: "\<not> cs_closed s" "wf_map (cs_buckets s)" using assms(1) by (simp_all add: counts_agree_def)
  have b: "bucket_for t ?key (W n) ?s = bucket_for t ?key (W n) s" using c(2) by (simp add: bucket_for_def)
  note cur = current_bucket [OF ag n t, of k, unfolded b]
  have "in_int64 (int (window_count W n k (bucketStart (W n) t) h) + 1)"
    using window_count_le [of W n k "bucketStart (W n) t" h] len by (simp add: in_int64_def)
  then have v: "wrap64 (cb_value (bucket_for t ?key (W n) s) + 1) = int (window_count W n k (bucketStart (W n) t) ((t, CIncr n k) # h))"
    using cur(1) by simp
  show ?thesis
    unfolding Incr_eq [OF c(1) n(2) c(2)] Let_def snd_conv
    by (rule counts_agree_put [OF ag n t, where k = k])
       (use v cur(2) c(2) in \<open>auto simp: bucket_agrees_def\<close>)
qed

lemma counts_agree_Reset:
  assumes "counts_agree W h t0 s" and "t0 \<le> t" and n: "bar_free n" "0 < W n" and t: "0 \<le> t" "t < 2 ^ 63"
  shows "counts_agree W ((t, CReset n k) # h) t (snd (Reset t n k (W n) s))"
proof -
  have c: "\<not> cs_closed s" "wf_map (cs_buckets s)" using assms(1) by (simp_all add: counts_agree_def)
  have ag: "counts_agree W h t s" using assms(1,2) by (rule counts_agree_later)
  have "Reset t n k (W n) s = (None, s\<lparr>cs_buckets := AList.delete (bucketKey n k (W n) t) (cs_buckets s)\<rparr>)"
    using c n by (simp add: Reset_def)
  moreover have "counts_agree W ((t, CReset n k) # h) t (s\<lparr>cs_buckets := AList.delete (bucketKey n k (W n) t) (cs_buckets s)\<rparr>)"
    by (rule counts_agree_put [OF ag n t, where k = k]) (use c(2) in \<open>auto simp: bucket_agrees_def\<close>)
  ultimately show ?thesis by simp
qed

lemma counts_agree_run:
  assumes "run_ok W h" and "int (length h) < 2 ^ 63" and "\<forall>x \<in> set h. fst x \<le> t"
  shows "counts_agree W h t (counter_run W h)"
  using assms
proof (induction h arbitrary: t)
  case Nil
  then show ?case by (simp add: counts_agree_def NewCounterStore_def bucket_agrees_def)
next
  case (Cons x h)
  obtain t1 op where x: "x = (t1, op)" by (cases x)
  from Cons.prems(1) x have ok: "run_ok W h" "0 \<le> t1" "t1 < 2 ^ 63" "bar_free (op_name op)" "0 < W (op_name op)"
    and le: "\<forall>y \<in> set h. fst y \<le> t1" by (auto simp: run_ok_def sorted_append)
  from Cons.IH [OF ok(1) _ le] Cons.prems(2) have ag: "counts_agree W h t1 (counter_run W h)" by simp
  have "counts_agree W (x # h) t1 (counter_run W (x # h))"
    using counts_agree_Incr [OF ag order_refl] counts_agree_Reset [OF ag order_refl] ok x Cons.prems(2)
    by (cases op) (simp_all add: op_name_def)
  moreover have "t1 \<le> t" using Cons.prems(3) x by simp
  ultimately show ?case by (rule counts_agree_later)
qed

section \<open>Properties\<close>

text \<open>
  C26: The memory counter counts the current window. After any run of increments and resets of
  any counters at non-decreasing times, reading a counter gives exactly the number of its
  increments in the window of the reading instant since its last reset in that window; sweeping
  never loses a bucket that can still be read, and counters never share a bucket, provided
  counter names contain no vertical bar.
\<close>

theorem counter_counts_window:
  assumes "run_ok W h" and "int (length h) < 2 ^ 63" and "\<forall>x \<in> set h. fst x \<le> t" and "0 \<le> t" and "t < 2 ^ 63"
    and "bar_free n" and "0 < W n"
  shows "counter_Get t n k (W n) (counter_run W h) = Inr (int (window_count W n k (bucketStart (W n) t) h))"
proof -
  have ag: "counts_agree W h t (counter_run W h)" using assms(1-3) by (rule counts_agree_run)
  then have "counter_inv (t, t) (counter_run W h)" using assms(4,5) by (simp add: counts_agree_def counter_inv_def)
  from get_at_eq [OF this assms(7)] current_bucket(1) [OF ag assms(6,7,4,5)] show ?thesis
    by (simp add: get_at_def)
qed

definition demo_history :: "(int \<times> CounterOp) list" where
  "demo_history = [(130, CIncr ''c'' ''10.0.0.1''), (120, CIncr ''c'' ''10.0.0.2''), (110, CIncr ''c'' ''10.0.0.1''),
     (90, CIncr ''c'' ''10.0.0.1'')]"

theorem counter_counts_window_witness:
  "counter_Get 140 ''c'' ''10.0.0.1'' 100 (counter_run (\<lambda>_. 100) demo_history) = Inr 2"
proof -
  have "run_ok (\<lambda>_. 100) demo_history" "int (length demo_history) < 2 ^ 63" "\<forall>x \<in> set demo_history. fst x \<le> 140"
    "bar_free ''c''" "window_count (\<lambda>_. 100) ''c'' ''10.0.0.1'' (bucketStart 100 140) demo_history = 2"
    by code_simp+
  with counter_counts_window [of "\<lambda>_. 100" demo_history 140 "''c''" "''10.0.0.1''"] show ?thesis by simp
qed

end
