(* ===== verification/RiskCounter.thy ===== *)
theory RiskCounter
  imports RiskMatch CounterStore
begin

text \<open>
  \<^verbatim>\<open>internal/risk/counter.go\<close>: which counters a request moves, under which key, and how rules
  read them. The counter store is an argument: \<open>incr\<close> and \<open>get\<close> are its operations at the moment
  of the call. A registry without a store is \<^verbatim>\<open>None\<close> in the place of the operation.
\<close>

type_synonym 's incr_op = "string \<Rightarrow> string \<Rightarrow> int \<Rightarrow> 's \<Rightarrow> (store_error + int \<times> int) \<times> 's"
type_synonym get_op = "string \<Rightarrow> string \<Rightarrow> int \<Rightarrow> store_error + int"

definition counterWhenMatches :: "CounterWhenConfig \<Rightarrow> RequestContext \<Rightarrow> bool" where
  "counterWhenMatches w req =
     (if cw_IsProtected w \<noteq> None \<and> the (cw_IsProtected w) \<noteq> rq_IsProtected req then False
      else if cw_IsRangeRequest w \<noteq> None \<and> the (cw_IsRangeRequest w) \<noteq> rq_IsRangeRequest req then False
      else if cw_PowStatus w \<noteq> [] \<and> cw_PowStatus w \<noteq> rq_PowStatus req then False
      else if cw_PowMode w \<noteq> [] \<and> cw_PowMode w \<noteq> rq_PowMode req then False
      else True)"

definition counterKey :: "string \<Rightarrow> RequestContext \<Rightarrow> string" where
  "counterKey keyField req =
     (if keyField = ''ip'' then rq_IP req
      else if keyField = ''path'' then rq_Path req
      else if keyField = ''ip_path'' then rq_IP req @ ''|'' @ rq_Path req
      else [])"

fun increment_loop ::
  "'s incr_op \<Rightarrow> (string, CounterConfig) gomap \<Rightarrow> RequestContext \<Rightarrow> 's \<Rightarrow> store_error list \<times> 's" where
  "increment_loop incr [] req s = ([], s)"
| "increment_loop incr ((name, d) # ds) req s =
     (if \<not> counterWhenMatches (cc_When d) req then increment_loop incr ds req s
      else if counterKey (cc_Key d) req = [] then increment_loop incr ds req s
      else case incr name (counterKey (cc_Key d) req) (cc_Window d) s of
        (Inl err, s') \<Rightarrow> apfst (Cons err) (increment_loop incr ds req s')
      | (Inr _, s') \<Rightarrow> increment_loop incr ds req s')"

definition IncrementForRequest ::
  "'s incr_op option \<Rightarrow> (string, CounterConfig) gomap \<Rightarrow> RequestContext \<Rightarrow> 's \<Rightarrow> store_error list \<times> 's" where
  "IncrementForRequest store defs req s =
     (case store of None \<Rightarrow> ([], s) | Some incr \<Rightarrow> increment_loop incr defs req s)"

text \<open>The caching resolver: the answer and the cache after it. A failed read counts as zero.\<close>

definition resolver_Get ::
  "get_op \<Rightarrow> (string, CounterConfig) gomap \<Rightarrow> RequestContext \<Rightarrow> string \<Rightarrow> (string, int) gomap \<Rightarrow>
   int \<times> (string, int) gomap" where
  "resolver_Get get defs req name cache =
     (case map_of cache name of
        Some v \<Rightarrow> (v, cache)
      | None \<Rightarrow>
          (case map_of defs name of
             None \<Rightarrow> (0, cache)
           | Some d \<Rightarrow>
               if counterKey (cc_Key d) req = [] then (0, cache)
               else case get name (counterKey (cc_Key d) req) (cc_Window d) of
                 Inl err \<Rightarrow> (0, cache)
               | Inr v \<Rightarrow> (v, AList.update name v cache)))"

definition LookupResolver ::
  "get_op option \<Rightarrow> (string, CounterConfig) gomap \<Rightarrow> RequestContext \<Rightarrow> CounterResolver" where
  "LookupResolver store defs req =
     (case store of
        None \<Rightarrow> NoopCounterResolver
      | Some get \<Rightarrow> (\<lambda>name. fst (resolver_Get get defs req name [])))"

section \<open>Facts\<close>

fun resolver_run ::
  "get_op \<Rightarrow> (string, CounterConfig) gomap \<Rightarrow> RequestContext \<Rightarrow> string list \<Rightarrow> (string, int) gomap \<Rightarrow> int list" where
  "resolver_run get defs req [] cache = []"
| "resolver_run get defs req (n # ns) cache =
     (case resolver_Get get defs req n cache of (v, cache') \<Rightarrow> v # resolver_run get defs req ns cache')"

definition cache_true :: "get_op \<Rightarrow> (string, CounterConfig) gomap \<Rightarrow> RequestContext \<Rightarrow> (string, int) gomap \<Rightarrow> bool" where
  "cache_true get defs req cache \<longleftrightarrow>
     (\<forall>n v. map_of cache n = Some v \<longrightarrow> LookupResolver (Some get) defs req n = v)"

lemma resolver_Get_cached:
  assumes "cache_true get defs req cache"
  shows "fst (resolver_Get get defs req n cache) = LookupResolver (Some get) defs req n \<and>
    cache_true get defs req (snd (resolver_Get get defs req n cache))"
proof (cases "map_of cache n")
  case (Some v)
  with assms show ?thesis by (simp add: resolver_Get_def cache_true_def)
next
  case None
  have eq: "fst (resolver_Get get defs req n cache) = LookupResolver (Some get) defs req n"
    using None by (auto simp: resolver_Get_def LookupResolver_def split: option.split sum.split)
  moreover have "map_of (snd (resolver_Get get defs req n cache)) m =
      (if m = n \<and> map_of (snd (resolver_Get get defs req n cache)) n \<noteq> None
       then Some (fst (resolver_Get get defs req n cache)) else map_of cache m)" for m
    using None by (auto simp: resolver_Get_def split: option.split sum.split)
  then have "cache_true get defs req (snd (resolver_Get get defs req n cache))"
    using assms eq unfolding cache_true_def by (metis option.inject)
  ultimately show ?thesis by blast
qed

text \<open>The counters a request moves, with their keys and windows.\<close>

definition moved :: "(string, CounterConfig) gomap \<Rightarrow> RequestContext \<Rightarrow> (string \<times> string \<times> int) list" where
  "moved defs req =
     map (\<lambda>(n, d). (n, counterKey (cc_Key d) req, cc_Window d))
       (filter (\<lambda>(n, d). counterWhenMatches (cc_When d) req \<and> counterKey (cc_Key d) req \<noteq> []) defs)"

lemma increment_loop_moves:
  "snd (increment_loop (incr_at e) defs req s) = memc.incr_all e (moved defs req) s"
proof (induction defs arbitrary: s)
  case Nil
  then show ?case by (simp add: moved_def)
next
  case (Cons x defs)
  obtain n d where x: "x = (n, d)" by (cases x)
  obtain r s' where "incr_at e n (counterKey (cc_Key d) req) (cc_Window d) s = (r, s')"
    by (cases "incr_at e n (counterKey (cc_Key d) req) (cc_Window d) s")
  with x Cons show ?case by (cases r) (auto simp: moved_def)
qed

lemma moved_distinct: "wf_map defs \<Longrightarrow> distinct (map fst (moved defs req))"
  unfolding moved_def wf_map_def
  by (induction defs) (auto simp: case_prod_beta)

lemma moved_in:
  "(n, k, w) \<in> set (moved defs req) \<longleftrightarrow>
     (\<exists>d. (n, d) \<in> set defs \<and> counterWhenMatches (cc_When d) req \<and> counterKey (cc_Key d) req \<noteq> [] \<and>
        k = counterKey (cc_Key d) req \<and> w = cc_Window d)"
  by (force simp: moved_def)

text \<open>
  When a counter is to count a request under a key: each field of its condition that is set holds,
  and the key is the part of the request that the configuration names, if there is one.
\<close>

definition counts_under :: "CounterConfig \<Rightarrow> RequestContext \<Rightarrow> string \<Rightarrow> bool" where
  "counts_under d req k \<longleftrightarrow>
     cw_IsProtected (cc_When d) \<in> {None, Some (rq_IsProtected req)} \<and>
     cw_IsRangeRequest (cc_When d) \<in> {None, Some (rq_IsRangeRequest req)} \<and>
     cw_PowStatus (cc_When d) \<in> {[], rq_PowStatus req} \<and> cw_PowMode (cc_When d) \<in> {[], rq_PowMode req} \<and>
     k \<noteq> [] \<and> (cc_Key d, k) \<in> {(''ip'', rq_IP req), (''path'', rq_Path req), (''ip_path'', rq_IP req @ ''|'' @ rq_Path req)}"

lemma counts_under_iff:
  "counts_under d req k \<longleftrightarrow> counterWhenMatches (cc_When d) req \<and> counterKey (cc_Key d) req \<noteq> [] \<and> k = counterKey (cc_Key d) req"
  by (cases "cw_IsProtected (cc_When d)"; cases "cw_IsRangeRequest (cc_When d)")
    (auto simp: counts_under_def counterWhenMatches_def counterKey_def split: if_splits)

lemma moved_counts: "(n, k, w) \<in> set (moved defs req) \<longleftrightarrow> (\<exists>d. (n, d) \<in> set defs \<and> counts_under d req k \<and> w = cc_Window d)"
  by (auto simp: moved_in counts_under_iff)

section \<open>Properties\<close>

text \<open>
  C27: A request moves each counter at most once and only the ones it should. In the memory
  store, a counter that is to count the request goes up by exactly one under the key of the
  request. Nothing else changes: neither another counter, configured or not, nor the same one under
  another key or when the request has no key for it.
\<close>

theorem increments_exactly_once:
  assumes "counter_inv e s" and "wf_map defs" and "\<forall>(n, d) \<in> set defs. bar_free n \<and> 0 < cc_Window d" and "bar_free name"
  shows "(\<forall>d v. (name, d) \<in> set defs \<longrightarrow> counts_under d req k \<longrightarrow> get_at e name k (cc_Window d) s = Inr v \<longrightarrow>
      get_at e name k (cc_Window d) (snd (IncrementForRequest (Some (incr_at e)) defs req s)) = Inr (wrap64 (v + 1))) \<and>
    ((\<forall>d. (name, d) \<in> set defs \<longrightarrow> \<not> counts_under d req k) \<longrightarrow>
      (\<forall>w. get_at e name k w (snd (IncrementForRequest (Some (incr_at e)) defs req s)) = get_at e name k w s))"
proof (intro conjI impI allI)
  have run: "snd (IncrementForRequest (Some (incr_at e)) defs req s) = memc.incr_all e (moved defs req) s"
    by (simp add: IncrementForRequest_def increment_loop_moves)
  have ok: "\<forall>(n, k, w) \<in> set (moved defs req). bar_free n \<and> 0 < w" using assms(3) by (fastforce simp: moved_in)
  show "get_at e name k (cc_Window d) (snd (IncrementForRequest (Some (incr_at e)) defs req s)) = Inr (wrap64 (v + 1))"
    if "(name, d) \<in> set defs" "counts_under d req k" "get_at e name k (cc_Window d) s = Inr v" for d v
  proof -
    have "(name, k, cc_Window d) \<in> set (moved defs req)" using that by (auto simp: moved_counts)
    from memc.incr_all_each [OF assms(1) moved_distinct [OF assms(2)] ok this that(3)] run show ?thesis by simp
  qed
  show "get_at e name k w (snd (IncrementForRequest (Some (incr_at e)) defs req s)) = get_at e name k w s"
    if "\<forall>d. (name, d) \<in> set defs \<longrightarrow> \<not> counts_under d req k" for w
  proof -
    have "\<forall>(n', k', w') \<in> set (moved defs req). bar_free n' \<and> (n' \<noteq> name \<or> k' \<noteq> k)"
      using ok that by (auto simp: moved_counts)
    from memc.incr_all_other [OF assms(1,4) this] run show ?thesis by simp
  qed
qed

definition demo_counter :: CounterConfig where
  "demo_counter = \<lparr>cc_Key = ''ip'', cc_Window = Minute,
     cc_When = \<lparr>cw_IsProtected = Some True, cw_IsRangeRequest = None, cw_PowStatus = [], cw_PowMode = []\<rparr>,
     cc_Storage = []\<rparr>"

theorem increments_exactly_once_witness:
  "get_at (5, 5) ''c'' ''10.1.2.3'' Minute
     (snd (IncrementForRequest (Some (incr_at (5, 5))) [(''c'', demo_counter)] demo_request NewCounterStore)) = Inr 1 \<and>
   get_at (5, 5) ''c'' [] Minute
     (snd (IncrementForRequest (Some (incr_at (5, 5))) [(''c'', demo_counter)] (demo_request\<lparr>rq_IP := []\<rparr>) NewCounterStore)) = Inr 0"
proof -
  have inv: "counter_inv (5, 5) NewCounterStore" by (simp add: counter_inv_def NewCounterStore_def)
  have get: "get_at (5, 5) ''c'' ''10.1.2.3'' (cc_Window demo_counter) NewCounterStore = Inr 0" "get_at (5, 5) ''c'' [] Minute NewCounterStore = Inr 0"
    and b: "bar_free ''c''" "0 < cc_Window demo_counter" and c: "counts_under demo_counter demo_request ''10.1.2.3''" by code_simp+
  have none: "\<not> counts_under demo_counter (demo_request\<lparr>rq_IP := []\<rparr>) []" by (simp add: counts_under_def)
  have "wrap64 (0 + 1) = 1" by (simp add: in_int64_def)
  moreover have "cc_Window demo_counter = Minute" by (simp add: demo_counter_def)
  ultimately show ?thesis
    using increments_exactly_once [OF inv, of "[(''c'', demo_counter)]" "''c''" demo_request "''10.1.2.3''"]
      increments_exactly_once [OF inv, of "[(''c'', demo_counter)]" "''c''" "demo_request\<lparr>rq_IP := []\<rparr>" "[]"] get b c none
    by (simp add: wf_map_def)
qed

text \<open>
  Caching is not observable. Whatever counters the rules of one evaluation ask for and in
  whatever order, each answer of the caching resolver is the one an uncached read gives: the
  stored value, and zero for an unknown counter, a counter without a key and a failing store.
\<close>

theorem resolver_cache_transparent:
  "resolver_run get defs req ns [] = map (LookupResolver (Some get) defs req) ns"
proof -
  have "cache_true get defs req cache \<Longrightarrow>
      resolver_run get defs req ns cache = map (LookupResolver (Some get) defs req) ns" for cache
  proof (induction ns arbitrary: cache)
    case (Cons n ns)
    with resolver_Get_cached [OF Cons.prems, of n] show ?case by (simp add: case_prod_beta)
  qed simp
  then show ?thesis by (simp add: cache_true_def)
qed

end
