(* ===== verification/PathMatcher.thy ===== *)
theory PathMatcher
  imports Config
begin

text \<open>
  Package \<^verbatim>\<open>internal/matcher\<close>: path normalisation, the extension and regular-expression
  matchers and their combinations, and the two places that assemble the service's matcher from
  the configuration (\<^verbatim>\<open>app.buildProtectedMatcher\<close>, \<^verbatim>\<open>app.buildExcludedMatcher\<close> and
  \<^verbatim>\<open>buildMatcher\<close> of the command-line tool).

  The types that implement the interface \<^verbatim>\<open>Matcher\<close> are the constructors of one datatype. A
  compiled regular expression is the predicate it decides; a nil interface value is \<^verbatim>\<open>None\<close>.
\<close>

section \<open>Normalisation (normalize.go)\<close>

definition nul :: char where "nul = CHR 0x00"

definition trim_cutset :: "char \<Rightarrow> bool" where
  "trim_cutset c \<longleftrightarrow> c \<in> {CHR ''/'', CHR ''.'', CHR '' '', CHR 0x09}"

definition unescape_or_keep :: "string \<Rightarrow> string" where
  "unescape_or_keep path = (case PathUnescape path of Some decoded \<Rightarrow> decoded | None \<Rightarrow> path)"

definition cut_at_nul :: "string \<Rightarrow> string" where
  "cut_at_nul path = (case IndexByte path nul of Some i \<Rightarrow> take i path | None \<Rightarrow> path)"

definition cut_path_params :: "string \<Rightarrow> string" where
  "cut_path_params path =
     (case LastIndexByte path (CHR ''/'') of
        Some i \<Rightarrow>
          (case IndexByte (drop i path) (CHR '';'') of Some j \<Rightarrow> take (i + j) path | None \<Rightarrow> path)
      | None \<Rightarrow>
          (case IndexByte path (CHR '';'') of Some j \<Rightarrow> take j path | None \<Rightarrow> path))"

definition NormalizePath :: "string \<Rightarrow> string" where
  "NormalizePath path =
     (if path = [] then []
      else trim_right trim_cutset (cut_path_params (cut_at_nul (unescape_or_keep path))))"

section \<open>Matchers (extension.go, regex.go, composite.go)\<close>

datatype Matcher =
    ExtensionMatcher "string list"
  | RegexMatcher "(string \<Rightarrow> bool) list"
  | Composite "Matcher option" "Matcher option"
  | NoopMatcher
  | Union Matcher Matcher
  | AlwaysMatcher

definition norm_extension :: "golib \<Rightarrow> string \<Rightarrow> string" where
  "norm_extension L e = TrimSpace L (ToLower L e)"

definition dotted :: "string \<Rightarrow> string" where
  "dotted e = (if HasPrefix e ''.'' then e else ''.'' @ e)"

text \<open>The set \<^verbatim>\<open>extSet\<close> holds exactly the members of \<^verbatim>\<open>exts\<close>; only the list is kept.\<close>

definition add_extension :: "golib \<Rightarrow> string list \<Rightarrow> string \<Rightarrow> string list" where
  "add_extension L exts e0 =
     (let e = norm_extension L e0 in
      if e = [] then exts
      else let e = dotted e in if e \<in> set exts then exts else exts @ [e])"

definition NewExtensionMatcher :: "golib \<Rightarrow> string list \<Rightarrow> Matcher" where
  "NewExtensionMatcher L extensions = ExtensionMatcher (foldl (add_extension L) [] extensions)"

fun Extensions :: "Matcher \<Rightarrow> string list" where
  "Extensions (ExtensionMatcher exts) = exts"
| "Extensions _ = []"

text \<open>The error of \<^verbatim>\<open>NewRegexMatcher\<close> carries the patterns that do not compile.\<close>

fun compile_patterns ::
  "golib \<Rightarrow> string list \<Rightarrow> (string \<Rightarrow> bool) list \<Rightarrow> string list \<Rightarrow> (string \<Rightarrow> bool) list \<times> string list" where
  "compile_patterns L [] res errs = (res, errs)"
| "compile_patterns L (p # ps) res errs =
     (if p = [] then compile_patterns L ps res errs
      else case regexp_Compile L p of
        None \<Rightarrow> compile_patterns L ps res (errs @ [p])
      | Some re \<Rightarrow> compile_patterns L ps (res @ [re]) errs)"

definition NewRegexMatcher :: "golib \<Rightarrow> string list \<Rightarrow> string list + Matcher" where
  "NewRegexMatcher L patterns =
     (case compile_patterns L patterns [] [] of
        (res, errs) \<Rightarrow> if errs \<noteq> [] then Inl errs else Inr (RegexMatcher res))"

text \<open>\<^verbatim>\<open>ShouldProtect\<close> of the single matchers, then of the interface.\<close>

definition extension_ShouldProtect :: "golib \<Rightarrow> string list \<Rightarrow> string \<Rightarrow> bool" where
  [simp]: "extension_ShouldProtect L exts path =
     (if path = [] then False else list_ex (\<lambda>e. HasSuffix (ToLower L path) e) exts)"

definition regex_ShouldProtect :: "(string \<Rightarrow> bool) list \<Rightarrow> string \<Rightarrow> bool" where
  [simp]: "regex_ShouldProtect patterns path =
     (if path = [] then False else list_ex (\<lambda>re. re path) patterns)"

fun ShouldProtect :: "golib \<Rightarrow> Matcher \<Rightarrow> string \<Rightarrow> bool" where
  "ShouldProtect L (ExtensionMatcher exts) path = extension_ShouldProtect L exts path"
| "ShouldProtect L (RegexMatcher patterns) path = regex_ShouldProtect patterns path"
| "ShouldProtect L (Composite protected excluded) path =
     (case protected of
        None \<Rightarrow> False
      | Some p \<Rightarrow>
          if \<not> ShouldProtect L p (NormalizePath path) then False
          else (case excluded of
                  None \<Rightarrow> True
                | Some e \<Rightarrow> \<not> ShouldProtect L e (NormalizePath path)))"
| "ShouldProtect L NoopMatcher path = False"
| "ShouldProtect L (Union a b) path = (ShouldProtect L a path \<or> ShouldProtect L b path)"
| "ShouldProtect L AlwaysMatcher path = True"

section \<open>Assembly from the configuration (app.go, cmd/garmr/main.go)\<close>

definition buildProtectedMatcher :: "golib \<Rightarrow> Config \<Rightarrow> string list + Matcher" where
  "buildProtectedMatcher L cfg =
     (let ext = NewExtensionMatcher L (prot_ProtectedExtensions (cfg_Protection cfg)) in
      if prot_ProtectedPaths (cfg_Protection cfg) = [] then Inr ext
      else case NewRegexMatcher L (prot_ProtectedPaths (cfg_Protection cfg)) of
        Inl e \<Rightarrow> Inl e
      | Inr regex \<Rightarrow> Inr (Union ext regex))"

definition buildExcludedMatcher :: "golib \<Rightarrow> Config \<Rightarrow> string list + Matcher option" where
  "buildExcludedMatcher L cfg =
     (if prot_ExcludedPaths (cfg_Protection cfg) = [] then Inr None
      else case NewRegexMatcher L (prot_ExcludedPaths (cfg_Protection cfg)) of
        Inl e \<Rightarrow> Inl e
      | Inr regex \<Rightarrow> Inr (Some regex))"

text \<open>How \<^verbatim>\<open>app.New\<close> puts the two together.\<close>

definition app_matcher :: "golib \<Rightarrow> Config \<Rightarrow> string list + Matcher" where
  "app_matcher L cfg =
     (case buildProtectedMatcher L cfg of
        Inl e \<Rightarrow> Inl e
      | Inr protected \<Rightarrow>
          (case buildExcludedMatcher L cfg of
             Inl e \<Rightarrow> Inl e
           | Inr excluded \<Rightarrow> Inr (Composite (Some protected) excluded)))"

text \<open>The command-line tool exits with the error instead of returning it.\<close>

definition buildMatcher :: "golib \<Rightarrow> Config \<Rightarrow> string list + Matcher" where
  "buildMatcher L cfg =
     (let ext = NewExtensionMatcher L (prot_ProtectedExtensions (cfg_Protection cfg)) in
      case (if prot_ProtectedPaths (cfg_Protection cfg) \<noteq> []
            then (case NewRegexMatcher L (prot_ProtectedPaths (cfg_Protection cfg)) of
                    Inl e \<Rightarrow> Inl e
                  | Inr regex \<Rightarrow> Inr (Union ext regex))
            else Inr ext) of
        Inl e \<Rightarrow> Inl e
      | Inr protected \<Rightarrow>
          (case (if prot_ExcludedPaths (cfg_Protection cfg) \<noteq> []
                 then (case NewRegexMatcher L (prot_ExcludedPaths (cfg_Protection cfg)) of
                         Inl e \<Rightarrow> Inl e
                       | Inr regex \<Rightarrow> Inr (Some regex))
                 else Inr None) of
             Inl e \<Rightarrow> Inl e
           | Inr excluded \<Rightarrow> Inr (Composite (Some protected) excluded)))"

section \<open>Facts\<close>

subsection \<open>Index operations\<close>

text \<open>The last segment: what follows the last slash, the whole path when there is none.\<close>

definition last_segment :: "string \<Rightarrow> string" where
  "last_segment s = rev (takeWhile (\<lambda>c. c \<noteq> CHR ''/'') (rev s))"

lemma slashfree_takeWhile:
  "CHR ''/'' \<notin> set u \<Longrightarrow> takeWhile (\<lambda>c. c \<noteq> CHR ''/'') (rev u @ s) = rev u @ takeWhile (\<lambda>c. c \<noteq> CHR ''/'') s"
  by (rule takeWhile_append2) auto

lemma last_segment_cases:
  obtains "CHR ''/'' \<notin> set s" "last_segment s = s"
  | d where "s = d @ CHR ''/'' # last_segment s" "CHR ''/'' \<notin> set (last_segment s)"
proof (cases "CHR ''/'' \<in> set s")
  case False
  from slashfree_takeWhile [OF this, of "[]"] have "takeWhile (\<lambda>c. c \<noteq> CHR ''/'') (rev s) = rev s"
    by (simp only: append_Nil2 takeWhile.simps)
  then have "last_segment s = s" by (simp only: last_segment_def rev_rev_ident)
  with False that(1) show ?thesis by blast
next
  case True
  then obtain d t where s: "s = d @ CHR ''/'' # t" and t: "CHR ''/'' \<notin> set t"
    by (meson split_list_last)
  then have "last_segment s = t"
    using slashfree_takeWhile [OF t, of "CHR ''/'' # rev d"] by (simp add: last_segment_def)
  with s t that(2) [of d] show ?thesis by simp
qed

lemma cut_path_params_append:
  assumes "CHR '';'' \<notin> set (last_segment a)" and "CHR ''/'' \<notin> set t"
  shows "cut_path_params (a @ CHR '';'' # t) = a"
proof (cases rule: last_segment_cases [of a])
  case 1
  with assms show ?thesis
    by (simp add: cut_path_params_def LastIndexByte_None_iff [THEN iffD2] IndexByte_append)
next
  case (2 d)
  define g where "g = last_segment a"
  from 2 have a: "a = d @ CHR ''/'' # g" and g: "CHR ''/'' \<notin> set g" by (simp_all add: g_def)
  have "LastIndexByte (d @ CHR ''/'' # (g @ CHR '';'' # t)) (CHR ''/'') = Some (length d)"
    using g assms(2) by (intro LastIndexByte_append) auto
  moreover have "IndexByte ((CHR ''/'' # g) @ CHR '';'' # t) (CHR '';'') = Some (length (CHR ''/'' # g))"
    using assms(1) by (intro IndexByte_append) (simp add: g_def)
  ultimately show ?thesis using a by (simp add: cut_path_params_def)
qed

lemma cut_path_params_id:
  assumes "CHR '';'' \<notin> set (last_segment a)"
  shows "cut_path_params a = a"
proof (cases rule: last_segment_cases [of a])
  case 1
  with assms show ?thesis
    by (simp add: cut_path_params_def LastIndexByte_None_iff [THEN iffD2] IndexByte_None_iff [THEN iffD2])
next
  case (2 d)
  define g where "g = last_segment a"
  from 2 have a: "a = d @ CHR ''/'' # g" and g: "CHR ''/'' \<notin> set g" by (simp_all add: g_def)
  have "IndexByte (CHR ''/'' # g) (CHR '';'') = None"
    using assms by (simp add: IndexByte_None_iff g_def)
  with a LastIndexByte_append [OF g, of d] show ?thesis by (simp add: cut_path_params_def)
qed

lemma cut_at_nul_id: "nul \<notin> set s \<Longrightarrow> cut_at_nul s = s"
  by (simp add: cut_at_nul_def IndexByte_None_iff [THEN iffD2])

lemma cut_at_nul_append: "nul \<notin> set s \<Longrightarrow> cut_at_nul (s @ nul # t) = s"
  by (simp add: cut_at_nul_def IndexByte_append)

lemma trim_right_append:
  assumes "list_all P u" and "s \<noteq> []" and "\<not> P (last s)"
  shows "trim_right P (s @ u) = s"
proof -
  have "dropWhile P (rev u @ rev s) = dropWhile P (rev s)"
    using assms(1) by (intro dropWhile_append2) (simp add: list_all_iff)
  moreover have "dropWhile P (rev s) = rev s"
    using assms(2,3) by (cases s rule: rev_cases) auto
  ultimately show ?thesis by (simp add: trim_right_def)
qed

lemma last_segment_append_slashfree: "CHR ''/'' \<notin> set u \<Longrightarrow> last_segment (a @ u) = last_segment a @ u"
  unfolding last_segment_def by (simp add: slashfree_takeWhile)

lemma last_segment_subset: "set (last_segment (a @ u)) \<subseteq> set (last_segment a) \<union> set u"
proof (cases "CHR ''/'' \<in> set u")
  case True
  then have "last_segment (a @ u) = last_segment u"
    unfolding last_segment_def by (simp add: takeWhile_append1)
  then show ?thesis
    by (metis (no_types, lifting) last_segment_def le_supI2 set_rev set_takeWhileD subsetI)
qed (simp add: last_segment_append_slashfree)

subsection \<open>Extensions\<close>

lemma add_extension_set:
  "set (add_extension L exts e) =
     set exts \<union> (if norm_extension L e = [] then {} else {dotted (norm_extension L e)})"
  by (auto simp: add_extension_def Let_def)

lemma extensions_set:
  "set (foldl (add_extension L) acc es) =
     set acc \<union> {dotted (norm_extension L e) | e. e \<in> set es \<and> norm_extension L e \<noteq> []}"
  by (induction es arbitrary: acc) (auto simp: add_extension_set split: if_splits)

lemma extensions_distinct: "distinct acc \<Longrightarrow> distinct (foldl (add_extension L) acc es)"
  by (induction es arbitrary: acc) (auto simp: add_extension_def Let_def)

lemma dotted_prefix: "HasPrefix (dotted e) ''.''"
  by (simp add: dotted_def HasPrefix_def)

subsection \<open>Regular expressions\<close>

definition compiles :: "golib \<Rightarrow> string list \<Rightarrow> bool" where
  "compiles L ps \<longleftrightarrow> (\<forall>p \<in> set ps. p \<noteq> [] \<longrightarrow> regexp_Compile L p \<noteq> None)"

definition matches_any :: "golib \<Rightarrow> string list \<Rightarrow> string \<Rightarrow> bool" where
  "matches_any L ps path \<longleftrightarrow>
     path \<noteq> [] \<and> (\<exists>p \<in> set ps. p \<noteq> [] \<and> (\<exists>re. regexp_Compile L p = Some re \<and> re path))"

lemma compile_patterns_errs:
  "snd (compile_patterns L ps res errs) = errs @ filter (\<lambda>p. p \<noteq> [] \<and> regexp_Compile L p = None) ps"
  by (induction ps arbitrary: res errs) (auto split: option.split)

lemma compile_patterns_res:
  "fst (compile_patterns L ps res errs) =
     res @ map (\<lambda>p. the (regexp_Compile L p)) (filter (\<lambda>p. p \<noteq> [] \<and> regexp_Compile L p \<noteq> None) ps)"
  by (induction ps arbitrary: res errs) (auto split: option.split)

lemma NewRegexMatcher_Inl:
  "\<not> compiles L ps \<Longrightarrow>
     NewRegexMatcher L ps = Inl (filter (\<lambda>p. p \<noteq> [] \<and> regexp_Compile L p = None) ps)"
  using compile_patterns_errs [of L ps "[]" "[]"]
  by (cases "compile_patterns L ps [] []") (auto simp: NewRegexMatcher_def compiles_def filter_empty_conv)

lemma NewRegexMatcher_Inr:
  assumes "compiles L ps"
  shows "NewRegexMatcher L ps =
    Inr (RegexMatcher (map (\<lambda>p. the (regexp_Compile L p)) (filter (\<lambda>p. p \<noteq> []) ps)))"
proof -
  have f: "filter (\<lambda>p. p \<noteq> [] \<and> regexp_Compile L p \<noteq> None) ps = filter (\<lambda>p. p \<noteq> []) ps"
    using assms by (intro filter_cong) (auto simp: compiles_def)
  have e: "filter (\<lambda>p. p \<noteq> [] \<and> regexp_Compile L p = None) ps = []"
    using assms by (auto simp: compiles_def filter_empty_conv)
  show ?thesis
    using compile_patterns_errs [of L ps "[]" "[]"] compile_patterns_res [of L ps "[]" "[]"] f e
    by (cases "compile_patterns L ps [] []") (simp add: NewRegexMatcher_def)
qed

lemma regex_matches:
  assumes "compiles L ps"
  shows "ShouldProtect L (RegexMatcher (map (\<lambda>p. the (regexp_Compile L p)) (filter (\<lambda>p. p \<noteq> []) ps))) path
    \<longleftrightarrow> matches_any L ps path"
proof -
  have "(\<exists>p \<in> set ps. p \<noteq> [] \<and> the (regexp_Compile L p) path) \<longleftrightarrow>
      (\<exists>p \<in> set ps. p \<noteq> [] \<and> (\<exists>re. regexp_Compile L p = Some re \<and> re path))"
    using assms unfolding compiles_def by (metis option.sel option.exhaust_sel)
  then show ?thesis by (auto simp: matches_any_def list_ex_iff)
qed

section \<open>Properties\<close>

text \<open>A path that names a file plainly: no NUL byte, no parameter in its last segment, no trailing
  byte of the cut set.\<close>

definition plain_path :: "string \<Rightarrow> bool" where
  "plain_path p \<longleftrightarrow> p \<noteq> [] \<and> nul \<notin> set p \<and> CHR '';'' \<notin> set (last_segment p) \<and> \<not> trim_cutset (last p)"

text \<open>What a client can append: bytes of the cut set, then optionally a path parameter without a
  slash, then optionally a NUL byte with anything after it.\<close>

definition evading_tail :: "string \<Rightarrow> string option \<Rightarrow> string option \<Rightarrow> string" where
  "evading_tail u params rest =
     u @ (case params of None \<Rightarrow> [] | Some t \<Rightarrow> CHR '';'' # t) @ (case rest of None \<Rightarrow> [] | Some r \<Rightarrow> nul # r)"

definition evading_ok :: "string \<Rightarrow> string option \<Rightarrow> bool" where
  "evading_ok u params \<longleftrightarrow> list_all trim_cutset u \<and>
     (case params of None \<Rightarrow> True | Some t \<Rightarrow> CHR ''/'' \<notin> set t \<and> nul \<notin> set t)"

lemma trim_cutset_not: "list_all trim_cutset u \<Longrightarrow> nul \<notin> set u \<and> CHR '';'' \<notin> set u"
proof -
  have "\<not> trim_cutset nul" and "\<not> trim_cutset (CHR '';'')" by code_simp+
  then show "list_all trim_cutset u \<Longrightarrow> ?thesis" by (auto simp: list_all_iff)
qed

lemma NormalizePath_evading:
  assumes "plain_path p" and "evading_ok u params" and "PathUnescape q = Some (p @ evading_tail u params rest)"
  shows "NormalizePath q = p"
proof -
  let ?par = "case params of None \<Rightarrow> [] | Some t \<Rightarrow> CHR '';'' # t"
  have q: "q \<noteq> []" using assms(1,3) by (auto simp: plain_path_def PathUnescape_def)
  have u: "nul \<notin> set u" "CHR '';'' \<notin> set u"
    using assms(2) trim_cutset_not by (auto simp: evading_ok_def)
  have n: "nul \<notin> set (p @ u @ ?par)"
    using assms(1,2) u by (auto simp: plain_path_def evading_ok_def nul_def split: option.split)
  have "cut_at_nul (unescape_or_keep q) = p @ u @ ?par"
    using assms(3) cut_at_nul_id [OF n] cut_at_nul_append [OF n]
    by (cases rest) (simp_all add: unescape_or_keep_def evading_tail_def)
  moreover have seg: "CHR '';'' \<notin> set (last_segment (p @ u))"
    using last_segment_subset [of p u] assms(1) u by (auto simp: plain_path_def)
  have "cut_path_params (p @ u @ ?par) = p @ u"
    using cut_path_params_append [OF seg] cut_path_params_id [OF seg] assms(2)
    by (cases params) (simp_all add: evading_ok_def)
  moreover have "trim_right trim_cutset (p @ u) = p"
    using assms(1,2) by (intro trim_right_append) (auto simp: plain_path_def evading_ok_def)
  ultimately show ?thesis using q by (simp add: NormalizePath_def)
qed

text \<open>
  C23: The tails that \<^verbatim>\<open>normalize.go\<close> lists cannot hide a protected file. Take any plain path,
  any tail made of trailing slashes, dots, spaces and tabs, then a path parameter, then a NUL
  byte with anything behind it, and any percent-encoding of the result: the composite matcher
  decides on the plain path itself.
\<close>

theorem evasion_is_normalised_away:
  assumes "plain_path p" and "evading_ok u params" and "PathUnescape q = Some (p @ evading_tail u params rest)"
  shows "ShouldProtect L (Composite (Some m) e) q \<longleftrightarrow>
    ShouldProtect L m p \<and> (case e of None \<Rightarrow> True | Some x \<Rightarrow> \<not> ShouldProtect L x p)"
  using NormalizePath_evading [OF assms] by (simp split: option.split)

theorem evasion_is_normalised_away_witness:
  "ShouldProtect demo_lib (Composite (Some (NewExtensionMatcher demo_lib [''ISO''])) None)
     (''/d/ubuntu%2Eiso/. ;x=1'' @ [nul] @ ''.txt'')"
proof -
  have "plain_path ''/d/ubuntu.iso''" and "evading_ok ''/. '' (Some ''x=1'')"
    and "PathUnescape (''/d/ubuntu%2Eiso/. ;x=1'' @ [nul] @ ''.txt'') =
      Some (''/d/ubuntu.iso'' @ evading_tail ''/. '' (Some ''x=1'') (Some ''.txt''))"
    and "ShouldProtect demo_lib (NewExtensionMatcher demo_lib [''ISO'']) ''/d/ubuntu.iso''"
    by code_simp+
  with evasion_is_normalised_away show ?thesis by simp
qed

text \<open>The order of the two last steps leaves a gap: a slash after a parameter hides it.\<close>

lemma param_then_slash_evades:
  "NormalizePath ''/d/ubuntu.iso;x=1/'' = ''/d/ubuntu.iso;x=1''"
  "\<not> ShouldProtect demo_lib (Composite (Some (NewExtensionMatcher demo_lib [''.iso''])) None)
     ''/d/ubuntu.iso;x=1/''"
  "ShouldProtect demo_lib (Composite (Some (NewExtensionMatcher demo_lib [''.iso''])) None)
     ''/d/ubuntu.iso''"
  by code_simp+


definition has_extension :: "golib \<Rightarrow> string list \<Rightarrow> string \<Rightarrow> bool" where
  "has_extension L exts path \<longleftrightarrow> path \<noteq> [] \<and>
     (\<exists>e \<in> set exts. norm_extension L e \<noteq> [] \<and> HasSuffix (ToLower L path) (dotted (norm_extension L e)))"

lemma extension_matches:
  "ShouldProtect L (NewExtensionMatcher L exts) path \<longleftrightarrow> has_extension L exts path"
  by (auto simp: NewExtensionMatcher_def has_extension_def list_ex_iff extensions_set)

lemma buildMatcher_eq_app: "buildMatcher L cfg = app_matcher L cfg"
  by (simp add: buildMatcher_def app_matcher_def buildProtectedMatcher_def buildExcludedMatcher_def
      Let_def split: sum.split)

definition protection_spec :: "golib \<Rightarrow> ProtectionConfig \<Rightarrow> string \<Rightarrow> bool" where
  "protection_spec L pc path \<longleftrightarrow>
     (let n = NormalizePath path in
      (has_extension L (prot_ProtectedExtensions pc) n \<or> matches_any L (prot_ProtectedPaths pc) n) \<and>
      \<not> matches_any L (prot_ExcludedPaths pc) n)"

lemma build_parts:
  assumes "compiles L (prot_ProtectedPaths (cfg_Protection cfg))"
    and "compiles L (prot_ExcludedPaths (cfg_Protection cfg))"
  obtains m e where "app_matcher L cfg = Inr (Composite (Some m) e)"
    and "\<And>path. ShouldProtect L m path \<longleftrightarrow>
      has_extension L (prot_ProtectedExtensions (cfg_Protection cfg)) path \<or>
      matches_any L (prot_ProtectedPaths (cfg_Protection cfg)) path"
    and "\<And>path. (case e of None \<Rightarrow> False | Some x \<Rightarrow> ShouldProtect L x path) \<longleftrightarrow>
      matches_any L (prot_ExcludedPaths (cfg_Protection cfg)) path"
proof -
  obtain m where "buildProtectedMatcher L cfg = Inr m"
    and "\<And>path. ShouldProtect L m path \<longleftrightarrow>
      has_extension L (prot_ProtectedExtensions (cfg_Protection cfg)) path \<or>
      matches_any L (prot_ProtectedPaths (cfg_Protection cfg)) path"
    using NewRegexMatcher_Inr [OF assms(1)] regex_matches [OF assms(1)] extension_matches
    by (cases "prot_ProtectedPaths (cfg_Protection cfg) = []")
       (auto simp: buildProtectedMatcher_def Let_def matches_any_def simp del: ShouldProtect.simps(1,2))
  moreover obtain e where "buildExcludedMatcher L cfg = Inr e"
    and "\<And>path. (case e of None \<Rightarrow> False | Some x \<Rightarrow> ShouldProtect L x path) \<longleftrightarrow>
      matches_any L (prot_ExcludedPaths (cfg_Protection cfg)) path"
    using NewRegexMatcher_Inr [OF assms(2)] regex_matches [OF assms(2)]
    by (cases "prot_ExcludedPaths (cfg_Protection cfg) = []")
       (auto simp: buildExcludedMatcher_def matches_any_def simp del: ShouldProtect.simps(2))
  ultimately show ?thesis using that by (simp add: app_matcher_def)
qed

lemma build_fails:
  assumes "\<not> (compiles L (prot_ProtectedPaths (cfg_Protection cfg)) \<and> compiles L (prot_ExcludedPaths (cfg_Protection cfg)))"
  shows "\<exists>err. app_matcher L cfg = Inl err"
proof -
  have ne: "ps \<noteq> []" if "\<not> compiles L ps" for ps using that by (auto simp: compiles_def)
  show ?thesis
    using assms ne NewRegexMatcher_Inl
    by (auto simp: app_matcher_def buildProtectedMatcher_def buildExcludedMatcher_def Let_def
        split: sum.split)
qed

text \<open>
  C24: The command-line preview and the service classify every path alike, and both do what the
  configuration says: building fails exactly when a listed pattern does not compile, and
  otherwise a path is protected when its normal form ends, without letter case, in a listed
  extension or matches a protected pattern, and matches no excluded pattern.
\<close>

theorem matcher_implements_configuration:
  "buildMatcher L cfg = app_matcher L cfg \<and>
   (case app_matcher L cfg of
      Inl err \<Rightarrow> \<not> (compiles L (prot_ProtectedPaths (cfg_Protection cfg)) \<and>
                    compiles L (prot_ExcludedPaths (cfg_Protection cfg)))
    | Inr m \<Rightarrow> compiles L (prot_ProtectedPaths (cfg_Protection cfg)) \<and>
              compiles L (prot_ExcludedPaths (cfg_Protection cfg)) \<and>
              (\<forall>path. ShouldProtect L m path = protection_spec L (cfg_Protection cfg) path))"
proof (cases "compiles L (prot_ProtectedPaths (cfg_Protection cfg)) \<and>
    compiles L (prot_ExcludedPaths (cfg_Protection cfg))")
  case True
  then obtain m e where "app_matcher L cfg = Inr (Composite (Some m) e)"
    and "\<And>path. ShouldProtect L m path \<longleftrightarrow>
      has_extension L (prot_ProtectedExtensions (cfg_Protection cfg)) path \<or>
      matches_any L (prot_ProtectedPaths (cfg_Protection cfg)) path"
    and "\<And>path. (case e of None \<Rightarrow> False | Some x \<Rightarrow> ShouldProtect L x path) \<longleftrightarrow>
      matches_any L (prot_ExcludedPaths (cfg_Protection cfg)) path"
    using build_parts by blast
  then show ?thesis using True buildMatcher_eq_app [of L cfg]
    by (cases e) (simp_all add: protection_spec_def Let_def)
next
  case False
  from build_fails [OF this] obtain err where "app_matcher L cfg = Inl err" by blast
  then show ?thesis using False buildMatcher_eq_app [of L cfg] by (simp only: sum.case) blast
qed

end
