(* ===== verification/Pending.thy ===== *)
theory Pending
  imports Config
begin

text \<open>
  \<^verbatim>\<open>internal/risk/pending.go\<close>: the limiter of concurrent protected requests per client
  address. An instant is a number of nanoseconds since Go's zero time, so the zero \<^verbatim>\<open>time.Time\<close>
  is 0; a reading of the clock is an argument. Calls run under one mutex.

  The closure that \<^verbatim>\<open>Enter\<close> returns is a value of \<open>release_fn\<close>; its \<^verbatim>\<open>sync.Once\<close> is the flag in
  the handle table of the step relation \<open>pending_step\<close>, whose steps are the calls of any number
  of concurrent requests in the order in which they obtain the mutex.
\<close>

section \<open>The limiter\<close>

record pendingEntry =
  pe_pending :: int
  pe_autoBlockedUntil :: int

record IPPendingBlocker =
  pb_maxPerIP :: int
  pb_blockTTL :: int
  pb_entries :: "(string, pendingEntry) gomap"
  pb_closed :: bool
  pb_lastSweep :: int
  pb_autoBlocks :: nat

datatype release_fn = NoRelease | ReleaseSlot string

definition pendingSweepInterval :: int where "pendingSweepInterval = 30 * Second"

definition zero_entry :: pendingEntry where
  "zero_entry = \<lparr>pe_pending = 0, pe_autoBlockedUntil = 0\<rparr>"

text \<open>The hook \<^verbatim>\<open>onAutoBlock\<close> is a counter increment; the field \<open>pb_autoBlocks\<close> counts its calls.\<close>

definition NewIPPendingBlocker :: "int \<Rightarrow> int \<Rightarrow> IPPendingBlocker" where
  "NewIPPendingBlocker maxPerIP blockTTL =
     \<lparr>pb_maxPerIP = (if maxPerIP < 1 then 1 else maxPerIP),
      pb_blockTTL = (if blockTTL \<le> 0 then Hour else blockTTL),
      pb_entries = [], pb_closed = False, pb_lastSweep = 0, pb_autoBlocks = 0\<rparr>"

definition CanonicalIP :: "golib \<Rightarrow> string \<Rightarrow> string option" where
  "CanonicalIP L ip0 =
     (let ip = TrimSpace L ip0 in
      if ip = [] \<or> Contains ip ''/'' then None
      else map_option (\<lambda>addr. addr_String (Unmap addr)) (ParseAddr ip))"

definition blockedAt :: "int \<Rightarrow> pendingEntry \<Rightarrow> bool" where
  "blockedAt now entry = (now < pe_autoBlockedUntil entry)"

definition expireEntryLocked :: "int \<Rightarrow> pendingEntry \<Rightarrow> pendingEntry" where
  "expireEntryLocked now entry =
     (if pe_autoBlockedUntil entry \<noteq> 0 \<and> \<not> now < pe_autoBlockedUntil entry
      then entry\<lparr>pe_autoBlockedUntil := 0\<rparr> else entry)"

definition sweepLocked :: "int \<Rightarrow> IPPendingBlocker \<Rightarrow> IPPendingBlocker" where
  "sweepLocked now b =
     (if pb_lastSweep b \<noteq> 0 \<and> now - pb_lastSweep b < pendingSweepInterval then b
      else b\<lparr>pb_lastSweep := now,
        pb_entries := filter (\<lambda>(ip, e). \<not> (pe_pending e = 0 \<and> \<not> blockedAt now e))
          (map (\<lambda>(ip, e). (ip, expireEntryLocked now e)) (pb_entries b))\<rparr>)"

definition entry_of :: "IPPendingBlocker \<Rightarrow> string \<Rightarrow> pendingEntry" where
  "entry_of b ip = (case map_of (pb_entries b) ip of Some e \<Rightarrow> e | None \<Rightarrow> zero_entry)"

definition put_entry :: "string \<Rightarrow> pendingEntry \<Rightarrow> IPPendingBlocker \<Rightarrow> IPPendingBlocker" where
  "put_entry ip e b = b\<lparr>pb_entries := AList.update ip e (pb_entries b)\<rparr>"

text \<open>\<^verbatim>\<open>Enter\<close>: the release function and whether the request is blocked.\<close>

definition Enter ::
  "golib \<Rightarrow> int \<Rightarrow> string \<Rightarrow> IPPendingBlocker \<Rightarrow> (release_fn \<times> bool) \<times> IPPendingBlocker" where
  "Enter L now ip b =
     (case CanonicalIP L ip of
        None \<Rightarrow> ((NoRelease, False), b)
      | Some canonical \<Rightarrow>
          if pb_closed b then ((NoRelease, True), b)
          else let b1 = sweepLocked now b;
                   entry = expireEntryLocked now (entry_of b1 canonical) in
            if blockedAt now entry then ((NoRelease, True), put_entry canonical entry b1)
            else if pe_pending entry \<ge> pb_maxPerIP b1 then
              ((NoRelease, True),
               (put_entry canonical (entry\<lparr>pe_autoBlockedUntil := now + pb_blockTTL b1\<rparr>) b1)
                 \<lparr>pb_autoBlocks := Suc (pb_autoBlocks b1)\<rparr>)
            else ((ReleaseSlot canonical, False),
                  put_entry canonical (entry\<lparr>pe_pending := wrap64 (pe_pending entry + 1)\<rparr>) b1))"

definition release :: "int \<Rightarrow> string \<Rightarrow> IPPendingBlocker \<Rightarrow> IPPendingBlocker" where
  "release now ip b =
     (if pb_closed b then b
      else case map_of (pb_entries b) ip of
        None \<Rightarrow> b
      | Some e \<Rightarrow>
          let e1 = (if pe_pending e > 0 then e\<lparr>pe_pending := pe_pending e - 1\<rparr> else e);
              e2 = expireEntryLocked now e1 in
          if pe_pending e2 = 0 \<and> \<not> blockedAt now e2
          then b\<lparr>pb_entries := AList.delete ip (pb_entries b)\<rparr>
          else put_entry ip e2 b)"

definition run_release :: "int \<Rightarrow> release_fn \<Rightarrow> IPPendingBlocker \<Rightarrow> IPPendingBlocker" where
  "run_release now f b = (case f of NoRelease \<Rightarrow> b | ReleaseSlot ip \<Rightarrow> release now ip b)"

definition pending_Close :: "IPPendingBlocker \<Rightarrow> IPPendingBlocker" where
  "pending_Close b = (if pb_closed b then b else b\<lparr>pb_closed := True, pb_entries := []\<rparr>)"

section \<open>Facts\<close>

definition pending_of :: "IPPendingBlocker \<Rightarrow> string \<Rightarrow> int" where
  "pending_of b ip = pe_pending (entry_of b ip)"

definition blocked_until :: "int \<Rightarrow> IPPendingBlocker \<Rightarrow> string \<Rightarrow> bool" where
  "blocked_until now b ip = blockedAt now (entry_of b ip)"

definition wf_blocker :: "IPPendingBlocker \<Rightarrow> bool" where
  "wf_blocker b \<longleftrightarrow> wf_map (pb_entries b) \<and> 1 \<le> pb_maxPerIP b \<and> pb_maxPerIP b < 2 ^ 63 \<and>
     0 < pb_blockTTL b \<and> (pb_closed b \<longrightarrow> pb_entries b = [])"

lemma expire_pending [simp]: "pe_pending (expireEntryLocked now e) = pe_pending e"
  by (simp add: expireEntryLocked_def)

lemma expire_blocked [simp]: "0 \<le> now \<Longrightarrow> blockedAt now (expireEntryLocked now e) = blockedAt now e"
  by (simp add: expireEntryLocked_def blockedAt_def)

lemma zero_entry_simps [simp]: "pe_pending zero_entry = 0" "pe_autoBlockedUntil zero_entry = 0"
  by (simp_all add: zero_entry_def)

lemma sweep_frame [frame_simps]:
  "pb_maxPerIP (sweepLocked now b) = pb_maxPerIP b" "pb_blockTTL (sweepLocked now b) = pb_blockTTL b"
  "pb_closed (sweepLocked now b) = pb_closed b" "pb_autoBlocks (sweepLocked now b) = pb_autoBlocks b"
  by (simp_all add: sweepLocked_def)

lemma put_entry_frame [frame_simps]:
  "pb_maxPerIP (put_entry ip e b) = pb_maxPerIP b" "pb_blockTTL (put_entry ip e b) = pb_blockTTL b"
  "pb_closed (put_entry ip e b) = pb_closed b" "pb_autoBlocks (put_entry ip e b) = pb_autoBlocks b"
  "pb_lastSweep (put_entry ip e b) = pb_lastSweep b"
  by (simp_all add: put_entry_def)

lemma entry_of_put [simp]: "entry_of (put_entry ip e b) ip' = (if ip' = ip then e else entry_of b ip')"
  by (simp add: entry_of_def put_entry_def)

lemma entry_of_autoBlocks [simp]: "entry_of (b\<lparr>pb_autoBlocks := n\<rparr>) ip = entry_of b ip"
  by (simp add: entry_of_def)

lemma map_of_sweep:
  assumes "wf_blocker b"
  shows "map_of (pb_entries (sweepLocked now b)) ip =
    (if pb_lastSweep b \<noteq> 0 \<and> now - pb_lastSweep b < pendingSweepInterval then map_of (pb_entries b) ip
     else case map_of (pb_entries b) ip of
       None \<Rightarrow> None
     | Some e \<Rightarrow>
         if pe_pending e = 0 \<and> \<not> blockedAt now (expireEntryLocked now e) then None
         else Some (expireEntryLocked now e))"
proof -
  let ?m = "map (\<lambda>(ip, e). (ip, expireEntryLocked now e)) (pb_entries b)"
  have wf: "wf_map ?m" using assms wf_map_map_snd [of "\<lambda>ip e. expireEntryLocked now e"]
    by (simp add: wf_blocker_def)
  have mp: "map_of ?m ip = map_option (expireEntryLocked now) (map_of (pb_entries b) ip)"
    by (rule map_of_map_snd)
  show ?thesis
    using map_of_filter [OF wf, of "\<lambda>ip e. \<not> (pe_pending e = 0 \<and> \<not> blockedAt now e)" ip] mp
    by (auto simp: sweepLocked_def split: option.split)
qed

lemma pending_of_sweep [simp]: "wf_blocker b \<Longrightarrow> pending_of (sweepLocked now b) ip = pending_of b ip"
  by (simp add: pending_of_def entry_of_def map_of_sweep split: option.split)

lemma blocked_sweep [simp]:
  "wf_blocker b \<Longrightarrow> 0 \<le> now \<Longrightarrow> blocked_until now (sweepLocked now b) ip = blocked_until now b ip"
  by (auto simp: blocked_until_def entry_of_def map_of_sweep blockedAt_def expireEntryLocked_def split: option.split)

lemma wf_sweep [simp]: "wf_blocker b \<Longrightarrow> wf_blocker (sweepLocked now b)"
  using wf_map_map_snd [of "\<lambda>ip e. expireEntryLocked now e" "pb_entries b"]
  by (simp add: wf_blocker_def sweepLocked_def)

lemma wf_put [simp]: "wf_blocker b \<Longrightarrow> \<not> pb_closed b \<Longrightarrow> wf_blocker (put_entry ip e b)"
  by (simp add: wf_blocker_def put_entry_def)

lemma wf_autoBlocks [simp]: "wf_blocker (b\<lparr>pb_autoBlocks := n\<rparr>) = wf_blocker b"
  by (simp add: wf_blocker_def)

lemma wf_New: "maxPerIP < 2 ^ 63 \<Longrightarrow> wf_blocker (NewIPPendingBlocker maxPerIP ttl)"
  by (simp add: wf_blocker_def NewIPPendingBlocker_def Hour_def Minute_def Second_def)

lemma wf_Enter: "wf_blocker b \<Longrightarrow> wf_blocker (snd (Enter L now ip b))"
  by (auto simp: Enter_def Let_def frame_simps split: option.split)

lemma wf_release: "wf_blocker b \<Longrightarrow> wf_blocker (release now ip b)"
  by (auto simp: release_def Let_def wf_blocker_def put_entry_def split: option.split)

lemma Enter_frame [frame_simps]:
  "pb_maxPerIP (snd (Enter L now ip b)) = pb_maxPerIP b" "pb_blockTTL (snd (Enter L now ip b)) = pb_blockTTL b"
  "pb_closed (snd (Enter L now ip b)) = pb_closed b"
  by (simp_all add: Enter_def Let_def frame_simps split: option.split)

lemma release_frame [frame_simps]:
  "pb_maxPerIP (release now ip b) = pb_maxPerIP b" "pb_blockTTL (release now ip b) = pb_blockTTL b"
  "pb_closed (release now ip b) = pb_closed b"
  by (simp_all add: release_def Let_def frame_simps split: option.split)

text \<open>What \<^verbatim>\<open>Enter\<close> decides, without the bookkeeping of the sweep.\<close>

lemma Enter_cases:
  assumes "wf_blocker b" and "0 \<le> now"
  shows "fst (Enter L now ip b) =
    (case CanonicalIP L ip of
       None \<Rightarrow> (NoRelease, False)
     | Some c \<Rightarrow>
         if pb_closed b \<or> blocked_until now b c \<or> pending_of b c \<ge> pb_maxPerIP b then (NoRelease, True)
         else (ReleaseSlot c, False))"
proof (cases "CanonicalIP L ip")
  case (Some c)
  have "blockedAt now (entry_of (sweepLocked now b) c) = blocked_until now b c"
    using blocked_sweep [OF assms, of c] by (simp add: blocked_until_def)
  moreover have "pe_pending (entry_of (sweepLocked now b) c) = pending_of b c"
    using pending_of_sweep [OF assms(1), of now c] by (simp add: pending_of_def)
  ultimately show ?thesis using Some assms(2)
    by (simp add: Enter_def Let_def frame_simps)
qed (simp add: Enter_def)

lemma pending_of_Enter:
  assumes "wf_blocker b" and "0 \<le> now" and "\<And>x. 0 \<le> pending_of b x"
  shows "pending_of (snd (Enter L now ip b)) c =
    pending_of b c + (if fst (fst (Enter L now ip b)) = ReleaseSlot c then 1 else 0)"
proof (cases "CanonicalIP L ip")
  case (Some c')
  have p: "pe_pending (entry_of (sweepLocked now b) x) = pending_of b x" for x
    using pending_of_sweep [OF assms(1), of now x] by (simp add: pending_of_def)
  have w: "wrap64 (pending_of b c' + 1) = pending_of b c' + 1" if "\<not> pb_maxPerIP b \<le> pending_of b c'"
    using that assms(1) assms(3) [of c'] by (intro wrap64_id) (simp add: wf_blocker_def in_int64_def)
  show ?thesis
    using Some p w by (simp add: Enter_def Let_def frame_simps pending_of_def)
qed (simp add: Enter_def)

lemma pending_of_release:
  assumes "0 \<le> pending_of b c" and "\<not> pb_closed b"
  shows "pending_of (release now ip b) c = (if c = ip \<and> 0 < pending_of b c then pending_of b c - 1 else pending_of b c)"
proof (cases "map_of (pb_entries b) ip")
  case None
  then show ?thesis using assms(2) by (simp add: release_def pending_of_def entry_of_def)
next
  case (Some e)
  with assms show ?thesis
    by (auto simp: release_def Let_def pending_of_def entry_of_def put_entry_def split: option.split)
qed

lemma pending_of_closed: "wf_blocker b \<Longrightarrow> pb_closed b \<Longrightarrow> pending_of b c = 0"
  by (simp add: wf_blocker_def pending_of_def entry_of_def)

section \<open>Concurrent requests\<close>

text \<open>
  The limiter together with the release functions handed out so far; the flag of a release
  function is set by its first call.
\<close>

record pending_system =
  sys_blocker :: IPPendingBlocker
  sys_handles :: "(string \<times> bool) list"

definition sys_init :: "int \<Rightarrow> int \<Rightarrow> pending_system" where
  "sys_init maxPerIP ttl = \<lparr>sys_blocker = NewIPPendingBlocker maxPerIP ttl, sys_handles = []\<rparr>"

definition sys_enter :: "golib \<Rightarrow> int \<Rightarrow> string \<Rightarrow> pending_system \<Rightarrow> pending_system" where
  "sys_enter L now ip w =
     (case Enter L now ip (sys_blocker w) of
        ((f, blocked), b) \<Rightarrow>
          w\<lparr>sys_blocker := b,
            sys_handles := (case f of NoRelease \<Rightarrow> sys_handles w | ReleaseSlot c \<Rightarrow> sys_handles w @ [(c, False)])\<rparr>)"

definition sys_call :: "int \<Rightarrow> nat \<Rightarrow> pending_system \<Rightarrow> pending_system" where
  "sys_call now h w =
     (case sys_handles w ! h of
        (c, called) \<Rightarrow>
          if called then w
          else w\<lparr>sys_blocker := release now c (sys_blocker w), sys_handles := (sys_handles w)[h := (c, True)]\<rparr>)"

inductive pending_step :: "golib \<Rightarrow> pending_system \<Rightarrow> pending_system \<Rightarrow> bool" for L where
  enter: "0 \<le> now \<Longrightarrow> pending_step L w (sys_enter L now ip w)"
| call: "h < length (sys_handles w) \<Longrightarrow> 0 \<le> now \<Longrightarrow> pending_step L w (sys_call now h w)"
| close: "pending_step L w (w\<lparr>sys_blocker := pending_Close (sys_blocker w)\<rparr>)"

inductive_cases pending_stepE: "pending_step L w w'"

inductive pending_reachable :: "golib \<Rightarrow> int \<Rightarrow> int \<Rightarrow> pending_system \<Rightarrow> bool" for L maxPerIP ttl where
  init: "pending_reachable L maxPerIP ttl (sys_init maxPerIP ttl)"
| step: "pending_reachable L maxPerIP ttl w \<Longrightarrow> pending_step L w w' \<Longrightarrow> pending_reachable L maxPerIP ttl w'"

definition outstanding :: "pending_system \<Rightarrow> string \<Rightarrow> nat" where
  "outstanding w c = length (filter (\<lambda>(c', called). c' = c \<and> \<not> called) (sys_handles w))"

definition pending_inv :: "int \<Rightarrow> pending_system \<Rightarrow> bool" where
  "pending_inv M w \<longleftrightarrow> wf_blocker (sys_blocker w) \<and> pb_maxPerIP (sys_blocker w) = M \<and>
     (\<forall>c. int (outstanding w c) \<le> M) \<and>
     (\<not> pb_closed (sys_blocker w) \<longrightarrow> (\<forall>c. pending_of (sys_blocker w) c = int (outstanding w c)))"

lemma pending_inv_nonneg: "pending_inv M w \<Longrightarrow> 0 \<le> pending_of (sys_blocker w) c"
  by (cases "pb_closed (sys_blocker w)") (simp_all add: pending_inv_def pending_of_closed)

lemma pending_inv_enter:
  assumes "pending_inv M w" and "0 \<le> now"
  shows "pending_inv M (sys_enter L now ip w)"
proof -
  let ?b = "sys_blocker w"
  obtain f bl b' where E: "Enter L now ip ?b = ((f, bl), b')" by (metis prod.collapse)
  have wf: "wf_blocker ?b" using assms(1) by (simp add: pending_inv_def)
  have wf': "wf_blocker b'" using wf_Enter [OF wf, of L now ip] E by simp
  have frame: "pb_maxPerIP b' = pb_maxPerIP ?b" "pb_closed b' = pb_closed ?b"
    using Enter_frame [of L now ip ?b] E by simp_all
  have f: "f = ReleaseSlot c \<Longrightarrow> \<not> pb_closed ?b \<and> pending_of ?b c < pb_maxPerIP ?b" for c
    using Enter_cases [OF wf assms(2), of L ip] E by (auto split: option.splits if_splits)
  have pend: "pending_of b' c = pending_of ?b c + (if f = ReleaseSlot c then 1 else 0)" for c
    using pending_of_Enter [OF wf assms(2) pending_inv_nonneg [OF assms(1)], of L ip c] E by simp
  have out: "outstanding (sys_enter L now ip w) c = outstanding w c + (if f = ReleaseSlot c then 1 else 0)" for c
    using E by (auto simp: sys_enter_def outstanding_def split: release_fn.split)
  have "sys_blocker (sys_enter L now ip w) = b'" using E by (simp add: sys_enter_def)
  with wf' frame pend out f assms(1) show ?thesis
    by (fastforce simp: pending_inv_def)
qed

lemma length_filter_update:
  "h < length xs \<Longrightarrow> P (xs ! h) \<Longrightarrow> \<not> P y \<Longrightarrow> Suc (length (filter P (xs[h := y]))) = length (filter P xs)"
  by (induction xs arbitrary: h) (auto split: nat.splits)

lemma filter_update_other:
  "\<not> P (xs ! h) \<Longrightarrow> \<not> P y \<Longrightarrow> filter P (xs[h := y]) = filter P xs"
  by (induction xs arbitrary: h) (auto split: nat.splits)

lemma pending_inv_call:
  assumes "pending_inv M w" and "h < length (sys_handles w)"
  shows "pending_inv M (sys_call now h w)"
proof -
  obtain c called where h: "sys_handles w ! h = (c, called)" by (cases "sys_handles w ! h")
  show ?thesis
  proof (cases called)
    case True
    then show ?thesis using assms h by (simp add: sys_call_def)
  next
    case False
    let ?b = "sys_blocker w" and ?w = "sys_call now h w"
    have hs: "sys_handles ?w = (sys_handles w)[h := (c, True)]" "sys_blocker ?w = release now c ?b"
      using h False by (simp_all add: sys_call_def)
    have out_c: "Suc (outstanding ?w c) = outstanding w c"
      using length_filter_update [OF assms(2), of "\<lambda>(c', called). c' = c \<and> \<not> called" "(c, True)"] h False hs
      by (simp add: outstanding_def)
    have out: "outstanding ?w x = outstanding w x" if "x \<noteq> c" for x
      using filter_update_other [of "\<lambda>(c', called). c' = x \<and> \<not> called" "sys_handles w" h "(c, True)"] that h hs
      by (simp add: outstanding_def)
    have wf: "wf_blocker (release now c ?b)" using assms(1) wf_release by (simp add: pending_inv_def)
    have le: "int (outstanding ?w x) \<le> M" for x
      using out_c out [of x] assms(1) by (cases "x = c") (auto simp: pending_inv_def dest: spec [of _ c])
    have "pending_of (release now c ?b) x = int (outstanding ?w x)" if "\<not> pb_closed ?b" for x
      using pending_of_release [OF pending_inv_nonneg [OF assms(1), of x] that, of now c] out_c out [of x] assms(1) that
      by (cases "x = c") (auto simp: pending_inv_def dest: spec [of _ c])
    with wf le hs assms(1) show ?thesis by (simp add: pending_inv_def frame_simps)
  qed
qed

lemma pending_inv_close:
  "pending_inv M w \<Longrightarrow> pending_inv M (w\<lparr>sys_blocker := pending_Close (sys_blocker w)\<rparr>)"
  by (auto simp: pending_inv_def pending_Close_def wf_blocker_def outstanding_def)

lemma pending_inv_reachable:
  assumes "pending_reachable L maxPerIP ttl w" and "maxPerIP < 2 ^ 63"
  shows "pending_inv (if maxPerIP < 1 then 1 else maxPerIP) w"
  using assms(1)
proof (induction rule: pending_reachable.induct)
  case init
  then show ?case using wf_New [OF assms(2), of ttl]
    by (simp add: pending_inv_def sys_init_def outstanding_def NewIPPendingBlocker_def pending_of_def entry_of_def)
next
  case (step w w')
  from step.hyps(2) step.IH show ?case
    by cases (auto intro: pending_inv_enter pending_inv_call pending_inv_close)
qed

section \<open>The limiter as its clients see it\<close>

text \<open>
  The interface \<^verbatim>\<open>PendingBlocker\<close>: \<open>enter\<close> answers with a release function and whether the request
  is refused; a refused request holds no slot, and running the release function gives back
  exactly what \<open>enter\<close> took. \<open>slots s c\<close> counts the requests of address \<open>c\<close> in progress, and \<open>ok\<close>
  says which readings of the environment the promise is for.
\<close>

locale request_limiter =
  fixes enter :: "'e \<Rightarrow> string \<Rightarrow> 's \<Rightarrow> ('r \<times> bool) \<times> 's"
    and leave :: "'t \<Rightarrow> 'r \<Rightarrow> 's \<Rightarrow> 's"
    and slots :: "'s \<Rightarrow> string \<Rightarrow> int"
    and inv :: "'s \<Rightarrow> bool"
    and ok :: "'e \<Rightarrow> bool"
  assumes inv_enter: "inv s \<Longrightarrow> ok e \<Longrightarrow> inv (snd (enter e ip s))"
    and inv_leave: "inv s \<Longrightarrow> inv (leave t r s)"
    and refused: "inv s \<Longrightarrow> ok e \<Longrightarrow> snd (fst (enter e ip s)) \<Longrightarrow> slots (snd (enter e ip s)) c = slots s c"
    and balanced: "inv s \<Longrightarrow> ok e \<Longrightarrow> slots (leave t (fst (fst (enter e ip s))) (snd (enter e ip s))) c = slots s c"
begin

text \<open>A request that enters and, unless it is refused, leaves again.\<close>

definition bracket :: "'e \<Rightarrow> 't \<Rightarrow> string \<Rightarrow> 's \<Rightarrow> 's" where
  "bracket e t ip s =
     (case enter e ip s of ((r, blocked), s') \<Rightarrow> if blocked then s' else leave t r s')"

lemma bracket_restores:
  assumes "inv s" and "ok e"
  shows "inv (bracket e t ip s) \<and> slots (bracket e t ip s) c = slots s c"
  using inv_enter [OF assms, of ip] inv_leave refused [OF assms, of ip c] balanced [OF assms, of t ip c]
  by (auto simp: bracket_def split: prod.split)

lemma brackets_restore:
  assumes "inv s" and "\<forall>(e, t, ip) \<in> set xs. ok e"
  shows "inv (fold (\<lambda>(e, t, ip). bracket e t ip) xs s) \<and>
    slots (fold (\<lambda>(e, t, ip). bracket e t ip) xs s) c = slots s c"
  using assms
proof (induction xs arbitrary: s)
  case (Cons x xs)
  obtain e t ip where x: "x = (e, t, ip)" by (cases x)
  from Cons.prems x bracket_restores [of s e t ip c] Cons.IH [of "bracket e t ip s"] show ?case by simp
qed simp

end

definition limiter_inv :: "IPPendingBlocker \<Rightarrow> bool" where
  "limiter_inv b \<longleftrightarrow> wf_blocker b \<and> (\<forall>c. 0 \<le> pending_of b c)"

definition limiter_enter :: "golib \<times> int \<Rightarrow> string \<Rightarrow> IPPendingBlocker \<Rightarrow> (release_fn \<times> bool) \<times> IPPendingBlocker" where
  "limiter_enter e = Enter (fst e) (snd e)"

lemma limiter_inv_release: "limiter_inv b \<Longrightarrow> limiter_inv (run_release now f b)"
  using wf_release [of b now] pending_of_release [of b _ now] release_def [of now _ b]
  by (cases "pb_closed b") (auto simp: limiter_inv_def run_release_def split: release_fn.split)

lemma limiter_inv_Enter: "limiter_inv b \<Longrightarrow> 0 \<le> now \<Longrightarrow> limiter_inv (snd (Enter L now ip b))"
  using wf_Enter [of b L now ip] pending_of_Enter [of b now L ip] by (auto simp: limiter_inv_def)

interpretation limiter: request_limiter limiter_enter run_release pending_of limiter_inv "\<lambda>e. 0 \<le> snd e"
proof
  fix s :: IPPendingBlocker and e :: "golib \<times> int" and ip c :: string and t :: int and r
  assume inv: "limiter_inv s"
  show "limiter_inv (run_release t r s)" using inv by (rule limiter_inv_release)
  assume now: "0 \<le> snd e"
  show inv': "limiter_inv (snd (limiter_enter e ip s))"
    using limiter_inv_Enter [OF inv now] by (simp add: limiter_enter_def)
  let ?E = "limiter_enter e ip s"
  have nn: "\<And>x. 0 \<le> pending_of s x" and wf: "wf_blocker s" using inv by (simp_all add: limiter_inv_def)
  have count: "pending_of (snd ?E) x = pending_of s x + (if fst (fst ?E) = ReleaseSlot x then 1 else 0)" for x
    using pending_of_Enter [OF wf now nn] by (simp add: limiter_enter_def)
  have dec: "fst (fst ?E) = NoRelease \<or> fst ?E = (ReleaseSlot x, False) \<and> \<not> pb_closed s"
    if "CanonicalIP (fst e) ip = Some x" for x
    using Enter_cases [OF wf now, of "fst e" ip] that by (auto simp: limiter_enter_def split: if_splits)
  have none: "fst (fst ?E) = NoRelease" if "CanonicalIP (fst e) ip = None"
    using that by (simp add: limiter_enter_def Enter_def)
  show "snd (fst ?E) \<Longrightarrow> pending_of (snd ?E) c = pending_of s c"
    using count [of c] dec none by (cases "CanonicalIP (fst e) ip") auto
  show "pending_of (run_release t (fst (fst ?E)) (snd ?E)) c = pending_of s c"
  proof (cases "fst (fst ?E)")
    case NoRelease
    then show ?thesis using count [of c] by (simp add: run_release_def)
  next
    case (ReleaseSlot x)
    then have "\<not> pb_closed s" using dec none by (cases "CanonicalIP (fst e) ip") auto
    then have "\<not> pb_closed (snd ?E)" by (simp add: limiter_enter_def frame_simps)
    with pending_of_release [of "snd ?E" c t x] inv' ReleaseSlot count [of c] nn [of c] show ?thesis
      by (auto simp: run_release_def limiter_inv_def)
  qed
qed

section \<open>Properties\<close>

text \<open>
  C7: At most \<^verbatim>\<open>max_per_ip\<close> requests of one client address are in progress. In every state that
  any interleaving of arrivals, completions (also repeated ones) and shutdown can reach, the
  number of admitted requests not yet released is at most the limit for every canonical
  address, and while the limiter is open its counter is exactly that number.
\<close>

theorem pending_limit_holds:
  assumes "pending_reachable L maxPerIP ttl w" and "maxPerIP < 2 ^ 63"
  shows "int (outstanding w c) \<le> max 1 maxPerIP \<and>
    (\<not> pb_closed (sys_blocker w) \<longrightarrow> pending_of (sys_blocker w) c = int (outstanding w c))"
  using pending_inv_reachable [OF assms] by (auto simp: pending_inv_def max_def split: if_splits)

definition demo_busy :: pending_system where
  "demo_busy = sys_enter demo_lib 300 ''10.0.0.9'' (sys_enter demo_lib 200 '' 10.0.0.9''
     (sys_enter demo_lib 100 '' 10.0.0.9 '' (sys_init 2 1000)))"

lemma reachable_enter:
  "pending_reachable L maxPerIP ttl w \<Longrightarrow> 0 \<le> now \<Longrightarrow> pending_reachable L maxPerIP ttl (sys_enter L now ip w)"
  by (rule pending_reachable.step [OF _ pending_step.enter])

lemma demo_busy_reachable: "pending_reachable demo_lib 2 1000 demo_busy"
  unfolding demo_busy_def by (intro reachable_enter pending_reachable.init) simp_all

theorem pending_limit_holds_witness:
  "int (outstanding (sys_call 400 0 demo_busy) ''10.0.0.9'') \<le> max 1 2 \<and>
   pending_of (sys_blocker (sys_call 400 0 demo_busy)) ''10.0.0.9'' = 1"
proof -
  have "0 < length (sys_handles demo_busy)" by code_simp
  then have "pending_step demo_lib demo_busy (sys_call 400 0 demo_busy)" by (rule pending_step.call) simp
  from pending_limit_holds [OF pending_reachable.step [OF demo_busy_reachable this], of "''10.0.0.9''"]
  have "int (outstanding (sys_call 400 0 demo_busy) ''10.0.0.9'') \<le> max 1 2" by simp
  moreover have "pending_of (sys_blocker (sys_call 400 0 demo_busy)) ''10.0.0.9'' = 1" by code_simp
  ultimately show ?thesis by blast
qed

text \<open>
  A block has a fixed length. An overflow blocks the address until the block time after it;
  a request that meets the block is refused without moving its end, and once the end is reached
  and a slot is free, the address is admitted again.
\<close>

theorem block_is_fixed_and_ends:
  assumes "wf_blocker b" and "\<not> pb_closed b" and "0 \<le> now" and "CanonicalIP L ip = Some c"
  shows "(pb_maxPerIP b \<le> pending_of b c \<and> \<not> blocked_until now b c \<longrightarrow>
      snd (fst (Enter L now ip b)) \<and>
      pe_autoBlockedUntil (entry_of (snd (Enter L now ip b)) c) = now + pb_blockTTL b) \<and>
    (blocked_until now b c \<longrightarrow>
      snd (fst (Enter L now ip b)) \<and>
      pe_autoBlockedUntil (entry_of (snd (Enter L now ip b)) c) = pe_autoBlockedUntil (entry_of b c)) \<and>
    (pe_autoBlockedUntil (entry_of b c) \<le> now \<and> pending_of b c < pb_maxPerIP b \<longrightarrow>
      fst (Enter L now ip b) = (ReleaseSlot c, False))"
proof (intro conjI impI)
  have dec: "fst (Enter L now ip b) =
      (if blocked_until now b c \<or> pending_of b c \<ge> pb_maxPerIP b then (NoRelease, True) else (ReleaseSlot c, False))"
    using Enter_cases [OF assms(1,3), of L ip] assms(2,4) by simp
  show "snd (fst (Enter L now ip b))" if "pb_maxPerIP b \<le> pending_of b c \<and> \<not> blocked_until now b c"
    using that dec by simp
  show "snd (fst (Enter L now ip b))" if "blocked_until now b c" using that dec by simp
  show "fst (Enter L now ip b) = (ReleaseSlot c, False)"
    if "pe_autoBlockedUntil (entry_of b c) \<le> now \<and> pending_of b c < pb_maxPerIP b"
    using that dec by (simp add: blocked_until_def blockedAt_def)
  have p: "pe_pending (entry_of (sweepLocked now b) c) = pending_of b c"
    using pending_of_sweep [OF assms(1), of now c] by (simp add: pending_of_def)
  have bl: "blockedAt now (entry_of (sweepLocked now b) c) = blocked_until now b c"
    using blocked_sweep [OF assms(1,3), of c] by (simp add: blocked_until_def)
  show "pe_autoBlockedUntil (entry_of (snd (Enter L now ip b)) c) = now + pb_blockTTL b"
    if "pb_maxPerIP b \<le> pending_of b c \<and> \<not> blocked_until now b c"
    using that p bl assms(2-4) by (simp add: Enter_def Let_def frame_simps)
  show "pe_autoBlockedUntil (entry_of (snd (Enter L now ip b)) c) = pe_autoBlockedUntil (entry_of b c)"
    if "blocked_until now b c"
  proof -
    have "pe_autoBlockedUntil (expireEntryLocked now (entry_of (sweepLocked now b) c)) =
        pe_autoBlockedUntil (entry_of b c)"
      using that assms(1)
      by (auto simp: blocked_until_def blockedAt_def entry_of_def map_of_sweep expireEntryLocked_def
          split: option.split)
    with that bl assms(2-4) show ?thesis by (simp add: Enter_def Let_def frame_simps)
  qed
qed

definition demo_blocked :: IPPendingBlocker where
  "demo_blocked = snd (Enter demo_lib 200 ''10.0.0.9'' (snd (Enter demo_lib 100 ''10.0.0.9'' (NewIPPendingBlocker 1 1000))))"

theorem block_is_fixed_and_ends_witness:
  "pe_autoBlockedUntil (entry_of demo_blocked ''10.0.0.9'') = 1200 \<and>
   snd (fst (Enter demo_lib 900 ''10.0.0.9'' demo_blocked)) \<and>
   pe_autoBlockedUntil (entry_of (snd (Enter demo_lib 900 ''10.0.0.9'' demo_blocked)) ''10.0.0.9'') = 1200"
proof -
  have "wf_blocker demo_blocked"
    unfolding demo_blocked_def by (intro wf_Enter wf_New) simp
  moreover have "\<not> pb_closed demo_blocked" "CanonicalIP demo_lib ''10.0.0.9'' = Some ''10.0.0.9''"
    and b: "blocked_until 900 demo_blocked ''10.0.0.9''" "pe_autoBlockedUntil (entry_of demo_blocked ''10.0.0.9'') = 1200"
    by code_simp+
  ultimately show ?thesis using block_is_fixed_and_ends [of demo_blocked 900 demo_lib "''10.0.0.9''" "''10.0.0.9''"]
    by simp
qed

end
