(* ===== verification/Auth.thy ===== *)
theory Auth
  imports AuthResult RiskEngine RiskCounter PathMatcher Pending UsageStore
begin

text \<open>
  \<^verbatim>\<open>internal/auth\<close>: verification of tokens (\<^verbatim>\<open>pow_verify.go\<close>) and the flow of one request
  through protection matching, the pending limiter, classification, the risk engine and the quota
  (\<^verbatim>\<open>service.go\<close>).

  The service is a record of its collaborators. A store behind an interface is a record of its
  operations, and its state is a component of the world that \<^verbatim>\<open>Verify\<close> threads; a nil collaborator
  is \<^verbatim>\<open>None\<close>. The clock readings of one request are the fields of \<open>Clocks\<close>, seconds where the code
  uses \<^verbatim>\<open>Unix()\<close>. The payload pointer that \<^verbatim>\<open>bindEmptyIPFirstUse\<close> writes through is returned updated.
\<close>

section \<open>The service and its world\<close>

record 'u UsageOps =
  uo_Consume :: "int \<Rightarrow> ConsumeInput \<Rightarrow> 'u \<Rightarrow> (store_error + ConsumeResult) \<times> 'u"
  uo_Get :: "string \<Rightarrow> 'u \<Rightarrow> store_error + UsageRecord"

record 'c CounterOps =
  co_Incr :: "int \<times> int \<Rightarrow> string \<Rightarrow> string \<Rightarrow> int \<Rightarrow> 'c \<Rightarrow> (store_error + int \<times> int) \<times> 'c"
  co_Get :: "int \<times> int \<Rightarrow> string \<Rightarrow> string \<Rightarrow> int \<Rightarrow> 'c \<Rightarrow> store_error + int"

record 'c CounterRegistry =
  reg_defs :: "(string, CounterConfig) gomap"
  reg_store :: "'c CounterOps option"

record ('u, 'c) Service =
  sv_cfg :: Config
  sv_matcher :: Matcher
  sv_usageStore :: "'u UsageOps option"
  sv_riskEngine :: "ChainMap option"
  sv_counterReg :: "'c CounterRegistry option"
  sv_pendingBlocker :: bool
  sv_ipBoundOpts :: ValidatorOptions
  sv_genericOpts :: ValidatorOptions
  sv_allowedSalts :: "string list"

record ('u, 'c) Options =
  op_Config :: "Config option"
  op_Matcher :: "Matcher option"
  op_UsageStore :: "'u UsageOps option"
  op_RiskEngine :: "ChainMap option"
  op_CounterReg :: "'c CounterRegistry option"
  op_PendingBlocker :: bool

record ('u, 'c) World =
  w_usage :: 'u
  w_counter :: 'c
  w_pending :: IPPendingBlocker
  w_recorded :: "Recorded list"
  w_riskDecisions :: "(string \<times> string) list"

record Clocks =
  ck_enter :: int
  ck_release :: int
  ck_classify :: int
  ck_verify :: int
  ck_charge :: int
  ck_bind :: int
  ck_wall :: int
  ck_counterGet :: "int \<times> int"
  ck_counterIncr :: "int \<times> int"

datatype new_error = ErrConfigRequired | ErrMatcherRequired | ErrUsageStoreRequired | ErrRiskEngineRequired
  | ErrCounterRegRequired | ErrPendingBlockerRequired

definition pendingEnabled :: "Config \<Rightarrow> bool" where
  "pendingEnabled cfg \<longleftrightarrow> pnd_Enabled (rk_Pending (cfg_RiskControl cfg)) = None \<or>
     pnd_Enabled (rk_Pending (cfg_RiskControl cfg)) = Some True"

definition allowed_salts :: "PowConfig \<Rightarrow> string list" where
  "allowed_salts p = pc_AllowedPreviousSalts p @ (if pc_PublicSalt p \<noteq> [] then [pc_PublicSalt p] else [])"

definition mode_opts :: "PowConfig \<Rightarrow> string \<Rightarrow> ModeConfig \<Rightarrow> bool \<Rightarrow> ValidatorOptions" where
  "mode_opts p name m requireIP =
     \<lparr>vo_AllowedSalts = allowed_salts p, vo_AllowEmptySalt = pc_AllowEmptySalt p, vo_AllowedModes = [name],
      vo_RequireIP = requireIP, vo_MinDifficulty = mc_MinDifficulty m, vo_MaxDifficulty = mc_MaxDifficulty m,
      vo_Algorithm = pc_Algorithm p\<rparr>"

definition New :: "('u, 'c) Options \<Rightarrow> new_error + ('u, 'c) Service" where
  "New opts =
     (case op_Config opts of
        None \<Rightarrow> Inl ErrConfigRequired
      | Some cfg \<Rightarrow>
          (case op_Matcher opts of
             None \<Rightarrow> Inl ErrMatcherRequired
           | Some m \<Rightarrow>
               if mc_Enabled (pc_Generic (cfg_Pow cfg)) \<and> op_UsageStore opts = None then Inl ErrUsageStoreRequired
               else if rk_Enabled (cfg_RiskControl cfg) \<and> op_RiskEngine opts = None then Inl ErrRiskEngineRequired
               else if rk_Enabled (cfg_RiskControl cfg) \<and> rk_Counters (cfg_RiskControl cfg) \<noteq> [] \<and> op_CounterReg opts = None
                 then Inl ErrCounterRegRequired
               else if rk_Enabled (cfg_RiskControl cfg) \<and> pendingEnabled cfg \<and> \<not> op_PendingBlocker opts
                 then Inl ErrPendingBlockerRequired
               else Inr \<lparr>sv_cfg = cfg, sv_matcher = m, sv_usageStore = op_UsageStore opts,
                 sv_riskEngine = op_RiskEngine opts, sv_counterReg = op_CounterReg opts,
                 sv_pendingBlocker = op_PendingBlocker opts,
                 sv_ipBoundOpts = mode_opts (cfg_Pow cfg) ''ip_bound'' (pc_IPBound (cfg_Pow cfg)) (mc_RequireIP (pc_IPBound (cfg_Pow cfg))),
                 sv_genericOpts = mode_opts (cfg_Pow cfg) ''generic'' (pc_Generic (cfg_Pow cfg)) False,
                 sv_allowedSalts = allowed_salts (cfg_Pow cfg)\<rparr>))"

section \<open>Token checks (pow\_verify.go)\<close>

definition modeConfig :: "('u, 'c) Service \<Rightarrow> string \<Rightarrow> (bool \<times> int \<times> ValidatorOptions) option" where
  "modeConfig sv mode =
     (if mode = ''ip_bound'' then
        Some (mc_Enabled (pc_IPBound (cfg_Pow (sv_cfg sv))), mc_MaxTTLSeconds (pc_IPBound (cfg_Pow (sv_cfg sv))), sv_ipBoundOpts sv)
      else if mode = ''generic'' then
        Some (mc_Enabled (pc_Generic (cfg_Pow (sv_cfg sv))), mc_MaxTTLSeconds (pc_Generic (cfg_Pow (sv_cfg sv))), sv_genericOpts sv)
      else None)"

definition reasonFromValidationError :: "pow_error \<Rightarrow> string" where
  "reasonFromValidationError err =
     (case err of
        ErrUnsupportedVersion \<Rightarrow> ReasonUnsupportedVersion
      | ErrUnsupportedMode \<Rightarrow> ReasonUnsupportedMode
      | ErrUnsupportedAlgorithm \<Rightarrow> ReasonUnsupportedAlgorithm
      | ErrPathInvalid \<Rightarrow> ReasonMalformedToken
      | ErrPathTooLong \<Rightarrow> ReasonMalformedToken
      | ErrIPMissing \<Rightarrow> ReasonIPMissing
      | ErrIPInvalid \<Rightarrow> ReasonInvalidIP
      | ErrIPForbidden \<Rightarrow> ReasonIPForbidden
      | ErrCounterInvalid \<Rightarrow> ReasonInvalidCounter
      | ErrDifficultyInvalid \<Rightarrow> ReasonDifficultyTooLow
      | ErrSaltInvalid \<Rightarrow> ReasonInvalidSalt
      | _ \<Rightarrow> ReasonMalformedToken)"

definition sign_rune :: "nat \<Rightarrow> bool" where
  "sign_rune c \<longleftrightarrow> 48 \<le> c \<and> c \<le> 57 \<or> 97 \<le> c \<and> c \<le> 102 \<or> 65 \<le> c \<and> c \<le> 70"

definition isValidSignHex :: "string \<Rightarrow> bool" where
  "isValidSignHex s = (if length s \<noteq> 64 then False else list_all sign_rune (runes s))"

text \<open>A failed check gives its reason; \<^verbatim>\<open>None\<close> is success.\<close>

definition checkSignAndDifficulty :: "golib \<Rightarrow> TokenPayload \<Rightarrow> string \<Rightarrow> string option" where
  "checkSignAndDifficulty L p sign =
     (if \<not> isValidSignHex sign then Some ReasonInvalidSignFormat
      else if \<not> CompareSign L (ComputeSign L (Some p)) sign then Some ReasonSignMismatch
      else if \<not> HasLeadingZeroBits32 (HashCanonical L (BuildCanonicalInput (Some p))) (tp_Difficulty p)
        then Some ReasonDifficultyNotMet
      else None)"

definition checkTime :: "TokenPayload \<Rightarrow> int \<Rightarrow> int \<Rightarrow> string option" where
  "checkTime p maxTTL now =
     (if tp_ExpiresAt p \<le> now then Some ReasonExpired
      else if maxTTL > 0 \<and> wrap64 (tp_ExpiresAt p - tp_Timestamp p) > maxTTL then Some ReasonTTLTooLong
      else if tp_Timestamp p > wrap64 (now + 60) then Some ReasonTimestampFromFuture
      else None)"

definition validateTokenForMode ::
  "golib \<Rightarrow> ('u, 'c) Service \<Rightarrow> TokenPayload \<Rightarrow> string \<Rightarrow> string \<Rightarrow> string \<Rightarrow> int \<Rightarrow> string option" where
  "validateTokenForMode L sv p mode path signValue now =
     (case modeConfig sv mode of
        None \<Rightarrow> Some ReasonUnsupportedMode
      | Some (enabled, maxTTL, opts) \<Rightarrow>
          if \<not> enabled then Some ReasonModeDisabled
          else case ValidatePayload L (Some p) (Some opts) of
            Some err \<Rightarrow> Some (reasonFromValidationError err)
          | None \<Rightarrow>
              if tp_Path p \<noteq> path then Some ReasonPathMismatch
              else case checkTime p maxTTL now of
                Some reason \<Rightarrow> Some reason
              | None \<Rightarrow> checkSignAndDifficulty L p signValue)"

definition extractTokenAndSign :: "golib \<Rightarrow> ('u, 'c) Service \<Rightarrow> string \<Rightarrow> string \<times> string" where
  "extractTokenAndSign L sv args =
     (if args = [] then ([], [])
      else case ParseQuery L args of
        None \<Rightarrow> ([], [])
      | Some values \<Rightarrow> (Values_Get values (pc_TokenParam (cfg_Pow (sv_cfg sv))),
                       Values_Get values (pc_SignParam (cfg_Pow (sv_cfg sv)))))"

definition sameIP :: "golib \<Rightarrow> string \<Rightarrow> string \<Rightarrow> bool" where
  "sameIP L a b =
     (if a = [] \<or> b = [] then False
      else if EqualFold L a b then True
      else case (ParseAddr a, ParseAddr b) of
        (Some na, Some nb) \<Rightarrow> Unmap na = Unmap nb
      | _ \<Rightarrow> False)"

definition isRangeRequest :: "golib \<Rightarrow> string \<Rightarrow> string \<Rightarrow> string \<Rightarrow> bool" where
  "isRangeRequest L args method rangeHeader =
     (if EqualFold L method ''HEAD'' then True
      else if rangeHeader \<noteq> [] then True
      else if Contains (ToLower L args) ''range='' then True
      else False)"

definition toAuthTrace :: "TraceStep list \<Rightarrow> RiskTraceStep list" where
  "toAuthTrace ts = map (\<lambda>s. \<lparr>rt_Chain = ts_Chain s, rt_Rule = ts_Rule s, rt_Matched = ts_Matched s,
     rt_Target = ts_Target s, rt_JumpTo = ts_JumpTo s\<rparr>) ts"

definition statusForValidationReason :: "string \<Rightarrow> string" where
  "statusForValidationReason reason =
     (if reason = ReasonExpired then ''expired''
      else if reason = ReasonModeDisabled then ''mode_disabled''
      else ''invalid'')"

definition classifyPoW ::
  "golib \<Rightarrow> ('u, 'c) Service \<Rightarrow> int \<Rightarrow> string \<Rightarrow> string \<Rightarrow> string \<Rightarrow> string \<Rightarrow> TokenPayload option \<times> string \<times> string" where
  "classifyPoW L sv now tokenRaw signValue path realIP =
     (if int (length tokenRaw) > pc_MaxTokenLength (cfg_Pow (sv_cfg sv)) \<or>
         int (length signValue) > pc_MaxSignLength (cfg_Pow (sv_cfg sv))
      then (None, ''invalid'', [])
      else case DecodeToken L tokenRaw of
        Inl err \<Rightarrow> (None, ''invalid'', [])
      | Inr payload \<Rightarrow>
          (let mode = tp_Mode payload in
           case validateTokenForMode L sv payload mode path signValue now of
             Some reason \<Rightarrow> (Some payload, statusForValidationReason reason, mode)
           | None \<Rightarrow>
               if mode = ''ip_bound'' \<and> realIP = [] then (Some payload, ''unverifiable'', mode)
               else if mode = ''ip_bound'' \<and> tp_IP payload \<noteq> [] \<and> \<not> sameIP L (tp_IP payload) realIP
                 then (Some payload, ''invalid'', mode)
               else (Some payload, ''valid'', mode)))"

section \<open>Switches\<close>

definition powEnabled :: "('u, 'c) Service \<Rightarrow> bool" where
  "powEnabled sv \<longleftrightarrow> pc_Enabled (cfg_Pow (sv_cfg sv)) = None \<or> pc_Enabled (cfg_Pow (sv_cfg sv)) = Some True"

definition bypassAllEffective :: "('u, 'c) Service \<Rightarrow> bool" where
  "bypassAllEffective sv = pc_BypassAll (cfg_Pow (sv_cfg sv))"

definition dryRunEffective :: "('u, 'c) Service \<Rightarrow> bool" where
  "dryRunEffective sv = pc_DryRun (cfg_Pow (sv_cfg sv))"

definition maybeDryRun :: "('u, 'c) Service \<Rightarrow> AuthResult \<Rightarrow> AuthResult" where
  "maybeDryRun sv res =
     (if \<not> dryRunEffective sv \<or> a_Allowed res then res
      else res\<lparr>a_Allowed := True, a_HTTPStatus := 200, a_Reason := ReasonDryRunAllow,
        a_DryRunOriginalError := a_Reason res, a_ErrorHeader := [], a_Decision := DecisionDryRun\<rparr>)"

section \<open>Quota and binding (pow\_verify.go)\<close>

text \<open>The whole seconds of the grace period; zero when it is not positive.\<close>

definition grace_seconds :: "Config \<Rightarrow> int" where
  "grace_seconds cfg =
     (if cl_ExpiredGracePeriod (cfg_Cleanup cfg) > 0 then cl_ExpiredGracePeriod (cfg_Cleanup cfg) div Second else 0)"

definition quota_input ::
  "golib \<Rightarrow> ('u, 'c) Service \<Rightarrow> TokenPayload \<Rightarrow> AuthRequest \<Rightarrow> string \<Rightarrow> string \<Rightarrow> string \<Rightarrow> int \<Rightarrow> ConsumeInput" where
  "quota_input L sv p req tokenRaw sign mode now =
     \<lparr>ci_ID = ComputeSignID L (Some p) sign mode, ci_Mode = mode, ci_Path = tp_Path p, ci_Sign = sign,
      ci_TokenHash = HashToken L tokenRaw, ci_ExpiresAt = tp_ExpiresAt p,
      ci_MaxUses = mc_MaxUses (pc_Generic (cfg_Pow (sv_cfg sv))), ci_IP = ar_RealIP req,
      ci_UserAgent = ar_UserAgent req, ci_NowUnix = now, ci_GraceSeconds = grace_seconds (sv_cfg sv),
      ci_SkipConsume = (ar_OriginalMethod req = ''HEAD'' \<and> \<not> mc_CountHeadRequest (pc_Generic (cfg_Pow (sv_cfg sv))))\<rparr>"

definition consumeGenericQuota ::
  "golib \<Rightarrow> int \<Rightarrow> ('u, 'c) Service \<Rightarrow> TokenPayload \<Rightarrow> AuthRequest \<Rightarrow> string \<Rightarrow> string \<Rightarrow> string \<Rightarrow> int \<Rightarrow> 'u \<Rightarrow>
   ((store_error + ConsumeResult) \<times> string) \<times> 'u" where
  "consumeGenericQuota L wall sv p req tokenRaw sign mode now u =
     (let signID = ComputeSignID L (Some p) sign mode in
      case sv_usageStore sv of
        None \<Rightarrow> ((Inl ErrBackend, signID), u)
      | Some ops \<Rightarrow>
          (case uo_Consume ops wall (quota_input L sv p req tokenRaw sign mode now) u of
             (r, u') \<Rightarrow> ((r, signID), u')))"

definition finalizeGeneric ::
  "golib \<Rightarrow> int \<Rightarrow> ('u, 'c) Service \<Rightarrow> TokenPayload \<Rightarrow> AuthRequest \<Rightarrow> string \<Rightarrow> string \<Rightarrow> string \<Rightarrow> int \<Rightarrow> 'u \<Rightarrow>
   AuthResult \<times> 'u" where
  "finalizeGeneric L wall sv p req tokenRaw sign mode now u =
     (case consumeGenericQuota L wall sv p req tokenRaw sign mode now u of
        ((Inl err, signID), u') \<Rightarrow> (maybeDryRun sv (withSignID (denyStatus 500 ReasonStorageError mode) signID), u')
      | ((Inr cr, signID), u') \<Rightarrow>
          if \<not> cr_Allowed cr then
            (maybeDryRun sv ((withSignID (denyMode ReasonUsedUp mode) signID)
               \<lparr>a_Uses := cr_Uses cr, a_MaxUses := cr_MaxUses cr\<rparr>), u')
          else ((allow ReasonGenericValid mode)
                  \<lparr>a_SignID := signID, a_Uses := cr_Uses cr, a_MaxUses := cr_MaxUses cr\<rparr>, u'))"

text \<open>First-use binding: the denial, if any, the payload with its address filled in, and the store.\<close>

definition bindEmptyIPFirstUse ::
  "golib \<Rightarrow> Clocks \<Rightarrow> ('u, 'c) Service \<Rightarrow> TokenPayload \<Rightarrow> AuthRequest \<Rightarrow> string \<Rightarrow> string \<Rightarrow> string \<Rightarrow> 'u \<Rightarrow>
   AuthResult option \<times> TokenPayload \<times> 'u" where
  "bindEmptyIPFirstUse L ck sv p0 req tokenRaw sign mode u =
     (let signID = ComputeSignID L (Some p0) sign mode;
          p = p0\<lparr>tp_IP := ar_RealIP req\<rparr> in
      case sv_usageStore sv of
        None \<Rightarrow> (None, p, u)
      | Some ops \<Rightarrow>
          (case uo_Get ops signID u of
             Inr rec \<Rightarrow>
               if ur_FirstIP rec \<noteq> [] \<and> \<not> sameIP L (ur_FirstIP rec) (ar_RealIP req)
               then (Some (maybeDryRun sv (denyMode ReasonIPMismatch mode)), p, u)
               else (None, p, u)
           | Inl err \<Rightarrow>
               if err \<noteq> ErrNotFound then
                 (Some (maybeDryRun sv (withSignID (denyStatus 500 ReasonStorageError mode) signID)), p, u)
               else
                 (case uo_Consume ops (ck_wall ck)
                     \<lparr>ci_ID = signID, ci_Mode = mode, ci_Path = tp_Path p, ci_Sign = sign,
                      ci_TokenHash = HashToken L tokenRaw, ci_ExpiresAt = tp_ExpiresAt p, ci_MaxUses = 1,
                      ci_IP = ar_RealIP req, ci_UserAgent = ar_UserAgent req, ci_NowUnix = ck_bind ck,
                      ci_GraceSeconds = grace_seconds (sv_cfg sv), ci_SkipConsume = True\<rparr> u of
                    (Inl e, u') \<Rightarrow>
                      (Some (maybeDryRun sv (withSignID (denyStatus 500 ReasonStorageError mode) signID)), p, u')
                  | (Inr _, u') \<Rightarrow> (None, p, u'))))"

definition finalizeIPBound ::
  "golib \<Rightarrow> Clocks \<Rightarrow> ('u, 'c) Service \<Rightarrow> TokenPayload \<Rightarrow> AuthRequest \<Rightarrow> string \<Rightarrow> string \<Rightarrow> string \<Rightarrow> 'u \<Rightarrow>
   AuthResult \<times> 'u" where
  "finalizeIPBound L ck sv p req tokenRaw sign mode u =
     (if ar_RealIP req = [] then (denyStatus 500 ReasonMissingRealIP mode, u)
      else if tp_IP p = [] then
        (case bindEmptyIPFirstUse L ck sv p req tokenRaw sign mode u of
           (Some res, p', u') \<Rightarrow> (res, u')
         | (None, p', u') \<Rightarrow>
             ((allow ReasonIPBoundValid mode)\<lparr>a_SignID := ComputeSignID L (Some p') sign mode\<rparr>, u'))
      else if \<not> sameIP L (tp_IP p) (ar_RealIP req) then (maybeDryRun sv (denyMode ReasonIPMismatch mode), u)
      else ((allow ReasonIPBoundValid mode)\<lparr>a_SignID := ComputeSignID L (Some p) sign mode\<rparr>, u))"

definition finalizeByMode ::
  "golib \<Rightarrow> Clocks \<Rightarrow> ('u, 'c) Service \<Rightarrow> AuthRequest \<Rightarrow> TokenPayload \<Rightarrow> string \<Rightarrow> string \<Rightarrow> string \<Rightarrow> int \<Rightarrow> 'u \<Rightarrow>
   AuthResult \<times> 'u" where
  "finalizeByMode L ck sv req p tokenRaw sign mode now u =
     (if mode = ''ip_bound'' then finalizeIPBound L ck sv p req tokenRaw sign mode u
      else if mode = ''generic'' then finalizeGeneric L (ck_wall ck) sv p req tokenRaw sign mode now u
      else (maybeDryRun sv (denyMode ReasonUnsupportedMode mode), u))"

definition verifyPoWOnly ::
  "golib \<Rightarrow> Clocks \<Rightarrow> ('u, 'c) Service \<Rightarrow> AuthRequest \<Rightarrow> string \<Rightarrow> string \<Rightarrow> TokenPayload option \<Rightarrow> 'u \<Rightarrow>
   AuthResult \<times> 'u" where
  "verifyPoWOnly L ck sv req tokenRaw signValue payload u =
     (if tokenRaw = [] \<or> signValue = [] then (maybeDryRun sv (deny ReasonMissingTokenOrSign), u)
      else if int (length tokenRaw) > pc_MaxTokenLength (cfg_Pow (sv_cfg sv)) then (maybeDryRun sv (deny ReasonTokenTooLong), u)
      else if int (length signValue) > pc_MaxSignLength (cfg_Pow (sv_cfg sv)) then (maybeDryRun sv (deny ReasonSignTooLong), u)
      else case payload of
        None \<Rightarrow> (maybeDryRun sv (deny ReasonMalformedToken), u)
      | Some p \<Rightarrow>
          (let mode = tp_Mode p; now = ck_verify ck in
           case validateTokenForMode L sv p mode (ar_OriginalURI req) signValue now of
             Some reason \<Rightarrow> (maybeDryRun sv (denyMode reason mode), u)
           | None \<Rightarrow> finalizeByMode L ck sv req p tokenRaw signValue mode now u))"

section \<open>The request flow (service.go)\<close>

record VerifyCtx =
  vx_req :: AuthRequest
  vx_payload :: "TokenPayload option"
  vx_tokenRaw :: string
  vx_sign :: string
  vx_protected :: bool

definition recordResult :: "('u, 'c) Service \<Rightarrow> bool \<Rightarrow> AuthResult \<Rightarrow> ('u, 'c) World \<Rightarrow> ('u, 'c) World" where
  "recordResult sv prot res w =
     w\<lparr>w_recorded := w_recorded w @ [record_entry (cfg_Logging (sv_cfg sv)) (Some prot) res]\<rparr>"

text \<open>
  The quota of a token that a rule honours: a denial to return, or else the sign id, uses and
  limit to report.
\<close>

definition chargeQuotaForRiskAllow ::
  "golib \<Rightarrow> Clocks \<Rightarrow> ('u, 'c) Service \<Rightarrow> VerifyCtx \<Rightarrow> RequestContext \<Rightarrow> ('u, 'c) World \<Rightarrow>
   (AuthResult + string \<times> int \<times> int) \<times> ('u, 'c) World" where
  "chargeQuotaForRiskAllow L ck sv vx rq w =
     (case (if rq_PowStatus rq \<noteq> ''valid'' then None else vx_payload vx) of
        None \<Rightarrow> (Inr ([], 0, 0), w)
      | Some p \<Rightarrow>
          if rq_PowMode rq = ''generic'' then
            (case consumeGenericQuota L (ck_wall ck) sv p (vx_req vx) (vx_tokenRaw vx) (vx_sign vx) ''generic'' (ck_charge ck) (w_usage w) of
               ((Inl err, signID), u) \<Rightarrow>
                 (let res = withSignID (denyStatus 500 ReasonStorageError ''generic'') signID in
                  (Inl res, recordResult sv (vx_protected vx) res (w\<lparr>w_usage := u\<rparr>)))
             | ((Inr cr, signID), u) \<Rightarrow>
                 if \<not> cr_Allowed cr then
                   (let res = maybeDryRun sv ((withSignID (denyMode ReasonUsedUp ''generic'') signID)
                        \<lparr>a_Uses := cr_Uses cr, a_MaxUses := cr_MaxUses cr\<rparr>) in
                    (Inl res, recordResult sv (vx_protected vx) res (w\<lparr>w_usage := u\<rparr>)))
                 else (Inr (signID, cr_Uses cr, cr_MaxUses cr), w\<lparr>w_usage := u\<rparr>))
          else if rq_PowMode rq = ''ip_bound'' \<and> tp_IP p = [] then
            (case bindEmptyIPFirstUse L ck sv p (vx_req vx) (vx_tokenRaw vx) (vx_sign vx) ''ip_bound'' (w_usage w) of
               (Some res, p', u) \<Rightarrow> (Inl res, recordResult sv (vx_protected vx) res (w\<lparr>w_usage := u\<rparr>))
             | (None, p', u) \<Rightarrow> (Inr ([], 0, 0), w\<lparr>w_usage := u\<rparr>))
          else (Inr ([], 0, 0), w))"

definition with_risk :: "Decision \<Rightarrow> TraceStep list \<Rightarrow> AuthResult \<Rightarrow> AuthResult" where
  "with_risk dec trace res = res\<lparr>a_RiskChain := dc_Chain dec, a_RiskRule := dc_RuleName dec,
     a_RiskTrace := toAuthTrace trace, a_RiskMarks := dc_Marks dec\<rparr>"

text \<open>What the service does with a decision of the engine; \<^verbatim>\<open>None\<close>: not handled.\<close>

definition apply_decision ::
  "golib \<Rightarrow> Clocks \<Rightarrow> ('u, 'c) Service \<Rightarrow> VerifyCtx \<Rightarrow> RequestContext \<Rightarrow> string \<Rightarrow> Result \<Rightarrow> ('u, 'c) World \<Rightarrow>
   AuthResult option \<times> ('u, 'c) World" where
  "apply_decision L ck sv vx rq powStatus result w =
     (let dec = res_Decision result; tr = res_Trace result in
      if dc_Target dec = TargetACCEPT \<or> dc_Target dec = TargetRATELIMIT then
        (case chargeQuotaForRiskAllow L ck sv vx rq w of
           (Inl res, w') \<Rightarrow> (Some res, w')
         | (Inr (signID, uses, maxUses), w') \<Rightarrow>
             (let res = (with_risk dec tr ((allow (reasonForAccept (dc_Reason dec)) (rq_PowMode rq))
                    \<lparr>a_LimitRate := dc_LimitRate dec\<rparr>))
                    \<lparr>a_SignID := signID, a_Uses := uses, a_MaxUses := maxUses\<rparr>;
                  res' = res\<lparr>a_Decision := decideForAllow res\<rparr> in
              (Some res', recordResult sv (vx_protected vx) res' w')))
      else if dc_Target dec = TargetREJECT then
        (let res = with_risk dec tr (denyMode (if dc_Reason dec = [] then ReasonRiskReject else dc_Reason dec) (rq_PowMode rq)) in
         (Some res, recordResult sv (vx_protected vx) res w))
      else if dc_Target dec = TargetTOOMANY then
        (let res = with_risk dec tr (denyStatus 429 (if dc_Reason dec = [] then ReasonRateLimited else dc_Reason dec) (rq_PowMode rq)) in
         (Some res, recordResult sv (vx_protected vx) res w))
      else if dc_Target dec = TargetREQUIREPOW then
        (if powStatus = ''valid'' then
           (case chargeQuotaForRiskAllow L ck sv vx rq w of
              (Inl res, w') \<Rightarrow> (Some res, w')
            | (Inr (signID, uses, maxUses), w') \<Rightarrow>
                (let res = (allow ReasonRequirePowPass (rq_PowMode rq))
                       \<lparr>a_SignID := signID, a_Uses := uses, a_MaxUses := maxUses\<rparr> in
                 (Some res, recordResult sv (vx_protected vx) res w')))
         else
           (let res = (if powStatus = ''missing'' then deny ReasonMissingTokenOrSign
                       else if powStatus = ''unverifiable'' then denyStatus 500 ReasonMissingRealIP (rq_PowMode rq)
                       else denyMode (powStatusToReason powStatus) (rq_PowMode rq)) in
            (Some res, recordResult sv (vx_protected vx) res w)))
      else (None, w))"

definition lookupCounterResolver ::
  "Clocks \<Rightarrow> ('u, 'c) Service \<Rightarrow> RequestContext \<Rightarrow> 'c \<Rightarrow> CounterResolver" where
  "lookupCounterResolver ck sv rq c =
     (case sv_counterReg sv of
        None \<Rightarrow> NoopCounterResolver
      | Some reg \<Rightarrow>
          LookupResolver (map_option (\<lambda>ops n k win. co_Get ops (ck_counterGet ck) n k win c) (reg_store reg)) (reg_defs reg) rq)"

definition increment_counters ::
  "Clocks \<Rightarrow> ('u, 'c) Service \<Rightarrow> RequestContext \<Rightarrow> 'c \<Rightarrow> 'c" where
  "increment_counters ck sv rq c =
     (case sv_counterReg sv of
        None \<Rightarrow> c
      | Some reg \<Rightarrow>
          snd (IncrementForRequest (map_option (\<lambda>ops. co_Incr ops (ck_counterIncr ck)) (reg_store reg)) (reg_defs reg) rq c))"

definition runRiskEngine ::
  "golib \<Rightarrow> Clocks \<Rightarrow> ('u, 'c) Service \<Rightarrow> VerifyCtx \<Rightarrow> RequestContext \<Rightarrow> string \<Rightarrow> ('u, 'c) World \<Rightarrow>
   AuthResult option \<times> ('u, 'c) World" where
  "runRiskEngine L ck sv vx rq0 powStatus w =
     (case sv_riskEngine sv of
        None \<Rightarrow> (None, w)
      | Some e \<Rightarrow>
          (let rq = rq0\<lparr>rq_Counters := Some (lookupCounterResolver ck sv rq0 (w_counter w))\<rparr> in
           case Evaluate L e (Some rq) of
             Some (Inr result) \<Rightarrow>
               (let w1 = w\<lparr>w_counter := increment_counters ck sv rq (w_counter w),
                          w_riskDecisions := w_riskDecisions w @ [(dc_Target (res_Decision result), dc_Reason (res_Decision result))]\<rparr> in
                apply_decision L ck sv vx rq powStatus result w1)
           | _ \<Rightarrow> (None, w)))"

definition base_request :: "golib \<Rightarrow> AuthRequest \<Rightarrow> bool \<Rightarrow> RequestContext" where
  "base_request L req prot =
     \<lparr>rq_Path = ar_OriginalURI req, rq_Method = ar_OriginalMethod req, rq_Args = ar_OriginalArgs req,
      rq_IP = ar_RealIP req, rq_UserAgent = ar_UserAgent req, rq_HasToken = False, rq_HasSign = False,
      rq_PowStatus = ''missing'', rq_PowMode = [], rq_IsProtected = prot,
      rq_IsRangeRequest = isRangeRequest L (ar_OriginalArgs req) (ar_OriginalMethod req) (ar_OriginalRange req),
      rq_Counters = None\<rparr>"

definition verifyWithoutPow ::
  "golib \<Rightarrow> Clocks \<Rightarrow> ('u, 'c) Service \<Rightarrow> VerifyCtx \<Rightarrow> ('u, 'c) World \<Rightarrow> AuthResult \<times> ('u, 'c) World" where
  "verifyWithoutPow L ck sv vx w =
     (case runRiskEngine L ck sv vx (base_request L (vx_req vx) (vx_protected vx)) ''missing'' w of
        (Some res, w') \<Rightarrow> (res, w')
      | (None, w') \<Rightarrow>
          (let res = allowDecision ReasonPowDisabled [] DecisionPowDisabled in
           (res, recordResult sv (vx_protected vx) res w')))"

text \<open>The part of \<^verbatim>\<open>Verify\<close> after the pending limiter.\<close>

definition verify_admitted ::
  "golib \<Rightarrow> Clocks \<Rightarrow> ('u, 'c) Service \<Rightarrow> AuthRequest \<Rightarrow> bool \<Rightarrow> ('u, 'c) World \<Rightarrow> AuthResult \<times> ('u, 'c) World" where
  "verify_admitted L ck sv req prot w =
     (let (tokenRaw, sign) = extractTokenAndSign L sv (ar_OriginalArgs req);
          vx0 = \<lparr>vx_req = req, vx_payload = None, vx_tokenRaw = tokenRaw, vx_sign = sign, vx_protected = prot\<rparr> in
      if \<not> powEnabled sv then verifyWithoutPow L ck sv vx0 w
      else
        (let (payload, powStatus, powMode) =
               (if tokenRaw \<noteq> [] \<and> sign \<noteq> []
                then classifyPoW L sv (ck_classify ck) tokenRaw sign (ar_OriginalURI req) (ar_RealIP req)
                else (None, ''missing'', []));
             rq = (base_request L req prot)\<lparr>rq_HasToken := tokenRaw \<noteq> [], rq_HasSign := sign \<noteq> [],
               rq_PowStatus := powStatus, rq_PowMode := powMode\<rparr>;
             vx = vx0\<lparr>vx_payload := payload\<rparr> in
         case runRiskEngine L ck sv vx rq powStatus w of
           (Some res, w') \<Rightarrow> (res, w')
         | (None, w') \<Rightarrow>
             if sv_riskEngine sv = None \<and> \<not> prot then
               (let res = allowDecision ReasonNotProtected [] DecisionNotProtected in
                (res, recordResult sv prot res w'))
             else
               (case verifyPoWOnly L ck sv req tokenRaw sign payload (w_usage w') of
                  (res, u) \<Rightarrow> (res, recordResult sv prot res (w'\<lparr>w_usage := u\<rparr>)))))"

definition Verify ::
  "golib \<Rightarrow> Clocks \<Rightarrow> ('u, 'c) Service \<Rightarrow> AuthRequest \<Rightarrow> ('u, 'c) World \<Rightarrow> AuthResult \<times> ('u, 'c) World" where
  "Verify L ck sv req w =
     (let prot = ShouldProtect L (sv_matcher sv) (ar_OriginalURI req) in
      if bypassAllEffective sv then
        (let res = allowDecision ReasonBypassAll [] DecisionBypass in (res, recordResult sv prot res w))
      else if ar_OriginalURI req = [] then
        (let res = denyStatus 500 ReasonMissingHeaders [] in (res, recordResult sv prot res w))
      else if prot \<and> rk_Enabled (cfg_RiskControl (sv_cfg sv)) \<and> pendingEnabled (sv_cfg sv) \<and> sv_pendingBlocker sv then
        (case Enter L (ck_enter ck) (ar_RealIP req) (w_pending w) of
           ((rel, blocked), pb) \<Rightarrow>
             if blocked then
               (let res = denyStatus 429 ReasonIPPendingBlocked [] in
                (res, recordResult sv prot res (w\<lparr>w_pending := pb\<rparr>)))
             else
               (case verify_admitted L ck sv req prot (w\<lparr>w_pending := pb\<rparr>) of
                  (res, w') \<Rightarrow> (res, w'\<lparr>w_pending := run_release (ck_release ck) rel (w_pending w')\<rparr>)))
      else verify_admitted L ck sv req prot w)"

end
