(* ===== verification/VerifyFlow.thy ===== *)
theory VerifyFlow
  imports Auth
begin

text \<open>
  The paths of one request through \<^verbatim>\<open>Verify\<close>: the case rules that the properties of the service use,
  the frame of each part, and two properties of every request: its result is recorded once, and
  it leaves the limiter as it found it.
\<close>

section \<open>Every result is recorded once\<close>

definition recorded_once :: "('u, 'c) Service \<Rightarrow> bool \<Rightarrow> AuthResult \<Rightarrow> ('u, 'c) World \<Rightarrow> ('u, 'c) World \<Rightarrow> bool" where
  "recorded_once sv prot res w w' \<longleftrightarrow>
     w_recorded w' = w_recorded w @ [record_entry (cfg_Logging (sv_cfg sv)) (Some prot) res]"

lemma recordResult_frame [simp]:
  "w_usage (recordResult sv prot res w) = w_usage w" "w_counter (recordResult sv prot res w) = w_counter w"
  "w_pending (recordResult sv prot res w) = w_pending w"
  "w_riskDecisions (recordResult sv prot res w) = w_riskDecisions w"
  by (simp_all add: recordResult_def)

lemma w_recorded_recordResult [simp]:
  "w_recorded (recordResult sv prot res w) =
     w_recorded w @ [record_entry (cfg_Logging (sv_cfg sv)) (Some prot) res]"
  by (simp add: recordResult_def)

text \<open>
  What a part of the flow does to the log and the limiter: a result it returns has been recorded,
  and it has recorded nothing when it leaves the decision to its caller.
\<close>

definition handled_once :: "('u, 'c) Service \<Rightarrow> bool \<Rightarrow> AuthResult option \<Rightarrow> ('u, 'c) World \<Rightarrow> ('u, 'c) World \<Rightarrow> bool" where
  "handled_once sv prot r w w' \<longleftrightarrow> w_pending w' = w_pending w \<and>
     (case r of Some res \<Rightarrow> recorded_once sv prot res w w' | None \<Rightarrow> w_recorded w' = w_recorded w)"

lemma chargeQuota_once:
  "handled_once sv (vx_protected vx)
     (case fst (chargeQuotaForRiskAllow L ck sv vx rq w) of Inl res \<Rightarrow> Some res | Inr _ \<Rightarrow> None)
     w (snd (chargeQuotaForRiskAllow L ck sv vx rq w))"
  unfolding chargeQuotaForRiskAllow_def handled_once_def recorded_once_def
  by (simp add: Let_def split: option.split prod.split sum.split)

lemma handled_once_counter [simp]:
  "handled_once sv prot r (w\<lparr>w_counter := c, w_riskDecisions := ds\<rparr>) w' = handled_once sv prot r w w'"
  by (simp add: handled_once_def recorded_once_def split: option.split)

lemma handled_once_record [simp]: "handled_once sv prot (Some res) w (recordResult sv prot res w)"
  by (simp add: handled_once_def recorded_once_def)

lemma handled_once_trans:
  "handled_once sv prot None w w' \<Longrightarrow> handled_once sv prot r w' w'' \<Longrightarrow> handled_once sv prot r w w''"
  by (simp add: handled_once_def recorded_once_def split: option.splits)

lemma handled_once_refl [simp]: "handled_once sv prot None w w"
  by (simp add: handled_once_def)

lemma handled_once_usage [simp]:
  "handled_once sv prot r w (recordResult sv prot res (w'\<lparr>w_usage := u\<rparr>)) = handled_once sv prot r w (recordResult sv prot res w')"
  by (simp add: handled_once_def recorded_once_def split: option.split)

lemma apply_decision_once:
  "handled_once sv (vx_protected vx) (fst (apply_decision L ck sv vx rq st result w)) w
     (snd (apply_decision L ck sv vx rq st result w))"
proof -
  obtain d w' where c: "chargeQuotaForRiskAllow L ck sv vx rq w = (d, w')" by (metis prod.collapse)
  have "handled_once sv (vx_protected vx) (case d of Inl res \<Rightarrow> Some res | Inr _ \<Rightarrow> None) w w'"
    using chargeQuota_once [of sv vx L ck rq w] c by simp
  then show ?thesis
    unfolding apply_decision_def c
    by (cases d) (simp_all add: Let_def handled_once_trans [OF _ handled_once_record] split: prod.split)
qed

text \<open>The request and the world that the engine leaves to the service.\<close>

definition engine_request :: "Clocks \<Rightarrow> ('u, 'c) Service \<Rightarrow> ('u, 'c) World \<Rightarrow> RequestContext \<Rightarrow> RequestContext" where
  "engine_request ck sv w rq = rq\<lparr>rq_Counters := Some (lookupCounterResolver ck sv rq (w_counter w))\<rparr>"

definition engine_world ::
  "Clocks \<Rightarrow> ('u, 'c) Service \<Rightarrow> RequestContext \<Rightarrow> Result \<Rightarrow> ('u, 'c) World \<Rightarrow> ('u, 'c) World" where
  "engine_world ck sv rq result w =
     w\<lparr>w_counter := increment_counters ck sv (engine_request ck sv w rq) (w_counter w),
       w_riskDecisions := w_riskDecisions w @ [(dc_Target (res_Decision result), dc_Reason (res_Decision result))]\<rparr>"

lemma runRiskEngine_cases [consumes 0, case_names unhandled decided]:
  obtains "runRiskEngine L ck sv vx rq st w = (None, w)"
  | e result where "sv_riskEngine sv = Some e"
      "Evaluate L e (Some (engine_request ck sv w rq)) = Some (Inr result)"
      "runRiskEngine L ck sv vx rq st w =
         apply_decision L ck sv vx (engine_request ck sv w rq) st result (engine_world ck sv rq result w)"
proof (cases "sv_riskEngine sv")
  case None
  then show ?thesis using that(1) by (simp add: runRiskEngine_def)
next
  case e: (Some e)
  consider "\<forall>result. Evaluate L e (Some (engine_request ck sv w rq)) \<noteq> Some (Inr result)"
    | result where "Evaluate L e (Some (engine_request ck sv w rq)) = Some (Inr result)" by blast
  then show ?thesis
  proof cases
    case 1
    then have "runRiskEngine L ck sv vx rq st w = (None, w)"
      using e by (simp add: runRiskEngine_def Let_def engine_request_def split: option.split sum.split)
    then show ?thesis by (rule that(1))
  next
    case (2 result)
    then have "runRiskEngine L ck sv vx rq st w =
        apply_decision L ck sv vx (engine_request ck sv w rq) st result (engine_world ck sv rq result w)"
      using e by (simp add: runRiskEngine_def Let_def engine_request_def engine_world_def)
    with e 2 show ?thesis by (rule that(2))
  qed
qed

lemma runRiskEngine_once:
  "handled_once sv (vx_protected vx) (fst (runRiskEngine L ck sv vx rq st w)) w
     (snd (runRiskEngine L ck sv vx rq st w))"
proof (cases rule: runRiskEngine_cases [of L ck sv vx rq st w])
  case (decided e result)
  with apply_decision_once [of sv vx L ck "engine_request ck sv w rq" st result "engine_world ck sv rq result w"]
  show ?thesis by (simp add: engine_world_def)
qed simp

lemma runRiskEngine_onceD:
  assumes "runRiskEngine L ck sv vx rq st w = (r, w')"
  shows "handled_once sv (vx_protected vx) r w w'"
  using runRiskEngine_once [of sv vx L ck rq st w] assms by simp

lemma verifyWithoutPow_once:
  "handled_once sv (vx_protected vx) (Some (fst (verifyWithoutPow L ck sv vx w))) w
     (snd (verifyWithoutPow L ck sv vx w))"
proof -
  obtain r w' where e: "runRiskEngine L ck sv vx (base_request L (vx_req vx) (vx_protected vx)) ''missing'' w = (r, w')"
    by (metis prod.collapse)
  from runRiskEngine_onceD [OF this] show ?thesis
    unfolding verifyWithoutPow_def e
    by (cases r) (simp_all add: Let_def handled_once_trans [OF _ handled_once_record])
qed

text \<open>The token of a request, its classification, and what the engine is asked.\<close>

definition presented :: "golib \<Rightarrow> ('u, 'c) Service \<Rightarrow> AuthRequest \<Rightarrow> string \<times> string" where
  "presented L sv req = extractTokenAndSign L sv (ar_OriginalArgs req)"

definition classified ::
  "golib \<Rightarrow> Clocks \<Rightarrow> ('u, 'c) Service \<Rightarrow> AuthRequest \<Rightarrow> TokenPayload option \<times> string \<times> string" where
  "classified L ck sv req =
     (case presented L sv req of (tokenRaw, sign) \<Rightarrow>
        if tokenRaw \<noteq> [] \<and> sign \<noteq> []
        then classifyPoW L sv (ck_classify ck) tokenRaw sign (ar_OriginalURI req) (ar_RealIP req)
        else (None, ''missing'', []))"

definition request_ctx :: "golib \<Rightarrow> Clocks \<Rightarrow> ('u, 'c) Service \<Rightarrow> AuthRequest \<Rightarrow> bool \<Rightarrow> VerifyCtx" where
  "request_ctx L ck sv req prot =
     \<lparr>vx_req = req, vx_payload = fst (classified L ck sv req), vx_tokenRaw = fst (presented L sv req),
      vx_sign = snd (presented L sv req), vx_protected = prot\<rparr>"

definition risk_request :: "golib \<Rightarrow> Clocks \<Rightarrow> ('u, 'c) Service \<Rightarrow> AuthRequest \<Rightarrow> bool \<Rightarrow> RequestContext" where
  "risk_request L ck sv req prot =
     (base_request L req prot)\<lparr>rq_HasToken := fst (presented L sv req) \<noteq> [], rq_HasSign := snd (presented L sv req) \<noteq> [],
       rq_PowStatus := fst (snd (classified L ck sv req)), rq_PowMode := snd (snd (classified L ck sv req))\<rparr>"

definition run_engine ::
  "golib \<Rightarrow> Clocks \<Rightarrow> ('u, 'c) Service \<Rightarrow> AuthRequest \<Rightarrow> bool \<Rightarrow> ('u, 'c) World \<Rightarrow> AuthResult option \<times> ('u, 'c) World" where
  "run_engine L ck sv req prot w =
     runRiskEngine L ck sv (request_ctx L ck sv req prot) (risk_request L ck sv req prot)
       (fst (snd (classified L ck sv req))) w"

lemma verify_admitted_pow:
  assumes "powEnabled sv"
  shows "verify_admitted L ck sv req prot w =
    (case run_engine L ck sv req prot w of
       (Some res, w') \<Rightarrow> (res, w')
     | (None, w') \<Rightarrow>
         if sv_riskEngine sv = None \<and> \<not> prot then
           (allowDecision ReasonNotProtected [] DecisionNotProtected,
            recordResult sv prot (allowDecision ReasonNotProtected [] DecisionNotProtected) w')
         else
           (case verifyPoWOnly L ck sv req (fst (presented L sv req)) (snd (presented L sv req))
                 (fst (classified L ck sv req)) (w_usage w') of
              (res, u) \<Rightarrow> (res, recordResult sv prot res (w'\<lparr>w_usage := u\<rparr>))))"
proof -
  obtain t s where p: "presented L sv req = (t, s)" by (cases "presented L sv req")
  obtain pl st md where c: "classified L ck sv req = (pl, st, md)" by (cases "classified L ck sv req")
  have "(if t \<noteq> [] \<and> s \<noteq> [] then classifyPoW L sv (ck_classify ck) t s (ar_OriginalURI req) (ar_RealIP req)
      else (None, ''missing'', [])) = (pl, st, md)"
    using c p by (simp add: classified_def)
  then show ?thesis
    using assms p c unfolding verify_admitted_def run_engine_def request_ctx_def risk_request_def
    by (auto simp: presented_def Let_def split: prod.split option.split)
qed

lemma verify_admitted_without_pow:
  assumes "\<not> powEnabled sv"
  shows "verify_admitted L ck sv req prot w = verifyWithoutPow L ck sv
    \<lparr>vx_req = req, vx_payload = None, vx_tokenRaw = fst (presented L sv req), vx_sign = snd (presented L sv req),
     vx_protected = prot\<rparr> w"
  using assms by (simp add: verify_admitted_def presented_def Let_def split_beta)

lemma verify_admitted_once:
  "handled_once sv prot (Some (fst (verify_admitted L ck sv req prot w))) w (snd (verify_admitted L ck sv req prot w))"
proof (cases "powEnabled sv")
  case True
  obtain r w' where e: "run_engine L ck sv req prot w = (r, w')" by (metis prod.collapse)
  have "handled_once sv prot r w w'"
    using runRiskEngine_onceD [OF e [unfolded run_engine_def]] by (simp add: request_ctx_def)
  then show ?thesis
    unfolding verify_admitted_pow [OF True] e
    by (cases r) (auto simp: split_beta intro: handled_once_trans [OF _ handled_once_record])
next
  case False
  show ?thesis unfolding verify_admitted_without_pow [OF False]
    using verifyWithoutPow_once [of sv "\<lparr>vx_req = req, vx_payload = None, vx_tokenRaw = fst (presented L sv req),
      vx_sign = snd (presented L sv req), vx_protected = prot\<rparr>"] by simp
qed

lemma verify_admitted_onceD:
  assumes "verify_admitted L ck sv req prot w = (r, w')"
  shows "recorded_once sv prot r w w'" and "w_pending w' = w_pending w"
  using verify_admitted_once [of sv prot L ck req w] assms by (simp_all add: handled_once_def)

text \<open>The ways through \<^verbatim>\<open>Verify\<close>: bypass, no URI, refused by the limiter, or admitted to the flow.\<close>

definition limiter_applies :: "golib \<Rightarrow> ('u, 'c) Service \<Rightarrow> AuthRequest \<Rightarrow> bool" where
  "limiter_applies L sv req \<longleftrightarrow> ShouldProtect L (sv_matcher sv) (ar_OriginalURI req) \<and>
     rk_Enabled (cfg_RiskControl (sv_cfg sv)) \<and> pendingEnabled (sv_cfg sv) \<and> sv_pendingBlocker sv"

lemma Verify_cases [consumes 1, case_names bypass no_uri blocked limited free]:
  assumes "prot = ShouldProtect L (sv_matcher sv) (ar_OriginalURI req)"
  obtains "bypassAllEffective sv"
      "Verify L ck sv req w = (allowDecision ReasonBypassAll [] DecisionBypass,
         recordResult sv prot (allowDecision ReasonBypassAll [] DecisionBypass) w)"
  | "\<not> bypassAllEffective sv" "ar_OriginalURI req = []"
      "Verify L ck sv req w = (denyStatus 500 ReasonMissingHeaders [],
         recordResult sv prot (denyStatus 500 ReasonMissingHeaders []) w)"
  | rel pb where "\<not> bypassAllEffective sv" "ar_OriginalURI req \<noteq> []" "limiter_applies L sv req"
      "Enter L (ck_enter ck) (ar_RealIP req) (w_pending w) = ((rel, True), pb)"
      "Verify L ck sv req w = (denyStatus 429 ReasonIPPendingBlocked [],
         recordResult sv prot (denyStatus 429 ReasonIPPendingBlocked []) (w\<lparr>w_pending := pb\<rparr>))"
  | rel pb r w' where "\<not> bypassAllEffective sv" "ar_OriginalURI req \<noteq> []" "limiter_applies L sv req"
      "Enter L (ck_enter ck) (ar_RealIP req) (w_pending w) = ((rel, False), pb)"
      "verify_admitted L ck sv req prot (w\<lparr>w_pending := pb\<rparr>) = (r, w')"
      "Verify L ck sv req w = (r, w'\<lparr>w_pending := run_release (ck_release ck) rel (w_pending w')\<rparr>)"
  | r w' where "\<not> bypassAllEffective sv" "ar_OriginalURI req \<noteq> []" "\<not> limiter_applies L sv req"
      "verify_admitted L ck sv req prot w = (r, w')" "Verify L ck sv req w = (r, w')"
proof -
  obtain rel blocked pb where e: "Enter L (ck_enter ck) (ar_RealIP req) (w_pending w) = ((rel, blocked), pb)"
    by (metis prod.collapse)
  obtain r1 w1 where v1: "verify_admitted L ck sv req prot w = (r1, w1)" by (metis prod.collapse)
  obtain r2 w2 where v2: "verify_admitted L ck sv req prot (w\<lparr>w_pending := pb\<rparr>) = (r2, w2)" by (metis prod.collapse)
  note V = Verify_def [of L ck sv req w, folded assms, unfolded Let_def]
  consider "bypassAllEffective sv" | "\<not> bypassAllEffective sv" "ar_OriginalURI req = []"
    | "\<not> bypassAllEffective sv" "ar_OriginalURI req \<noteq> []" "limiter_applies L sv req" blocked
    | "\<not> bypassAllEffective sv" "ar_OriginalURI req \<noteq> []" "limiter_applies L sv req" "\<not> blocked"
    | "\<not> bypassAllEffective sv" "ar_OriginalURI req \<noteq> []" "\<not> limiter_applies L sv req" by blast
  then show ?thesis
  proof cases
    case 1
    then show ?thesis using V by (intro that(1)) simp_all
  next
    case 2
    then show ?thesis using V by (intro that(2)) simp_all
  next
    case 3
    then show ?thesis using V e assms by (intro that(3) [of rel pb]) (simp_all add: limiter_applies_def)
  next
    case 4
    then show ?thesis using V e v2 assms by (intro that(4) [of rel pb r2 w2]) (simp_all add: limiter_applies_def)
  next
    case 5
    then show ?thesis using V v1 assms by (intro that(5) [of r1 w1]) (auto simp: limiter_applies_def)
  qed
qed

section \<open>Properties\<close>

text \<open>
  C8: Every result is recorded exactly once. Whatever the configuration, the collaborators and
  the request, \<^verbatim>\<open>Verify\<close> appends one entry to what is recorded, and it is the entry of the
  result that it returns, labelled with the protection verdict of the path; no path through
  the flow returns without it or records a result that is then replaced.
\<close>

theorem Verify_records_once:
  "recorded_once sv (ShouldProtect L (sv_matcher sv) (ar_OriginalURI req)) (fst (Verify L ck sv req w)) w
     (snd (Verify L ck sv req w))"
  using refl [of "ShouldProtect L (sv_matcher sv) (ar_OriginalURI req)"]
proof (cases rule: Verify_cases [where ck = ck and w = w])
  case (limited rel pb r w')
  with verify_admitted_onceD(1) [OF limited(5)] show ?thesis by (simp add: recorded_once_def)
next
  case (free r w')
  with verify_admitted_onceD(1) [OF free(4)] show ?thesis by simp
qed (simp_all add: recorded_once_def)

lemma Verify_pending:
  "w_pending (snd (Verify L ck sv req w)) =
     (if \<not> bypassAllEffective sv \<and> ar_OriginalURI req \<noteq> [] \<and> limiter_applies L sv req
      then limiter.bracket (L, ck_enter ck) (ck_release ck) (ar_RealIP req) (w_pending w)
      else w_pending w)"
  using refl [of "ShouldProtect L (sv_matcher sv) (ar_OriginalURI req)"]
proof (cases rule: Verify_cases [where ck = ck and w = w])
  case (limited rel pb r w')
  with verify_admitted_onceD(2) [OF limited(5)] show ?thesis
    by (simp add: limiter.bracket_def limiter_enter_def)
next
  case (free r w')
  with verify_admitted_onceD(2) [OF free(4)] show ?thesis by simp
qed (simp_all add: limiter.bracket_def limiter_enter_def)

text \<open>A sequence of requests, each with the clock readings it meets.\<close>

fun Verify_all ::
  "golib \<Rightarrow> ('u, 'c) Service \<Rightarrow> (Clocks \<times> AuthRequest) list \<Rightarrow> ('u, 'c) World \<Rightarrow> AuthResult list \<times> ('u, 'c) World" where
  "Verify_all L sv [] w = ([], w)"
| "Verify_all L sv ((ck, req) # rest) w =
     (case Verify L ck sv req w of
        (r, w') \<Rightarrow> (case Verify_all L sv rest w' of (rs, w'') \<Rightarrow> (r # rs, w'')))"

lemma Verify_restores_slots_1:
  assumes "limiter_inv (w_pending w)" and "0 \<le> ck_enter ck"
  shows "limiter_inv (w_pending (snd (Verify L ck sv req w))) \<and>
    pending_of (w_pending (snd (Verify L ck sv req w))) c = pending_of (w_pending w) c"
  using limiter.bracket_restores [OF assms(1), where e = "(L, ck_enter ck)"] assms by (simp add: Verify_pending)

text \<open>
  C21: No slot of the limiter leaks. After any sequence of requests, with any verdicts, errors and
  refusals among them, every client address has as many requests in progress in the pending
  limiter as before: an admitted request gives its slot back, a refused one never held one.
\<close>

theorem Verify_restores_slots:
  assumes "limiter_inv (w_pending w)" and "\<forall>(ck, req) \<in> set rs. 0 \<le> ck_enter ck"
  shows "pending_of (w_pending (snd (Verify_all L sv rs w))) c = pending_of (w_pending w) c"
  using assms
proof (induction rs arbitrary: w)
  case (Cons x rs)
  obtain ck req where x: "x = (ck, req)" by (cases x)
  with Cons.prems Verify_restores_slots_1 [of w ck L sv req c] Cons.IH [of "snd (Verify L ck sv req w)"]
  show ?case by (auto simp: split_beta)
qed simp

subsection \<open>A service for examples\<close>

text \<open>
  The in-memory usage store behind the interface, and a service that uses it: generic mode with
  two uses per token, every path protected; with \<open>demo_rules\<close> as its engine also risk control
  and the limiter.
\<close>

definition mem_usage_ops :: "MemUsageStore UsageOps" where
  "mem_usage_ops = \<lparr>uo_Consume = Consume, uo_Get = Get\<rparr>"

definition demo_pow :: PowConfig where
  "demo_pow = (default_pow (cfg_Pow (config_pow_generic_on zero_config)))\<lparr>pc_PublicSalt := ''s'',
     pc_Generic := (default_generic zero_mode)\<lparr>mc_Enabled := True, mc_MinDifficulty := 4, mc_MaxUses := 2\<rparr>\<rparr>"

definition demo_cfg :: Config where
  "demo_cfg = (applyDefaults zero_config)\<lparr>cfg_Pow := demo_pow\<rparr>"

definition demo_options :: "(MemUsageStore, MemCounterStore) Options" where
  "demo_options = \<lparr>op_Config = Some demo_cfg, op_Matcher = Some AlwaysMatcher, op_UsageStore = Some mem_usage_ops,
     op_RiskEngine = None, op_CounterReg = None, op_PendingBlocker = False\<rparr>"

definition demo_rules :: ChainMap where
  "demo_rules = [(''input'', \<lparr>ch_Name = ''input'', ch_Rules = [], ch_Policy = \<lparr>pol_Target = ''REQUIRE_POW'', pol_Status = 0,
     pol_LimitRate = [], pol_Reason = ''open''\<rparr>\<rparr>)]"

definition guarded_options :: "(MemUsageStore, MemCounterStore) Options" where
  "guarded_options = demo_options\<lparr>op_Config := Some (demo_cfg\<lparr>cfg_RiskControl := demo_risk\<rparr>),
     op_RiskEngine := Some demo_rules, op_PendingBlocker := True\<rparr>"

definition service_of :: "('u, 'c) Options \<Rightarrow> ('u, 'c) Service" where
  "service_of opts = (case New opts of Inr sv \<Rightarrow> sv)"

definition demo_world :: "(MemUsageStore, MemCounterStore) World" where
  "demo_world = \<lparr>w_usage = NewUsageStore, w_counter = NewCounterStore, w_pending = NewIPPendingBlocker 2 1000,
     w_recorded = [], w_riskDecisions = []\<rparr>"

definition demo_clocks :: "int \<Rightarrow> Clocks" where
  "demo_clocks t = \<lparr>ck_enter = t, ck_release = t, ck_classify = t, ck_verify = t, ck_charge = t, ck_bind = t, ck_wall = t,
     ck_counterGet = (t, t), ck_counterIncr = (t, t)\<rparr>"

definition demo_sign :: string where "demo_sign = replicate 62 (CHR ''0'') @ ''ab''"

definition demo_req :: AuthRequest where
  "demo_req = \<lparr>ar_OriginalURI = ''/a.iso'', ar_OriginalMethod = ''GET'', ar_OriginalArgs = ''token=AAAA&sign='' @ demo_sign,
     ar_RealIP = ''10.0.0.9'', ar_UserAgent = ''curl'', ar_OriginalRange = []\<rparr>"

lemma demo_New: "New demo_options = Inr (service_of demo_options)"
  "New guarded_options = Inr (service_of guarded_options)"
  by (simp_all add: New_def service_of_def demo_options_def guarded_options_def demo_cfg_def zero_config_def
      applyDefaults_def demo_risk_def)

lemma limiter_inv_New: "maxPerIP < 2 ^ 63 \<Longrightarrow> limiter_inv (NewIPPendingBlocker maxPerIP ttl)"
  using wf_New [of maxPerIP ttl]
  by (simp add: limiter_inv_def pending_of_def entry_of_def NewIPPendingBlocker_def)

theorem Verify_restores_slots_witness:
  "limiter_applies demo_lib (service_of guarded_options) demo_req \<and>
   pending_of (w_pending (snd (Verify_all demo_lib (service_of guarded_options)
     [(demo_clocks 100, demo_req), (demo_clocks 200, demo_req)] demo_world))) ''10.0.0.9'' = 0"
proof -
  have "limiter_inv (w_pending demo_world)" using limiter_inv_New [of 2 1000] by (simp add: demo_world_def)
  moreover have "\<forall>(ck, req) \<in> set [(demo_clocks 100, demo_req), (demo_clocks 200, demo_req)]. 0 \<le> ck_enter ck"
    by (simp add: demo_clocks_def)
  ultimately have "pending_of (w_pending (snd (Verify_all demo_lib (service_of guarded_options)
      [(demo_clocks 100, demo_req), (demo_clocks 200, demo_req)] demo_world))) ''10.0.0.9'' =
      pending_of (w_pending demo_world) ''10.0.0.9''"
    by (rule Verify_restores_slots)
  moreover have "pending_of (w_pending demo_world) ''10.0.0.9'' = 0"
    and "limiter_applies demo_lib (service_of guarded_options) demo_req" by code_simp+
  ultimately show ?thesis by simp
qed

end
