(* ===== verification/TokenSpec.thy ===== *)
theory TokenSpec
  imports VerifyFlow
begin

text \<open>
  What it takes for a token to be honoured: a specification of a good token over the
  configuration, proved to be what \<^verbatim>\<open>validateTokenForMode\<close> checks, and the verdict of
  \<^verbatim>\<open>Verify\<close> in terms of it, without a rule engine and through \<^verbatim>\<open>REQUIRE_POW\<close>.
\<close>

section \<open>Signs\<close>

lemma rune_of_bytes_high:
  "0xC2 \<le> b \<Longrightarrow> 0x80 \<le> (b - 0xC0) * 64 + x"
  "second_ok b b1 \<Longrightarrow> 0xE0 \<le> b \<Longrightarrow> b \<le> 0xEF \<Longrightarrow> 0x80 \<le> (b - 0xE0) * 4096 + (b1 - 0x80) * 64 + x"
  "second_ok b b1 \<Longrightarrow> 0xF0 \<le> b \<Longrightarrow> 0x80 \<le> (b - 0xF0) * 262144 + (b1 - 0x80) * 4096 + x + y"
proof -
  show "0xC2 \<le> b \<Longrightarrow> 0x80 \<le> (b - 0xC0) * 64 + x" by linarith
  have "0x20 \<le> b1 - 0x80 \<or> 1 \<le> b - 0xE0" if "second_ok b b1" "0xE0 \<le> b" "b \<le> 0xEF"
    using that by (auto simp: second_ok_def split: if_splits)
  then show "second_ok b b1 \<Longrightarrow> 0xE0 \<le> b \<Longrightarrow> b \<le> 0xEF \<Longrightarrow> 0x80 \<le> (b - 0xE0) * 4096 + (b1 - 0x80) * 64 + x"
    by (elim meta_allE meta_impE disjE) linarith+
  have "0x10 \<le> b1 - 0x80 \<or> 1 \<le> b - 0xF0" if "second_ok b b1" "0xF0 \<le> b"
    using that by (auto simp: second_ok_def split: if_splits)
  then show "second_ok b b1 \<Longrightarrow> 0xF0 \<le> b \<Longrightarrow> 0x80 \<le> (b - 0xF0) * 262144 + (b1 - 0x80) * 4096 + x + y"
    by (elim meta_allE meta_impE disjE) linarith+
qed

lemma DecodeRune_high:
  assumes "0x80 \<le> b"
  shows "0x80 \<le> fst (DecodeRune b bs)"
proof -
  consider "b < 0xC2" | "0xC2 \<le> b \<and> b \<le> 0xDF" | "0xE0 \<le> b \<and> b \<le> 0xEF" | "0xF0 \<le> b \<and> b \<le> 0xF4" | "0xF4 < b"
    by linarith
  then show ?thesis
    by cases (use assms rune_of_bytes_high [of b] in \<open>simp_all add: DecodeRune_def split: list.split\<close>)
qed

lemma low_runes_low_bytes: "list_all (\<lambda>r. r < 0x80) (decode_runes bs) \<Longrightarrow> list_all (\<lambda>b. b < 0x80) bs"
proof (induction bs rule: decode_runes.induct)
  case (2 b bs)
  then have "b < 0x80" using DecodeRune_high [of b bs] by force
  then have "snd (DecodeRune b bs) = 1" by (simp add: DecodeRune_def)
  with 2 \<open>b < 0x80\<close> show ?case by simp
qed simp

lemma isValidSignHex_iff: "isValidSignHex s \<longleftrightarrow> length s = 64 \<and> is_ascii s \<and> list_all (\<lambda>c. sign_rune (byte_of c)) s"
proof -
  have "is_ascii s" if "list_all sign_rune (runes s)"
  proof -
    have "list_all (\<lambda>r. r < 0x80) (runes s)" using that by (auto simp: list_all_iff sign_rune_def)
    then show ?thesis using low_runes_low_bytes [of "map byte_of s"]
      by (auto simp: runes_def is_ascii_def list_all_iff)
  qed
  then show ?thesis by (auto simp: isValidSignHex_def runes_ascii list_all_iff)
qed

lemma sign_rune_lower:
  assumes "lower_hex (lower_byte c)"
  shows "sign_rune (byte_of c)"
proof (cases "65 \<le> byte_of c \<and> byte_of c \<le> (90 :: nat)")
  case True
  then have "byte_of (lower_byte c) = byte_of c + (32 :: nat)" by (simp add: lower_byte_def of_char_of)
  with assms True show ?thesis by (auto simp: lower_hex_def sign_rune_def)
next
  case False
  with assms show ?thesis by (auto simp: lower_byte_def lower_hex_def sign_rune_def split: if_splits)
qed

lemma sign_rune_ascii: "sign_rune (byte_of c) \<Longrightarrow> byte_of c < (128 :: nat)"
  by (auto simp: sign_rune_def)

text \<open>The work: the hash of the canonical text is below the threshold of the difficulty.\<close>

definition work_done :: "golib \<Rightarrow> TokenPayload \<Rightarrow> bool" where
  "work_done L p \<longleftrightarrow> tp_Difficulty p \<le> 256 \<and>
     unat (Sum256 L (BuildCanonicalInput (Some p))) < 2 ^ (256 - nat (tp_Difficulty p))"

lemma work_done_iff:
  "HasLeadingZeroBits32 (HashCanonical L (BuildCanonicalInput (Some p))) (tp_Difficulty p) \<longleftrightarrow> work_done L p"
proof -
  have "unat (Sum256 L (BuildCanonicalInput (Some p))) < 2 ^ 256" using unsigned_less [of "Sum256 L (BuildCanonicalInput (Some p))", where ?'a = nat] by simp
  then show ?thesis
    by (auto simp: HasLeadingZeroBits32_def HashCanonical_def HasLeadingZeroBits_iff work_done_def)
qed

lemma checkSignAndDifficulty_iff:
  "checkSignAndDifficulty L p s = None \<longleftrightarrow> map lower_byte s = ComputeSign L (Some p) \<and> work_done L p"
proof -
  let ?d = "ComputeSign L (Some p)"
  have d: "length ?d = 64" "is_ascii ?d" "map lower_byte ?d = ?d"
    by (simp_all add: ComputeSign_def)
  have valid: "isValidSignHex s" if "map lower_byte s = ?d"
  proof -
    have "length s = 64" using that d(1) by (metis length_map)
    moreover have "sign_rune (byte_of c)" if "c \<in> set s" for c
      using that \<open>map lower_byte s = ?d\<close> hex_chars [of "lower_byte c"]
      by (intro sign_rune_lower) (metis ComputeSign_def image_eqI set_map)
    ultimately show ?thesis using sign_rune_ascii by (auto simp: isValidSignHex_iff is_ascii_def list_all_iff)
  qed
  have "CompareSign L ?d s \<longleftrightarrow> map lower_byte s = ?d" if "isValidSignHex s"
    using that d by (auto simp: CompareSign_def EqualFold_def isValidSignHex_iff)
  with valid show ?thesis
    by (auto simp: checkSignAndDifficulty_def work_done_iff split: if_splits)
qed

section \<open>Good tokens\<close>

definition mode_conf :: "PowConfig \<Rightarrow> string \<Rightarrow> ModeConfig" where
  "mode_conf pc mode = (if mode = ''ip_bound'' then pc_IPBound pc else pc_Generic pc)"

definition well_formed_token :: "golib \<Rightarrow> PowConfig \<Rightarrow> TokenPayload \<Rightarrow> bool" where
  "well_formed_token L pc p \<longleftrightarrow>
     tp_Version p = 1 \<and> tp_Algorithm p \<noteq> [] \<and> EqualFold L (tp_Algorithm p) (or_string ''sha256'' (pc_Algorithm pc)) \<and>
     HasPrefix (tp_Path p) ''/'' \<and> length (tp_Path p) \<le> 4096 \<and> isCanonicalSafe (tp_Path p) \<and>
     (tp_IP p \<noteq> [] \<longrightarrow> tp_Mode p = ''ip_bound'' \<and> ParseAddr (tp_IP p) \<noteq> None) \<and>
     length (tp_Counter p) \<in> {1..64} \<and> isCounterSafe (tp_Counter p) \<and>
     (if tp_Salt p = [] then pc_AllowEmptySalt pc
      else isCanonicalSafe (tp_Salt p) \<and> tp_Salt p \<in> set (pc_PublicSalt pc # pc_AllowedPreviousSalts pc))"

definition good_token :: "golib \<Rightarrow> PowConfig \<Rightarrow> string \<Rightarrow> int \<Rightarrow> string \<Rightarrow> TokenPayload \<Rightarrow> bool" where
  "good_token L pc path now sign p \<longleftrightarrow>
     (let m = mode_conf pc (tp_Mode p) in
      tp_Mode p \<in> {''ip_bound'', ''generic''} \<and> mc_Enabled m \<and> well_formed_token L pc p \<and> tp_Path p = path \<and>
      max 0 (mc_MinDifficulty m) \<le> tp_Difficulty p \<and>
      tp_Difficulty p \<le> (if mc_MaxDifficulty m > 0 then mc_MaxDifficulty m else 64) \<and>
      0 < tp_Timestamp p \<and> tp_Timestamp p < tp_ExpiresAt p \<and> tp_Timestamp p \<le> now + 60 \<and> now < tp_ExpiresAt p \<and>
      (mc_MaxTTLSeconds m > 0 \<longrightarrow> tp_ExpiresAt p - tp_Timestamp p \<le> mc_MaxTTLSeconds m) \<and>
      map lower_byte sign = ComputeSign L (Some p) \<and> work_done L p)"

lemma New_options:
  assumes "New opts = Inr sv"
  shows "sv_ipBoundOpts sv = mode_opts (cfg_Pow (sv_cfg sv)) ''ip_bound'' (pc_IPBound (cfg_Pow (sv_cfg sv)))
      (mc_RequireIP (pc_IPBound (cfg_Pow (sv_cfg sv))))"
    and "sv_genericOpts sv = mode_opts (cfg_Pow (sv_cfg sv)) ''generic'' (pc_Generic (cfg_Pow (sv_cfg sv))) False"
    and "rk_Enabled (cfg_RiskControl (sv_cfg sv)) \<Longrightarrow> sv_riskEngine sv \<noteq> None"
  using assms by (auto simp: New_def split: option.splits if_splits)

lemma ValidatePayload_mode_opts:
  assumes "mode \<in> {''ip_bound'', ''generic''}"
  shows "ValidatePayload L (Some p) (Some (mode_opts pc mode m rip)) = None \<longleftrightarrow>
    tp_Mode p = mode \<and> well_formed_token L pc p \<and> max 0 (mc_MinDifficulty m) \<le> tp_Difficulty p \<and>
    tp_Difficulty p \<le> (if mc_MaxDifficulty m > 0 then mc_MaxDifficulty m else 64) \<and>
    0 < tp_Timestamp p \<and> tp_Timestamp p < tp_ExpiresAt p"
proof -
  have ip: "check_ip_field p = None \<longleftrightarrow> (tp_IP p \<noteq> [] \<longrightarrow> tp_Mode p = ''ip_bound'' \<and> ParseAddr (tp_IP p) \<noteq> None)"
    if "tp_Mode p = mode" using that assms by (auto simp: check_ip_field_def isValidIPString_def)
  have salt: "salt_ok p (Some (mode_opts pc mode m rip)) \<longleftrightarrow>
      (if tp_Salt p = [] then pc_AllowEmptySalt pc
       else isCanonicalSafe (tp_Salt p) \<and> tp_Salt p \<in> set (pc_PublicSalt pc # pc_AllowedPreviousSalts pc))"
    by (auto simp: salt_ok_def mode_opts_def allowed_salts_def)
  have cnt: "length (tp_Counter p) \<in> {1..64} \<longleftrightarrow> tp_Counter p \<noteq> [] \<and> length (tp_Counter p) \<le> 64"
    by (cases "tp_Counter p") auto
  have path: "HasPrefix (tp_Path p) ''/'' \<Longrightarrow> tp_Path p \<noteq> []" by (auto simp: HasPrefix_def)
  have "mode_ok p (Some (mode_opts pc mode m rip)) \<longleftrightarrow> tp_Mode p = mode"
    "want_alg (Some (mode_opts pc mode m rip)) = or_string ''sha256'' (pc_Algorithm pc)"
    "min_difficulty (Some (mode_opts pc mode m rip)) = max 0 (mc_MinDifficulty m)"
    "max_difficulty (Some (mode_opts pc mode m rip)) = (if mc_MaxDifficulty m > 0 then mc_MaxDifficulty m else 64)"
    by (simp_all add: mode_ok_def want_alg_def min_difficulty_def max_difficulty_def mode_opts_def or_string_def
        DefaultAlgorithm_def MaxDifficulty_def)
  with ip path show ?thesis
    unfolding ValidatePayload_None_iff well_formed_token_def salt cnt
    by (auto simp: Version1_def MaxPathLength_def MaxCounterLength_def)
qed

lemma checkTime_iff:
  assumes "0 < tp_Timestamp p" and "tp_Timestamp p < tp_ExpiresAt p" and "in_int64 (tp_ExpiresAt p)"
    and "in_int64 (now + 60)"
  shows "checkTime p ttl now = None \<longleftrightarrow> now < tp_ExpiresAt p \<and>
    (ttl > 0 \<longrightarrow> tp_ExpiresAt p - tp_Timestamp p \<le> ttl) \<and> tp_Timestamp p \<le> now + 60"
proof -
  have "in_int64 (tp_ExpiresAt p - tp_Timestamp p)" using assms(1-3) by (simp add: in_int64_def)
  with assms(4) show ?thesis by (auto simp: checkTime_def)
qed

lemma validateTokenForMode_iff:
  assumes "New opts = Inr sv" and "in_int64 (tp_ExpiresAt p)" and "in_int64 (now + 60)"
  shows "validateTokenForMode L sv p (tp_Mode p) path sign now = None \<longleftrightarrow>
    good_token L (cfg_Pow (sv_cfg sv)) path now sign p"
proof -
  let ?pc = "cfg_Pow (sv_cfg sv)" and ?m = "mode_conf (cfg_Pow (sv_cfg sv)) (tp_Mode p)"
  show ?thesis
  proof (cases "tp_Mode p \<in> {''ip_bound'', ''generic''}")
    case True
    then obtain rip where mc: "modeConfig sv (tp_Mode p) =
        Some (mc_Enabled ?m, mc_MaxTTLSeconds ?m, mode_opts ?pc (tp_Mode p) ?m rip)"
      using New_options [OF assms(1)] by (auto simp: modeConfig_def mode_conf_def)
    show ?thesis
    proof (cases "mc_Enabled ?m \<and> ValidatePayload L (Some p) (Some (mode_opts ?pc (tp_Mode p) ?m rip)) = None \<and> tp_Path p = path")
      case ok: True
      then have "0 < tp_Timestamp p" "tp_Timestamp p < tp_ExpiresAt p"
        using ValidatePayload_mode_opts [OF True] by blast+
      note time = checkTime_iff [OF this assms(2,3)]
      have "validateTokenForMode L sv p (tp_Mode p) path sign now = None \<longleftrightarrow>
          checkTime p (mc_MaxTTLSeconds ?m) now = None \<and> checkSignAndDifficulty L p sign = None"
        using ok mc by (simp add: validateTokenForMode_def split: option.split)
      also have "\<dots> \<longleftrightarrow> good_token L ?pc path now sign p"
        unfolding time checkSignAndDifficulty_iff good_token_def Let_def
        using ok True ValidatePayload_mode_opts [OF True, of L p ?pc ?m rip] by blast
      finally show ?thesis .
    next
      case False
      then show ?thesis using mc True ValidatePayload_mode_opts [OF True, of L p ?pc ?m rip]
        by (auto simp: validateTokenForMode_def good_token_def Let_def split: option.splits)
    qed
  qed (auto simp: validateTokenForMode_def modeConfig_def good_token_def Let_def)
qed

lemma set_fields_int64:
  "set_fields L kvs p = Some q \<Longrightarrow> in_int64 (tp_ExpiresAt p) \<Longrightarrow> in_int64 (tp_ExpiresAt q)"
proof (induction L kvs p rule: set_fields.induct)
  case (2 L k j kvs p)
  show ?case
  proof (cases "tag_of_key L k")
    case None
    with 2 show ?thesis by simp
  next
    case (Some t)
    with "2.prems"(1) obtain p' where p': "set_field t j p = Some p'" by (auto split: option.splits)
    have "in_int64 (tp_ExpiresAt p')"
      using p' "2.prems"(2)
      by (auto simp: set_field_def set_int_field_def set_string_field_def ParseInt_def Let_def
          split: json.splits option.splits if_splits list.splits)
    with 2 Some p' show ?thesis by simp
  qed
qed simp

lemma DecodeToken_int64:
  assumes "DecodeToken L raw = Inr p"
  shows "in_int64 (tp_ExpiresAt p)"
  using assms set_fields_int64 [of L _ zero_payload p]
  by (auto simp: DecodeToken_def unmarshal_payload_def zero_payload_def in_int64_def
      split: if_splits option.splits json.splits)

section \<open>The verdict on a presented token\<close>

definition decoded :: "golib \<Rightarrow> ('u, 'c) Service \<Rightarrow> AuthRequest \<Rightarrow> TokenPayload option" where
  "decoded L sv req =
     (case presented L sv req of (tokenRaw, sign) \<Rightarrow>
        if sign = [] \<or> int (length tokenRaw) > pc_MaxTokenLength (cfg_Pow (sv_cfg sv)) \<or>
           int (length sign) > pc_MaxSignLength (cfg_Pow (sv_cfg sv)) then None
        else case DecodeToken L tokenRaw of Inl _ \<Rightarrow> None | Inr p \<Rightarrow> Some p)"

lemma DecodeToken_Nil [simp]: "DecodeToken L [] = Inl ErrEmpty"
  by (simp add: DecodeToken_def)

lemma classified_payload: "fst (classified L ck sv req) = decoded L sv req"
  by (auto simp: classified_def decoded_def classifyPoW_def Let_def split: prod.split sum.split option.split)

lemma decoded_int64: "decoded L sv req = Some p \<Longrightarrow> in_int64 (tp_ExpiresAt p)"
  using DecodeToken_int64 by (fastforce simp: decoded_def split: prod.splits if_splits sum.splits)

text \<open>
  The conditions on the client: an address-bound token needs the client address, which must be
  the token's, or the one that an unbound token is bound to; a generic token needs a use that
  the store still grants.
\<close>

definition client_ok ::
  "golib \<Rightarrow> Clocks \<Rightarrow> ('u, 'c) Service \<Rightarrow> AuthRequest \<Rightarrow> TokenPayload \<Rightarrow> int \<Rightarrow> 'u \<Rightarrow> bool" where
  "client_ok L ck sv req p now u \<longleftrightarrow>
     (case presented L sv req of (tokenRaw, sign) \<Rightarrow>
        if tp_Mode p = ''ip_bound'' then
          ar_RealIP req \<noteq> [] \<and>
          (if tp_IP p = [] then fst (bindEmptyIPFirstUse L ck sv p req tokenRaw sign ''ip_bound'' u) = None
           else sameIP L (tp_IP p) (ar_RealIP req))
        else
          (case fst (fst (consumeGenericQuota L (ck_wall ck) sv p req tokenRaw sign ''generic'' now u)) of
             Inr r \<Rightarrow> cr_Allowed r
           | Inl _ \<Rightarrow> False))"

lemma maybeDryRun_off [simp]: "\<not> dryRunEffective sv \<Longrightarrow> maybeDryRun sv r = r"
  by (simp add: maybeDryRun_def)

lemma finalizeIPBound_allowed:
  assumes "\<not> dryRunEffective sv"
  shows "a_Allowed (fst (finalizeIPBound L ck sv p req tok sign mode u)) \<longleftrightarrow>
    ar_RealIP req \<noteq> [] \<and>
    (if tp_IP p = [] then fst (bindEmptyIPFirstUse L ck sv p req tok sign mode u) = None
     else sameIP L (tp_IP p) (ar_RealIP req))"
proof -
  have "\<not> a_Allowed res" if "bindEmptyIPFirstUse L ck sv p req tok sign mode u = (Some res, p', u')" for res p' u'
    using that assms by (auto simp: bindEmptyIPFirstUse_def Let_def split: option.splits sum.splits if_splits prod.splits)
  then show ?thesis
    using assms by (auto simp: finalizeIPBound_def split: prod.split option.split)
qed

lemma finalizeGeneric_allowed:
  assumes "\<not> dryRunEffective sv"
  shows "a_Allowed (fst (finalizeGeneric L wall sv p req tok sign mode now u)) \<longleftrightarrow>
    (case fst (fst (consumeGenericQuota L wall sv p req tok sign mode now u)) of
       Inr r \<Rightarrow> cr_Allowed r | Inl _ \<Rightarrow> False)"
  using assms by (auto simp: finalizeGeneric_def Let_def split: prod.split sum.split)

lemma verifyPoWOnly_allowed:
  assumes "New opts = Inr sv" and "\<not> dryRunEffective sv" and "in_int64 (ck_verify ck + 60)"
  shows "a_Allowed (fst (verifyPoWOnly L ck sv req (fst (presented L sv req)) (snd (presented L sv req))
      (decoded L sv req) u)) \<longleftrightarrow>
    (\<exists>p. decoded L sv req = Some p \<and>
       good_token L (cfg_Pow (sv_cfg sv)) (ar_OriginalURI req) (ck_verify ck) (snd (presented L sv req)) p \<and>
       client_ok L ck sv req p (ck_verify ck) u)"
proof -
  obtain t s where ts: "presented L sv req = (t, s)" by (cases "presented L sv req")
  show ?thesis
  proof (cases "decoded L sv req")
    case None
    then show ?thesis using assms(2) ts by (simp add: verifyPoWOnly_def)
  next
    case (Some p)
    then have len: "t \<noteq> []" "s \<noteq> []" "\<not> int (length t) > pc_MaxTokenLength (cfg_Pow (sv_cfg sv))"
      "\<not> int (length s) > pc_MaxSignLength (cfg_Pow (sv_cfg sv))"
      using ts by (auto simp: decoded_def split: if_splits sum.splits)
    let ?v = "validateTokenForMode L sv p (tp_Mode p) (ar_OriginalURI req) s (ck_verify ck)"
    have good: "?v = None \<longleftrightarrow> good_token L (cfg_Pow (sv_cfg sv)) (ar_OriginalURI req) (ck_verify ck) s p"
      by (rule validateTokenForMode_iff [OF assms(1) decoded_int64 [OF Some] assms(3)])
    show ?thesis
    proof (cases ?v)
      case None
      then have "tp_Mode p = ''ip_bound'' \<or> tp_Mode p = ''generic''"
        using good by (simp add: good_token_def Let_def)
      then have "a_Allowed (fst (finalizeByMode L ck sv req p t s (tp_Mode p) (ck_verify ck) u)) \<longleftrightarrow>
          client_ok L ck sv req p (ck_verify ck) u"
        using ts finalizeIPBound_allowed [OF assms(2)] finalizeGeneric_allowed [OF assms(2)]
        by (auto simp: finalizeByMode_def client_ok_def)
      with None good len Some ts show ?thesis by (simp add: verifyPoWOnly_def Let_def)
    next
      case (Some reason)
      then have "\<not> good_token L (cfg_Pow (sv_cfg sv)) (ar_OriginalURI req) (ck_verify ck) s p"
        using good by simp
      with Some \<open>decoded L sv req = Some p\<close> len ts assms(2) show ?thesis by (simp add: verifyPoWOnly_def Let_def)
    qed
  qed
qed

section \<open>The verdict on a token that a rule requires\<close>

lemma classified_valid:
  assumes "New opts = Inr sv" and "in_int64 (ck_classify ck + 60)"
  shows "fst (snd (classified L ck sv req)) = ''valid'' \<longleftrightarrow>
    (\<exists>p. decoded L sv req = Some p \<and>
       good_token L (cfg_Pow (sv_cfg sv)) (ar_OriginalURI req) (ck_classify ck) (snd (presented L sv req)) p \<and>
       (tp_Mode p = ''ip_bound'' \<longrightarrow> ar_RealIP req \<noteq> [] \<and> (tp_IP p = [] \<or> sameIP L (tp_IP p) (ar_RealIP req))))"
    and "decoded L sv req = Some p \<Longrightarrow> snd (snd (classified L ck sv req)) = tp_Mode p"
proof -
  obtain t s where ts: "presented L sv req = (t, s)" by (cases "presented L sv req")
  have status: "statusForValidationReason r \<noteq> ''valid''" for r by (simp add: statusForValidationReason_def)
  have cls: "classified L ck sv req = (Some p, (case validateTokenForMode L sv p (tp_Mode p) (ar_OriginalURI req) s (ck_classify ck) of
        Some reason \<Rightarrow> statusForValidationReason reason
      | None \<Rightarrow> if tp_Mode p = ''ip_bound'' \<and> ar_RealIP req = [] then ''unverifiable''
          else if tp_Mode p = ''ip_bound'' \<and> tp_IP p \<noteq> [] \<and> \<not> sameIP L (tp_IP p) (ar_RealIP req) then ''invalid''
          else ''valid''), tp_Mode p)"
    if "decoded L sv req = Some p" for p
    using that ts
    by (auto simp: classified_def decoded_def classifyPoW_def Let_def split: if_splits sum.splits option.split)
  have none: "fst (snd (classified L ck sv req)) \<noteq> ''valid''" if "decoded L sv req = None"
    using that ts
    by (auto simp: classified_def decoded_def classifyPoW_def split: if_splits sum.splits)
  show "fst (snd (classified L ck sv req)) = ''valid'' \<longleftrightarrow>
    (\<exists>p. decoded L sv req = Some p \<and>
       good_token L (cfg_Pow (sv_cfg sv)) (ar_OriginalURI req) (ck_classify ck) (snd (presented L sv req)) p \<and>
       (tp_Mode p = ''ip_bound'' \<longrightarrow> ar_RealIP req \<noteq> [] \<and> (tp_IP p = [] \<or> sameIP L (tp_IP p) (ar_RealIP req))))"
  proof (cases "decoded L sv req")
    case None
    with none show ?thesis by simp
  next
    case (Some p)
    have good: "validateTokenForMode L sv p (tp_Mode p) (ar_OriginalURI req) s (ck_classify ck) = None \<longleftrightarrow>
        good_token L (cfg_Pow (sv_cfg sv)) (ar_OriginalURI req) (ck_classify ck) s p"
      by (rule validateTokenForMode_iff [OF assms(1) decoded_int64 [OF Some] assms(2)])
    show ?thesis
      using Some cls [OF Some] good status ts
      by (cases "validateTokenForMode L sv p (tp_Mode p) (ar_OriginalURI req) s (ck_classify ck)") auto
  qed
  show "snd (snd (classified L ck sv req)) = tp_Mode p" if "decoded L sv req = Some p"
    using cls [OF that] by simp
qed

lemma chargeQuota_allowed:
  assumes "\<not> dryRunEffective sv" and "rq_PowStatus rq = ''valid''" and "vx_payload vx = Some p"
    and "rq_PowMode rq = tp_Mode p" and "tp_Mode p \<in> {''ip_bound'', ''generic''}"
    and "vx_req vx = req" and "presented L sv req = (vx_tokenRaw vx, vx_sign vx)"
    and "tp_Mode p = ''ip_bound'' \<longrightarrow> ar_RealIP req \<noteq> [] \<and> (tp_IP p = [] \<or> sameIP L (tp_IP p) (ar_RealIP req))"
  shows "(case fst (chargeQuotaForRiskAllow L ck sv vx rq w) of Inl res \<Rightarrow> a_Allowed res | Inr _ \<Rightarrow> True) \<longleftrightarrow>
    client_ok L ck sv req p (ck_charge ck) (w_usage w)"
proof -
  have "\<not> a_Allowed res" if "bindEmptyIPFirstUse L ck sv p r tok sign mode u = (Some res, p', u')" for r tok sign mode u res p' u'
    using that assms(1) by (auto simp: bindEmptyIPFirstUse_def Let_def split: option.splits sum.splits if_splits prod.splits)
  with assms show ?thesis
    by (auto simp: chargeQuotaForRiskAllow_def client_ok_def Let_def split: prod.split sum.split option.split)
qed

lemma apply_require_pow:
  assumes "dc_Target (res_Decision result) = TargetREQUIREPOW"
  shows "(case fst (apply_decision L ck sv vx rq st result w) of Some r \<Rightarrow> a_Allowed r | None \<Rightarrow> False) \<longleftrightarrow>
      st = ''valid'' \<and> (case fst (chargeQuotaForRiskAllow L ck sv vx rq w) of Inl res \<Rightarrow> a_Allowed res | Inr _ \<Rightarrow> True)"
    and "fst (apply_decision L ck sv vx rq st result w) \<noteq> None"
  using assms
  by (auto simp: apply_decision_def target_defs Let_def split: prod.split sum.split)

lemma verify_admitted_require_pow:
  assumes "New opts = Inr sv" and "powEnabled sv" and "\<not> dryRunEffective sv"
    and "sv_riskEngine sv = Some e" and "in_int64 (ck_classify ck + 60)"
    and "Evaluate L e (Some (engine_request ck sv v (risk_request L ck sv req prot))) = Some (Inr result)"
    and "dc_Target (res_Decision result) = TargetREQUIREPOW"
  shows "a_Allowed (fst (verify_admitted L ck sv req prot v)) \<longleftrightarrow>
    (\<exists>p. decoded L sv req = Some p \<and>
       good_token L (cfg_Pow (sv_cfg sv)) (ar_OriginalURI req) (ck_classify ck) (snd (presented L sv req)) p \<and>
       client_ok L ck sv req p (ck_charge ck) (w_usage v))" (is "_ \<longleftrightarrow> ?ok")
proof -
  let ?rq = "engine_request ck sv v (risk_request L ck sv req prot)" and ?vx = "request_ctx L ck sv req prot"
  let ?st = "fst (snd (classified L ck sv req))"
  let ?v = "engine_world ck sv (risk_request L ck sv req prot) result v"
  have "run_engine L ck sv req prot v = apply_decision L ck sv ?vx ?rq ?st result ?v"
    using assms(4,6)
    by (simp add: run_engine_def runRiskEngine_def engine_request_def engine_world_def Let_def)
  then have "a_Allowed (fst (verify_admitted L ck sv req prot v)) \<longleftrightarrow>
      (case fst (apply_decision L ck sv ?vx ?rq ?st result ?v) of Some r \<Rightarrow> a_Allowed r | None \<Rightarrow> False)"
    using apply_require_pow(2) [OF assms(7), of L ck sv ?vx ?rq ?st ?v]
    by (auto simp: verify_admitted_pow [OF assms(2)] split: prod.split option.split)
  also have "\<dots> \<longleftrightarrow> ?st = ''valid'' \<and>
      (case fst (chargeQuotaForRiskAllow L ck sv ?vx ?rq ?v) of Inl res \<Rightarrow> a_Allowed res | Inr _ \<Rightarrow> True)"
    by (rule apply_require_pow(1) [OF assms(7)])
  also have "\<dots> \<longleftrightarrow> ?ok"
  proof (cases "?st = ''valid''")
    case True
    then obtain p where p: "decoded L sv req = Some p"
      "good_token L (cfg_Pow (sv_cfg sv)) (ar_OriginalURI req) (ck_classify ck) (snd (presented L sv req)) p"
      "tp_Mode p = ''ip_bound'' \<longrightarrow> ar_RealIP req \<noteq> [] \<and> (tp_IP p = [] \<or> sameIP L (tp_IP p) (ar_RealIP req))"
      using classified_valid(1) [OF assms(1,5), of L req] by blast
    have "(case fst (chargeQuotaForRiskAllow L ck sv ?vx ?rq ?v) of Inl res \<Rightarrow> a_Allowed res | Inr _ \<Rightarrow> True) \<longleftrightarrow>
        client_ok L ck sv req p (ck_charge ck) (w_usage ?v)"
      using True p classified_valid(2) [OF assms(1,5) p(1)]
      by (intro chargeQuota_allowed [OF assms(3)])
        (simp_all add: engine_request_def risk_request_def request_ctx_def classified_payload good_token_def Let_def)
    with True p show ?thesis by (simp add: engine_world_def)
  next
    case False
    have "tp_Mode p = ''ip_bound'' \<longrightarrow> ar_RealIP req \<noteq> [] \<and> (tp_IP p = [] \<or> sameIP L (tp_IP p) (ar_RealIP req))"
      if "client_ok L ck sv req p (ck_charge ck) (w_usage v)" for p
      using that by (auto simp: client_ok_def split: if_splits prod.splits)
    with False classified_valid(1) [OF assms(1,5), of L req] show ?thesis by blast
  qed
  finally show ?thesis .
qed

section \<open>An example\<close>

lemma demo_presented:
  assumes "cfg_Pow (sv_cfg sv) = demo_pow"
  shows "presented demo_lib sv demo_req = (''AAAA'', demo_sign)"
proof -
  have "ParseQuery demo_lib (ar_OriginalArgs demo_req) = Some [(''token'', ''AAAA''), (''sign'', demo_sign)]"
    and "pc_TokenParam demo_pow = ''token''" "pc_SignParam demo_pow = ''sign''" "ar_OriginalArgs demo_req \<noteq> []"
    by code_simp+
  then show ?thesis using assms by (simp add: presented_def extractTokenAndSign_def Values_Get_def)
qed

lemma demo_decoded:
  assumes "cfg_Pow (sv_cfg sv) = demo_pow"
  shows "decoded demo_lib sv demo_req = Some demo_payload"
proof -
  have "DecodeToken demo_lib ''AAAA'' = Inr demo_payload" by code_simp
  then show ?thesis using assms demo_presented [OF assms]
    by (simp add: decoded_def demo_sign_def demo_pow_def default_pow_def config_pow_generic_on_def zero_config_def or_int_def)
qed

lemma demo_hash: "Sum256 demo_lib s = 0xab" "hex_EncodeToString (digest_bytes 0xab) = demo_sign"
  by (simp add: demo_lib_def) code_simp

lemma demo_good: "good_token demo_lib demo_pow ''/a.iso'' 1500 demo_sign demo_payload"
proof -
  have safe: "isCanonicalSafe ''/a.iso''" "isCanonicalSafe ''s''" "isCounterSafe ''0f''" "HasPrefix ''/a.iso'' ''/''"
    "EqualFold demo_lib ''sha256'' ''sha256''"
    by code_simp+
  have "map lower_byte demo_sign = demo_sign" unfolding demo_hash(2) [symmetric] by simp
  with safe show ?thesis
    by (simp add: good_token_def well_formed_token_def work_done_def ComputeSign_def demo_hash mode_conf_def demo_payload_def
        demo_pow_def default_pow_def default_generic_def config_pow_generic_on_def zero_config_def zero_mode_def
        or_int_def or_string_def Let_def)
qed

lemma demo_client:
  assumes "cfg_Pow (sv_cfg sv) = demo_pow" and "sv_usageStore sv = Some mem_usage_ops"
  shows "client_ok demo_lib ck sv demo_req demo_payload now NewUsageStore"
proof -
  have "mc_MaxUses (pc_Generic demo_pow) = 2" by code_simp
  then show ?thesis using assms demo_presented [OF assms(1)]
    by (simp add: client_ok_def consumeGenericQuota_def quota_input_def mem_usage_ops_def Consume_def Consume_locked_def
        NewUsageStore_def fresh_record_def demo_payload_def Let_def)
qed

lemma demo_service_cfg [simp]:
  "cfg_Pow (sv_cfg (service_of demo_options)) = demo_pow" "cfg_Pow (sv_cfg (service_of guarded_options)) = demo_pow"
  "sv_usageStore (service_of demo_options) = Some mem_usage_ops"
  "sv_usageStore (service_of guarded_options) = Some mem_usage_ops"
  "sv_riskEngine (service_of demo_options) = None" "sv_riskEngine (service_of guarded_options) = Some demo_rules"
  "sv_matcher (service_of demo_options) = AlwaysMatcher"
  by (simp_all add: service_of_def New_def demo_options_def guarded_options_def demo_cfg_def zero_config_def
      applyDefaults_def demo_risk_def)

section \<open>Properties\<close>

text \<open>
  C1: Without a rule engine a protected request is let through exactly when it carries a good
  token. For a service that \<^verbatim>\<open>New\<close> has built, with verification on and neither bypass nor dry run,
  the verdict is \<^verbatim>\<open>allowed\<close> if and only if a token and a sign are presented within the length
  limits, the token decodes to a payload that is well formed for an enabled mode, names the
  requested path, has not expired, is not from the future and not valid for too long, has a
  difficulty in the configured range, its hash is below the threshold of that difficulty, the
  sign is the hash in hexadecimal, and the client's address or quota permits it.
\<close>

theorem pow_only_admission:
  assumes "New opts = Inr sv" and "sv_riskEngine sv = None" and "powEnabled sv"
    and "\<not> bypassAllEffective sv" and "\<not> dryRunEffective sv"
    and "ShouldProtect L (sv_matcher sv) (ar_OriginalURI req)" and "in_int64 (ck_verify ck + 60)"
  shows "a_Allowed (fst (Verify L ck sv req w)) \<longleftrightarrow>
    (\<exists>p. decoded L sv req = Some p \<and>
       good_token L (cfg_Pow (sv_cfg sv)) (ar_OriginalURI req) (ck_verify ck) (snd (presented L sv req)) p \<and>
       client_ok L ck sv req p (ck_verify ck) (w_usage w))"
  using assms(6) [THEN eqTrueI, symmetric]
proof (cases rule: Verify_cases [where ck = ck and w = w])
  case no_uri
  then show ?thesis by (auto simp: good_token_def well_formed_token_def HasPrefix_def Let_def)
next
  case (free r w')
  have "run_engine L ck sv req True w = (None, w)" using assms(2) by (simp add: run_engine_def runRiskEngine_def)
  with free verify_admitted_pow [OF assms(3), of L ck req True w] assms(2)
  have "a_Allowed r = a_Allowed (fst (verifyPoWOnly L ck sv req (fst (presented L sv req)) (snd (presented L sv req))
      (decoded L sv req) (w_usage w)))"
    by (auto simp: classified_payload split: prod.splits)
  with verifyPoWOnly_allowed [OF assms(1,5,7), of L req "w_usage w"] free show ?thesis by simp
qed (use assms(2,4) New_options(3) [OF assms(1)] in \<open>simp_all add: limiter_applies_def\<close>)

theorem pow_only_admission_witness:
  "a_Allowed (fst (Verify demo_lib (demo_clocks 1500) (service_of demo_options) demo_req demo_world))"
proof -
  have "powEnabled (service_of demo_options)" "\<not> bypassAllEffective (service_of demo_options)"
    "\<not> dryRunEffective (service_of demo_options)"
    "in_int64 (ck_verify (demo_clocks 1500) + 60)"
    by (simp_all add: powEnabled_def bypassAllEffective_def dryRunEffective_def demo_pow_def default_pow_def
        config_pow_generic_on_def zero_config_def or_on_def demo_clocks_def in_int64_def)
  from pow_only_admission [OF demo_New(1) _ this(1-3) _ this(4), of demo_lib demo_req demo_world]
  show ?thesis
    using demo_good demo_client [of "service_of demo_options" "demo_clocks 1500" 1500]
      demo_decoded [of "service_of demo_options"] demo_presented [of "service_of demo_options"]
    by (simp add: demo_clocks_def demo_world_def demo_req_def)
qed

text \<open>
  C2: A rule that requires proof of work is as strict as verification itself. When the engine
  decides \<^verbatim>\<open>REQUIRE_POW\<close> for an admitted request, it is let through exactly when its token is good
  in the sense of the property above and the client's address or quota permits it; the same
  definition decides on both paths, so no token passes one and fails the other.
\<close>

theorem require_pow_admission:
  assumes "New opts = Inr sv" and "powEnabled sv" and "\<not> bypassAllEffective sv" and "\<not> dryRunEffective sv"
    and "sv_riskEngine sv = Some e" and "ar_OriginalURI req \<noteq> []" and "in_int64 (ck_classify ck + 60)"
    and "limiter_applies L sv req \<longrightarrow> \<not> snd (fst (Enter L (ck_enter ck) (ar_RealIP req) (w_pending w)))"
    and "prot = ShouldProtect L (sv_matcher sv) (ar_OriginalURI req)"
    and "Evaluate L e (Some (engine_request ck sv w (risk_request L ck sv req prot))) = Some (Inr result)"
    and "dc_Target (res_Decision result) = TargetREQUIREPOW"
  shows "a_Allowed (fst (Verify L ck sv req w)) \<longleftrightarrow>
    (\<exists>p. decoded L sv req = Some p \<and>
       good_token L (cfg_Pow (sv_cfg sv)) (ar_OriginalURI req) (ck_classify ck) (snd (presented L sv req)) p \<and>
       client_ok L ck sv req p (ck_charge ck) (w_usage w))"
proof -
  note main = verify_admitted_require_pow [OF assms(1,2,4,5,7) _ assms(11), of L _ req prot]
  from assms(9) show ?thesis
  proof (cases rule: Verify_cases [where ck = ck and w = w])
    case (limited rel pb r w')
    with main [of "w\<lparr>w_pending := pb\<rparr>"] assms(10) show ?thesis by (simp add: engine_request_def)
  next
    case (free r w')
    with main [of w] assms(10) show ?thesis by simp
  qed (use assms(3,6,8) in simp_all)
qed

theorem require_pow_admission_witness:
  "a_Allowed (fst (Verify demo_lib (demo_clocks 1500) (service_of guarded_options) demo_req demo_world))"
proof -
  let ?sv = "service_of guarded_options" and ?ck = "demo_clocks 1500"
  have sw: "powEnabled ?sv" "\<not> bypassAllEffective ?sv" "\<not> dryRunEffective ?sv" "in_int64 (ck_classify ?ck + 60)"
    by (simp_all add: powEnabled_def bypassAllEffective_def dryRunEffective_def demo_pow_def default_pow_def
        config_pow_generic_on_def zero_config_def or_on_def demo_clocks_def in_int64_def)
  have free: "\<not> snd (fst (Enter demo_lib (ck_enter ?ck) (ar_RealIP demo_req) (w_pending demo_world)))" by code_simp
  have ev: "Evaluate demo_lib demo_rules (Some r) = Some (Inr \<lparr>res_Decision = applyPolicy ''INPUT'' (snd (hd demo_rules)) init_state,
      res_Trace = []\<rparr>)" for r
  proof -
    have "EqualFold demo_lib ''input'' ''INPUT''" by code_simp
    then have "lookupChain demo_lib demo_rules ''INPUT'' = Some (snd (hd demo_rules))"
      by (simp add: lookupChain_def demo_rules_def)
    moreover have "enough_fuel demo_rules = Suc 9" and "ch_Rules (snd (hd demo_rules)) = []"
      by (simp_all add: enough_fuel_def jump_names_def demo_rules_def)
    ultimately show ?thesis
      by (simp add: Evaluate_def EvaluateWithEntry_def visit_def init_state_def applyPolicy_def Let_def eval_nat_numeral)
  qed
  have t: "dc_Target (applyPolicy ''INPUT'' (snd (hd demo_rules)) init_state) = TargetREQUIREPOW"
    by (simp add: applyPolicy_def demo_rules_def target_defs)
  from require_pow_admission [OF demo_New(2) sw(1-3) _ _ sw(4) _ refl ev, of demo_req demo_world] t free
  show ?thesis
    using demo_good demo_client [of ?sv ?ck 1500] demo_decoded [of ?sv] demo_presented [of ?sv]
    by (simp add: demo_clocks_def demo_world_def demo_req_def)
qed

end
