(* ===== verification/Quota.thy ===== *)
theory Quota
  imports TokenSpec
begin

text \<open>
  What a client gets out of one token, over whole runs of the service with the in-memory usage
  store: a generic token is honoured at most \<^verbatim>\<open>max_uses\<close> times, an address-bound token
  without an address is bound by its first use, and dry run is a shadow of enforcement.

  The key is \<open>Verify_effect\<close>: whatever the path of a request, it performs at most one operation on
  the usage store, on the sign id of the token it presents, and a result that claims a generic
  token has charged it.
\<close>

section \<open>The store operation of a request\<close>

definition max_uses :: "('u, 'c) Service \<Rightarrow> int" where
  "max_uses sv = mc_MaxUses (pc_Generic (cfg_Pow (sv_cfg sv)))"

definition exempt :: "('u, 'c) Service \<Rightarrow> AuthRequest \<Rightarrow> bool" where
  "exempt sv req \<longleftrightarrow> ar_OriginalMethod req = ''HEAD'' \<and> \<not> mc_CountHeadRequest (pc_Generic (cfg_Pow (sv_cfg sv)))"

definition sign_id_of :: "golib \<Rightarrow> ('u, 'c) Service \<Rightarrow> AuthRequest \<Rightarrow> TokenPayload \<Rightarrow> string" where
  "sign_id_of L sv req p = ComputeSignID L (Some p) (snd (presented L sv req)) (tp_Mode p)"

text \<open>
  The operation on the store that a request may perform: on the sign id of its token, which was
  good at one of the two moments at which the request validates it, within the limit.
\<close>

definition token_op :: "golib \<Rightarrow> Clocks \<Rightarrow> ('u, 'c) Service \<Rightarrow> AuthRequest \<Rightarrow> ConsumeInput \<Rightarrow> bool" where
  "token_op L ck sv req inp \<longleftrightarrow> (\<exists>p. decoded L sv req = Some p \<and> ci_ID inp = sign_id_of L sv req p \<and>
     ci_ExpiresAt inp = tp_ExpiresAt p \<and> within_limit (max_uses sv) inp \<and>
     (\<exists>now \<in> {ck_classify ck, ck_verify ck}.
        good_token L (cfg_Pow (sv_cfg sv)) (ar_OriginalURI req) now (snd (presented L sv req)) p))"

text \<open>The sign id of the generic token that a result honours, if any.\<close>

definition claimed :: "AuthResult \<Rightarrow> string" where
  "claimed r = (if a_Allowed r \<and> a_Mode r = ''generic'' then a_SignID r else [])"

definition store_effect ::
  "golib \<Rightarrow> Clocks \<Rightarrow> (MemUsageStore, 'c) Service \<Rightarrow> AuthRequest \<Rightarrow> string \<Rightarrow> MemUsageStore \<Rightarrow> MemUsageStore \<Rightarrow> bool" where
  "store_effect L ck sv req sid u u' \<longleftrightarrow>
     u' = u \<and> sid = [] \<or>
     (\<exists>inp. token_op L ck sv req inp \<and> u' = snd (Consume (ck_wall ck) inp u) \<and>
        (sid \<noteq> [] \<longrightarrow> ci_ID inp = sid \<and> (ci_SkipConsume inp \<longleftrightarrow> exempt sv req) \<and>
           (\<exists>cr. fst (Consume (ck_wall ck) inp u) = Inr cr \<and> cr_Allowed cr)))"

lemma store_effect_none [simp]: "store_effect L ck sv req [] u u"
  by (simp add: store_effect_def)

lemma claimed_deny [simp]:
  "claimed (deny r) = []" "claimed (denyMode r m) = []" "claimed (denyStatus n r m) = []"
  "claimed (allowDecision r [] d) = []" "\<not> a_Allowed x \<Longrightarrow> claimed x = []"
  by (simp_all add: claimed_def deny_def denyMode_def denyStatus_def allowDecision_def)

lemma store_effectI:
  assumes "token_op L ck sv req inp" and "u' = snd (Consume (ck_wall ck) inp u)"
    and "sid \<noteq> [] \<Longrightarrow> ci_ID inp = sid \<and> (ci_SkipConsume inp \<longleftrightarrow> exempt sv req) \<and>
      (\<exists>cr. fst (Consume (ck_wall ck) inp u) = Inr cr \<and> cr_Allowed cr)"
  shows "store_effect L ck sv req sid u u'"
  using assms unfolding store_effect_def by blast

lemma generic_effect:
  assumes "sv_usageStore sv = Some mem_usage_ops" and "decoded L sv req = Some p" and "tp_Mode p = ''generic''"
    and "now \<in> {ck_classify ck, ck_verify ck}"
    and "good_token L (cfg_Pow (sv_cfg sv)) (ar_OriginalURI req) now (snd (presented L sv req)) p"
    and "presented L sv req = (tok, sign)"
    and "consumeGenericQuota L (ck_wall ck) sv p req tok sign ''generic'' t u = ((r, signID), u')"
    and "sid \<noteq> [] \<Longrightarrow> sid = signID \<and> (\<exists>cr. r = Inr cr \<and> cr_Allowed cr)"
  shows "store_effect L ck sv req sid u u'"
proof (rule store_effectI)
  let ?inp = "quota_input L sv p req tok sign ''generic'' t"
  show "token_op L ck sv req ?inp"
    using assms(2-6) unfolding token_op_def
    by (intro exI [of _ p]) (auto simp: quota_input_def sign_id_of_def within_limit_def max_uses_def)
  show "u' = snd (Consume (ck_wall ck) ?inp u)"
    using assms(1,7) by (auto simp: consumeGenericQuota_def mem_usage_ops_def Let_def split: prod.splits)
  show "ci_ID ?inp = sid \<and> (ci_SkipConsume ?inp \<longleftrightarrow> exempt sv req) \<and>
      (\<exists>cr. fst (Consume (ck_wall ck) ?inp u) = Inr cr \<and> cr_Allowed cr)" if "sid \<noteq> []"
    using assms(8) [OF that] assms(1,7)
    by (auto simp: consumeGenericQuota_def mem_usage_ops_def quota_input_def exempt_def Let_def split: prod.splits)
qed

lemma bind_effect:
  assumes "sv_usageStore sv = Some mem_usage_ops" and "\<not> dryRunEffective sv" and "decoded L sv req = Some p" and "tp_Mode p = ''ip_bound''"
    and "now \<in> {ck_classify ck, ck_verify ck}"
    and "good_token L (cfg_Pow (sv_cfg sv)) (ar_OriginalURI req) now (snd (presented L sv req)) p"
    and "presented L sv req = (tok, sign)"
    and b: "bindEmptyIPFirstUse L ck sv p req tok sign ''ip_bound'' u = (r, p', u')"
  shows "store_effect L ck sv req [] u u'" and "\<And>res. r = Some res \<Longrightarrow> \<not> a_Allowed res"
proof -
  let ?inp = "\<lparr>ci_ID = ComputeSignID L (Some p) sign ''ip_bound'', ci_Mode = ''ip_bound'', ci_Path = tp_Path p, ci_Sign = sign,
      ci_TokenHash = HashToken L tok, ci_ExpiresAt = tp_ExpiresAt p, ci_MaxUses = 1,
      ci_IP = ar_RealIP req, ci_UserAgent = ar_UserAgent req, ci_NowUnix = ck_bind ck,
      ci_GraceSeconds = grace_seconds (sv_cfg sv), ci_SkipConsume = True\<rparr>"
  have "token_op L ck sv req ?inp"
    using assms(3-7) unfolding token_op_def
    by (intro exI [of _ p]) (auto simp: sign_id_of_def within_limit_def)
  moreover have "u' = u \<or> u' = snd (Consume (ck_wall ck) ?inp u)"
    using assms(1) b by (auto simp: bindEmptyIPFirstUse_def mem_usage_ops_def Let_def split: prod.splits sum.splits if_splits)
  ultimately show "store_effect L ck sv req [] u u'" unfolding store_effect_def by blast
  show "\<not> a_Allowed res" if "r = Some res" for res
    using that b assms(2) by (auto simp: bindEmptyIPFirstUse_def Let_def split: option.splits sum.splits if_splits prod.splits)
qed

lemma verifyPoWOnly_effect:
  assumes "New opts = Inr sv" and "sv_usageStore sv = Some mem_usage_ops" and "\<not> dryRunEffective sv"
    and "in_int64 (ck_verify ck + 60)"
    and v: "verifyPoWOnly L ck sv req (fst (presented L sv req)) (snd (presented L sv req)) (decoded L sv req) u = (r, u')"
  shows "store_effect L ck sv req (claimed r) u u'"
proof -
  obtain t s where ts: "presented L sv req = (t, s)" by (cases "presented L sv req")
  show ?thesis
  proof (cases "\<exists>p. decoded L sv req = Some p \<and>
      validateTokenForMode L sv p (tp_Mode p) (ar_OriginalURI req) s (ck_verify ck) = None")
    case False
    with v ts assms(3) show ?thesis
      by (auto simp: verifyPoWOnly_def Let_def split: if_splits option.splits)
  next
    case True
    then obtain p where p: "decoded L sv req = Some p"
      and val: "validateTokenForMode L sv p (tp_Mode p) (ar_OriginalURI req) s (ck_verify ck) = None" by blast
    have good: "good_token L (cfg_Pow (sv_cfg sv)) (ar_OriginalURI req) (ck_verify ck) (snd (presented L sv req)) p"
      using validateTokenForMode_iff [OF assms(1) decoded_int64 [OF p] assms(4)] val ts by simp
    have fin: "(r, u') = finalizeByMode L ck sv req p t s (tp_Mode p) (ck_verify ck) u"
      using v p ts val by (auto simp: verifyPoWOnly_def decoded_def Let_def split: if_splits)
    consider "tp_Mode p = ''ip_bound''" | "tp_Mode p = ''generic''"
      using good by (auto simp: good_token_def Let_def)
    then show ?thesis
    proof cases
      case 1
      obtain b p' v' where b: "bindEmptyIPFirstUse L ck sv p req t s ''ip_bound'' u = (b, p', v')"
        by (metis prod.collapse)
      note eff = bind_effect [OF assms(2,3) p 1 _ good ts b]
      have "claimed ((allow ReasonIPBoundValid ''ip_bound'')\<lparr>a_SignID := x\<rparr>) = []" for x
        by (simp add: claimed_def allow_def)
      with 1 eff b fin assms(3) show ?thesis
        by (auto simp: finalizeByMode_def finalizeIPBound_def split: if_splits option.splits)
    next
      case 2
      obtain q sid v' where c: "consumeGenericQuota L (ck_wall ck) sv p req t s ''generic'' (ck_verify ck) u = ((q, sid), v')"
        by (metis prod.collapse)
      have "u' = v'" and "claimed r \<noteq> [] \<Longrightarrow> claimed r = sid \<and> (\<exists>cr. q = Inr cr \<and> cr_Allowed cr)"
        using fin 2 c assms(3)
        by (auto simp: finalizeByMode_def finalizeGeneric_def claimed_def allow_def withSignID_def split: sum.splits if_splits)
      with generic_effect [OF assms(2) p 2 _ good ts c, of "claimed r"] show ?thesis by simp
    qed
  qed
qed

lemma charge_effect:
  assumes "New opts = Inr sv" and "sv_usageStore sv = Some mem_usage_ops" and "\<not> dryRunEffective sv"
    and "in_int64 (ck_classify ck + 60)"
    and "rq_PowStatus rq = fst (snd (classified L ck sv req))" and "rq_PowMode rq = snd (snd (classified L ck sv req))"
    and "vx = request_ctx L ck sv req prot"
    and c: "chargeQuotaForRiskAllow L ck sv vx rq w = (d, w')"
  shows "store_effect L ck sv req (case d of Inl res \<Rightarrow> claimed res | Inr (sid, _, _) \<Rightarrow> sid) (w_usage w) (w_usage w')"
proof -
  obtain t s where ts: "presented L sv req = (t, s)" by (cases "presented L sv req")
  have vx: "vx_payload vx = decoded L sv req" "vx_req vx = req" "vx_tokenRaw vx = t" "vx_sign vx = s"
    using assms(7) ts by (simp_all add: request_ctx_def classified_payload)
  show ?thesis
  proof (cases "rq_PowStatus rq = ''valid''")
    case False
    then show ?thesis using c by (auto simp: chargeQuotaForRiskAllow_def)
  next
    case True
    then obtain p where p: "decoded L sv req = Some p"
      and good: "good_token L (cfg_Pow (sv_cfg sv)) (ar_OriginalURI req) (ck_classify ck) (snd (presented L sv req)) p"
      using classified_valid(1) [OF assms(1,4), of L req] assms(5) by auto
    have mode: "rq_PowMode rq = tp_Mode p" using classified_valid(2) [OF assms(1,4) p] assms(6) by simp
    consider "tp_Mode p = ''ip_bound''" | "tp_Mode p = ''generic''" using good by (auto simp: good_token_def Let_def)
    then show ?thesis
    proof cases
      case 1
      obtain b p' v' where b: "bindEmptyIPFirstUse L ck sv p req t s ''ip_bound'' (w_usage w) = (b, p', v')"
        by (metis prod.collapse)
      note eff = bind_effect [OF assms(2,3) p 1 _ good ts b]
      show ?thesis using c True 1 mode vx p b eff
        by (auto simp: chargeQuotaForRiskAllow_def split: if_splits option.splits)
    next
      case 2
      obtain q sid v' where q: "consumeGenericQuota L (ck_wall ck) sv p req t s ''generic'' (ck_charge ck) (w_usage w) = ((q, sid), v')"
        by (metis prod.collapse)
      have "w_usage w' = v'" and "(case d of Inl res \<Rightarrow> claimed res | Inr (sid, _, _) \<Rightarrow> sid) \<noteq> [] \<Longrightarrow>
          (case d of Inl res \<Rightarrow> claimed res | Inr (sid, _, _) \<Rightarrow> sid) = sid \<and> (\<exists>cr. q = Inr cr \<and> cr_Allowed cr)"
        using c True 2 mode vx p q assms(3)
        by (auto simp: chargeQuotaForRiskAllow_def withSignID_def Let_def split: if_splits sum.splits)
      with generic_effect [OF assms(2) p 2 _ good ts q] show ?thesis by simp
    qed
  qed
qed

lemma apply_decision_effect:
  assumes "New opts = Inr sv" and "sv_usageStore sv = Some mem_usage_ops" and "\<not> dryRunEffective sv"
    and "in_int64 (ck_classify ck + 60)"
    and "rq_PowStatus rq = fst (snd (classified L ck sv req))" and "rq_PowMode rq = snd (snd (classified L ck sv req))"
    and "vx = request_ctx L ck sv req prot"
    and a: "apply_decision L ck sv vx rq st result w = (r, w')"
  shows "store_effect L ck sv req (case r of Some res \<Rightarrow> claimed res | None \<Rightarrow> []) (w_usage w) (w_usage w')"
proof -
  obtain d v where c: "chargeQuotaForRiskAllow L ck sv vx rq w = (d, v)" by (metis prod.collapse)
  note eff = charge_effect [OF assms(1-7) c]
  have weak: "store_effect L ck sv req [] u u'" if "store_effect L ck sv req sid u u'" for sid u u'
    using that by (auto simp: store_effect_def)
  have d: "store_effect L ck sv req (claimed res) (w_usage w) (w_usage v)"
    if "d = Inr (sid, x, y)" "a_SignID res = sid" for sid x y res
    using eff that weak [OF eff] by (auto simp: claimed_def)
  show ?thesis
    using a c eff d
    by (auto simp: apply_decision_def with_risk_def allow_def Let_def split: if_splits sum.splits prod.splits)
qed

lemma engine_world_frame [simp]:
  "w_usage (engine_world ck sv rq result w) = w_usage w" "w_pending (engine_world ck sv rq result w) = w_pending w"
  "w_recorded (engine_world ck sv rq result w) = w_recorded w"
  by (simp_all add: engine_world_def)

lemma run_engine_effect:
  assumes "New opts = Inr sv" and "sv_usageStore sv = Some mem_usage_ops" and "\<not> dryRunEffective sv"
    and "in_int64 (ck_classify ck + 60)" and r: "run_engine L ck sv req prot w = (r, w')"
  shows "store_effect L ck sv req (case r of Some res \<Rightarrow> claimed res | None \<Rightarrow> []) (w_usage w) (w_usage w')"
    and "r = None \<Longrightarrow> w_usage w' = w_usage w"
proof -
  let ?rq = "risk_request L ck sv req prot" and ?vx = "request_ctx L ck sv req prot"
  let ?st = "fst (snd (classified L ck sv req))"
  show "store_effect L ck sv req (case r of Some res \<Rightarrow> claimed res | None \<Rightarrow> []) (w_usage w) (w_usage w')"
  proof (cases rule: runRiskEngine_cases [of L ck sv ?vx ?rq ?st w])
    case unhandled
    with r show ?thesis by (simp add: run_engine_def)
  next
    case (decided e result)
    with r have "apply_decision L ck sv ?vx (engine_request ck sv w ?rq) ?st result (engine_world ck sv ?rq result w) = (r, w')"
      by (simp add: run_engine_def)
    from apply_decision_effect [OF assms(1-4) _ _ refl this] show ?thesis
      by (simp add: engine_request_def risk_request_def)
  qed
  show "w_usage w' = w_usage w" if "r = None"
  proof (cases rule: runRiskEngine_cases [of L ck sv ?vx ?rq ?st w])
    case unhandled
    with r show ?thesis by (simp add: run_engine_def)
  next
    case (decided e result)
    with r that show ?thesis
      by (auto simp: run_engine_def apply_decision_def Let_def split: if_splits sum.splits prod.splits)
  qed
qed

lemma without_pow_effect:
  assumes "vx_payload vx = None" and "verifyWithoutPow L ck sv vx w = (r, w')"
  shows "w_usage w' = w_usage w \<and> claimed r = []"
proof -
  let ?rq = "base_request L (vx_req vx) (vx_protected vx)"
  have charge: "chargeQuotaForRiskAllow L ck sv vx (engine_request ck sv w ?rq) v = (Inr ([], 0, 0), v)" for v
    by (simp add: chargeQuotaForRiskAllow_def engine_request_def base_request_def)
  show ?thesis
  proof (cases rule: runRiskEngine_cases [of L ck sv vx ?rq "''missing''" w])
    case unhandled
    with assms(2) show ?thesis by (auto simp: verifyWithoutPow_def Let_def)
  next
    case (decided e result)
    with assms(2) charge show ?thesis
      by (auto simp: verifyWithoutPow_def apply_decision_def with_risk_def claimed_def allow_def allowDecision_def
          denyMode_def denyStatus_def deny_def Let_def engine_request_def base_request_def split: if_splits)
  qed
qed

lemma verify_admitted_effect:
  assumes "New opts = Inr sv" and "sv_usageStore sv = Some mem_usage_ops" and "\<not> dryRunEffective sv"
    and "in_int64 (ck_classify ck + 60)" and "in_int64 (ck_verify ck + 60)"
    and v: "verify_admitted L ck sv req prot w = (r, w')"
  shows "store_effect L ck sv req (claimed r) (w_usage w) (w_usage w')"
proof (cases "powEnabled sv")
  case False
  from without_pow_effect [OF _ v [unfolded verify_admitted_without_pow [OF False]]] show ?thesis by simp
next
  case True
  obtain d v1 where e: "run_engine L ck sv req prot w = (d, v1)" by (metis prod.collapse)
  note eff = run_engine_effect [OF assms(1-4) e]
  show ?thesis
  proof (cases d)
    case (Some res)
    with eff(1) v e True show ?thesis by (simp add: verify_admitted_pow)
  next
    case None
    obtain r2 u2 where p: "verifyPoWOnly L ck sv req (fst (presented L sv req)) (snd (presented L sv req))
        (decoded L sv req) (w_usage v1) = (r2, u2)" by (metis prod.collapse)
    from verifyPoWOnly_effect [OF assms(1-3,5) p] eff(2) [OF None] v e None p True show ?thesis
      by (auto simp: verify_admitted_pow classified_payload split: if_splits)
  qed
qed

lemma Verify_effect:
  assumes "New opts = Inr sv" and "sv_usageStore sv = Some mem_usage_ops" and "\<not> dryRunEffective sv"
    and "in_int64 (ck_classify ck + 60)" and "in_int64 (ck_verify ck + 60)"
  shows "store_effect L ck sv req (claimed (fst (Verify L ck sv req w))) (w_usage w) (w_usage (snd (Verify L ck sv req w)))"
  using refl [of "ShouldProtect L (sv_matcher sv) (ar_OriginalURI req)"]
proof (cases rule: Verify_cases [where ck = ck and w = w])
  case (limited rel pb r w')
  with verify_admitted_effect [OF assms limited(5)] show ?thesis by simp
next
  case (free r w')
  with verify_admitted_effect [OF assms free(4)] show ?thesis by simp
qed simp_all


section \<open>Runs of the service\<close>

text \<open>
  The events of a service with the in-memory store: a request, and a tick of the cleanup loop
  with its threshold.
\<close>

datatype ServiceEvent = Request Clocks AuthRequest | CleanupTick int

definition service_step :: "golib \<Rightarrow> (MemUsageStore, 'c) Service \<Rightarrow> ServiceEvent \<Rightarrow> (MemUsageStore, 'c) World \<Rightarrow> (MemUsageStore, 'c) World" where
  "service_step L sv e w =
     (case e of
        Request ck req \<Rightarrow> snd (Verify L ck sv req w)
      | CleanupTick b \<Rightarrow> w\<lparr>w_usage := snd (CleanupExpired b (w_usage w))\<rparr>)"

text \<open>
  A request relies on a generic token when it presents one and is not free: with a rule engine the
  token is good when the rules are evaluated, which see it as valid; without, the path is
  protected. What the answer says about the token plays no part in this.
\<close>

definition relies :: "golib \<Rightarrow> Clocks \<Rightarrow> ('u, 'c) Service \<Rightarrow> AuthRequest \<Rightarrow> string \<Rightarrow> bool" where
  "relies L ck sv req sid \<longleftrightarrow> powEnabled sv \<and> \<not> bypassAllEffective sv \<and>
     (\<exists>p. decoded L sv req = Some p \<and> tp_Mode p = ''generic'' \<and> sign_id_of L sv req p = sid \<and>
       (if sv_riskEngine sv = None then ShouldProtect L (sv_matcher sv) (ar_OriginalURI req)
        else good_token L (cfg_Pow (sv_cfg sv)) (ar_OriginalURI req) (ck_classify ck) (snd (presented L sv req)) p))"

definition honours :: "golib \<Rightarrow> (MemUsageStore, 'c) Service \<Rightarrow> string \<Rightarrow> ServiceEvent \<Rightarrow> (MemUsageStore, 'c) World \<Rightarrow> bool" where
  "honours L sv sid e w =
     (case e of
        Request ck req \<Rightarrow> \<not> exempt sv req \<and>
          (a_Allowed (fst (Verify L ck sv req w)) \<and> relies L ck sv req sid \<or> claimed (fst (Verify L ck sv req w)) = sid)
      | CleanupTick b \<Rightarrow> False)"

fun honoured :: "golib \<Rightarrow> (MemUsageStore, 'c) Service \<Rightarrow> string \<Rightarrow> (int \<times> ServiceEvent) list \<Rightarrow> (MemUsageStore, 'c) World \<Rightarrow> nat" where
  "honoured L sv sid [] w = 0"
| "honoured L sv sid ((t, e) # es) w =
     (if honours L sv sid e w then 1 else 0) + honoured L sv sid es (service_step L sv e w)"

text \<open>
  An event at its time \<open>t\<close>: a request reads its clocks at or after \<open>t\<close>, a cleanup removes what
  expired before a moment that is not later than \<open>t\<close>.
\<close>

definition event_ok :: "int \<times> ServiceEvent \<Rightarrow> bool" where
  "event_ok te =
     (case te of
        (t, Request ck req) \<Rightarrow> t \<le> ck_classify ck \<and> t \<le> ck_verify ck \<and> in_int64 (ck_classify ck + 60) \<and> in_int64 (ck_verify ck + 60)
      | (t, CleanupTick b) \<Rightarrow> b \<le> t)"

text \<open>The texts that are hashed into sign ids during a run.\<close>

definition hashed_inputs :: "golib \<Rightarrow> ('u, 'c) Service \<Rightarrow> (int \<times> ServiceEvent) list \<Rightarrow> string set" where
  "hashed_inputs L sv es =
     (\<Union>(t, e) \<in> set es. case e of
        Request ck req \<Rightarrow>
          (case decoded L sv req of
             Some p \<Rightarrow> {sign_id_input (Some p) (snd (presented L sv req)) (tp_Mode p)}
           | None \<Rightarrow> {})
      | CleanupTick b \<Rightarrow> {})"

text \<open>A good token is a validated one, with a sign of one line.\<close>

lemma good_token_valid:
  assumes "good_token L pc path now s p"
  obtains v where "ValidatePayload L (Some p) (Some v) = None" "known_modes v" "newline \<notin> set s" "newline \<notin> set (tp_Mode p)"
proof -
  let ?v = "mode_opts pc (tp_Mode p) (mode_conf pc (tp_Mode p)) False"
  have mode: "tp_Mode p \<in> {''ip_bound'', ''generic''}" using assms by (simp add: good_token_def Let_def)
  from ValidatePayload_mode_opts [OF this] assms have "ValidatePayload L (Some p) (Some ?v) = None"
    by (simp add: good_token_def Let_def)
  moreover have "known_modes ?v" using mode by (simp add: known_modes_def mode_opts_def)
  moreover have "newline \<notin> set s"
  proof
    assume "newline \<in> set s"
    then have "lower_byte newline \<in> set (ComputeSign L (Some p))"
      using assms by (metis (no_types, lifting) good_token_def imageI list.set_map)
    then have "lower_hex (lower_byte newline)" unfolding ComputeSign_def by (rule hex_chars)
    then show False by (simp add: lower_hex_def lower_byte_def)
  qed
  moreover have "newline \<notin> set (tp_Mode p)" using mode by auto
  ultimately show ?thesis by (rule that)
qed

lemma same_id_same_expiry:
  assumes "good_token L pc path now s p" and "good_token L pc' path' now' t q"
    and "inj_on (Sum256 L) A" and "sign_id_input (Some p) s (tp_Mode p) \<in> A" and "sign_id_input (Some q) t (tp_Mode q) \<in> A"
    and "ComputeSignID L (Some p) s (tp_Mode p) = ComputeSignID L (Some q) t (tp_Mode q)"
  shows "tp_ExpiresAt p = tp_ExpiresAt q"
proof -
  obtain v where v: "ValidatePayload L (Some p) (Some v) = None" "known_modes v" "newline \<notin> set s" "newline \<notin> set (tp_Mode p)"
    using good_token_valid [OF assms(1)] .
  obtain w where w: "ValidatePayload L (Some q) (Some w) = None" "known_modes w" "newline \<notin> set t" "newline \<notin> set (tp_Mode q)"
    using good_token_valid [OF assms(2)] .
  have "sign_id_input (Some p) s (tp_Mode p) = sign_id_input (Some q) t (tp_Mode q)"
    using hex_digest_inject [OF assms(6) [unfolded ComputeSignID_def]] assms(3-5) by (blast dest: inj_onD)
  from sign_id_input_inject [OF this v(4) w(4) v(3) w(3)]
  have "BuildCanonicalInput (Some p) = BuildCanonicalInput (Some q)" by blast
  from valid_canonical_eq [OF v(1,2) w(1,2) this] show ?thesis
    by (metis TokenPayload.select_convs(7) TokenPayload.surjective TokenPayload.update_convs(3))
qed

lemma usage_inv_weaken:
  assumes "usage_inv M sid expiry t n s" and "n' \<le> n" and "t \<le> t'"
  shows "usage_inv M sid expiry t' n' s"
  using assms by (auto simp: usage_inv_def)

definition expiry_fixed :: "golib \<Rightarrow> (MemUsageStore, 'c) Service \<Rightarrow> string \<Rightarrow> int \<Rightarrow> ServiceEvent \<Rightarrow> bool" where
  "expiry_fixed L sv sid expiry e \<longleftrightarrow>
     (\<forall>ck req inp. e = Request ck req \<longrightarrow> token_op L ck sv req inp \<longrightarrow> ci_ID inp = sid \<longrightarrow> ci_ExpiresAt inp = expiry)"

text \<open>An allowed request that relies on a token claims it, on every path of the service.\<close>

lemma charge_claims:
  assumes "rq_PowStatus rq = ''valid''" and "rq_PowMode rq = ''generic''" and "vx_payload vx = Some p" and "\<not> dryRunEffective sv"
    and "chargeQuotaForRiskAllow L ck sv vx rq w = (d, w')"
  shows "case d of Inl res \<Rightarrow> \<not> a_Allowed res | Inr (sid, _, _) \<Rightarrow> sid = ComputeSignID L (Some p) (vx_sign vx) ''generic''"
proof -
  obtain q sid v' where q: "consumeGenericQuota L (ck_wall ck) sv p (vx_req vx) (vx_tokenRaw vx) (vx_sign vx) ''generic'' (ck_charge ck) (w_usage w) = ((q, sid), v')"
    by (metis prod.collapse)
  then have "sid = ComputeSignID L (Some p) (vx_sign vx) ''generic''"
    by (auto simp: consumeGenericQuota_def Let_def split: option.splits prod.splits)
  with assms q show ?thesis
    by (auto simp: chargeQuotaForRiskAllow_def withSignID_def Let_def split: sum.splits if_splits)
qed

lemma decision_claims:
  assumes "rq_PowStatus rq = ''valid''" and "rq_PowMode rq = ''generic''" and "vx_payload vx = Some p" and "\<not> dryRunEffective sv"
    and "apply_decision L ck sv vx rq ''valid'' result w = (Some res, w')" and "a_Allowed res"
  shows "claimed res = ComputeSignID L (Some p) (vx_sign vx) ''generic''"
proof -
  obtain d v where c: "chargeQuotaForRiskAllow L ck sv vx rq w = (d, v)" by (metis prod.collapse)
  from charge_claims [OF assms(1-4) c] assms(2,5,6) c show ?thesis
    by (auto simp: apply_decision_def with_risk_def claimed_def allow_def denyMode_def denyStatus_def Let_def
        split: if_splits sum.splits prod.splits)
qed

lemma pow_only_claims:
  assumes "tp_Mode p = ''generic''" and "\<not> dryRunEffective sv"
    and "verifyPoWOnly L ck sv req t s (Some p) u = (r, u')" and "a_Allowed r"
  shows "claimed r = ComputeSignID L (Some p) s ''generic''"
proof -
  obtain q sid v' where q: "consumeGenericQuota L (ck_wall ck) sv p req t s ''generic'' (ck_verify ck) u = ((q, sid), v')"
    by (metis prod.collapse)
  then have "sid = ComputeSignID L (Some p) s ''generic''"
    by (auto simp: consumeGenericQuota_def Let_def split: option.splits prod.splits)
  with assms q show ?thesis
    by (auto simp: verifyPoWOnly_def finalizeByMode_def finalizeGeneric_def withSignID_def claimed_def allow_def Let_def
        split: if_splits option.splits sum.splits)
qed

lemma relies_claimed:
  assumes "New opts = Inr sv" and "\<not> dryRunEffective sv" and "in_int64 (ck_classify ck + 60)"
    and "relies L ck sv req sid" and "a_Allowed (fst (Verify L ck sv req w))"
  shows "claimed (fst (Verify L ck sv req w)) = sid"
proof -
  let ?prot = "ShouldProtect L (sv_matcher sv) (ar_OriginalURI req)"
  from assms(4) obtain p where on: "powEnabled sv" "\<not> bypassAllEffective sv" and p: "decoded L sv req = Some p" "tp_Mode p = ''generic''"
    and sid: "sid = ComputeSignID L (Some p) (snd (presented L sv req)) ''generic''"
    and free: "if sv_riskEngine sv = None then ?prot
      else good_token L (cfg_Pow (sv_cfg sv)) (ar_OriginalURI req) (ck_classify ck) (snd (presented L sv req)) p"
    unfolding relies_def sign_id_of_def by metis
  have admitted: "claimed r = sid" if v: "verify_admitted L ck sv req ?prot v = (r, v')" and r: "a_Allowed r" for v r v'
  proof -
    let ?rq = "risk_request L ck sv req ?prot" and ?vx = "request_ctx L ck sv req ?prot"
    let ?st = "fst (snd (classified L ck sv req))"
    obtain d v1 where e: "run_engine L ck sv req ?prot v = (d, v1)" by (metis prod.collapse)
    show ?thesis
    proof (cases d)
      case None
      with v e on p free show ?thesis unfolding sid
        by (auto simp: verify_admitted_pow classified_payload r split: if_splits prod.splits
            intro!: pow_only_claims [OF p(2) assms(2)] dest: sym)
    next
      case (Some res)
      with v e on have res: "res = r" by (simp add: verify_admitted_pow)
      show ?thesis
      proof (cases rule: runRiskEngine_cases [of L ck sv ?vx ?rq ?st v])
        case unhandled
        with e Some show ?thesis by (simp add: run_engine_def)
      next
        case (decided en result)
        with free have "?st = ''valid''" using classified_valid(1) [OF assms(1,3), of L req] p by auto
        moreover have "snd (snd (classified L ck sv req)) = ''generic''" using classified_valid(2) [OF assms(1,3) p(1)] p(2) by simp
        ultimately show ?thesis
          using decision_claims [of "engine_request ck sv v ?rq" ?vx p sv L ck result "engine_world ck sv ?rq result v" res v1]
            decided e Some assms(2) p res r sid
          by (simp add: run_engine_def engine_request_def risk_request_def request_ctx_def classified_payload)
      qed
    qed
  qed
  from refl [of ?prot] show ?thesis
  proof (cases rule: Verify_cases [where ck = ck and w = w])
    case (limited rel pb r w')
    with admitted [OF limited(5)] assms(5) show ?thesis by simp
  next
    case (free r w')
    with admitted [OF free(4)] assms(5) show ?thesis by simp
  qed (use on assms(5) in simp_all)
qed

lemma service_step_inv:
  assumes "New opts = Inr sv" and "sv_usageStore sv = Some mem_usage_ops" and "\<not> dryRunEffective sv"
    and "sid \<noteq> []" and "usage_inv (max_uses sv) sid expiry t n (w_usage w)" and "event_ok (t', e)" and "t \<le> t'"
    and "expiry_fixed L sv sid expiry e"
  shows "usage_inv (max_uses sv) sid expiry t' (n + (if honours L sv sid e w then 1 else 0)) (w_usage (service_step L sv e w))"
proof (cases e)
  case (CleanupTick b)
  with usage_inv_Cleanup [OF assms(5), of b t'] assms(6,7) show ?thesis
    by (simp add: service_step_def honours_def event_ok_def)
next
  case (Request ck req)
  let ?r = "fst (Verify L ck sv req w)" and ?u = "w_usage (snd (Verify L ck sv req w))"
  have eff: "store_effect L ck sv req (claimed ?r) (w_usage w) ?u"
    using assms(6) Request by (intro Verify_effect [OF assms(1-3)]) (simp_all add: event_ok_def)
  have claims: "claimed ?r = sid" if "honours L sv sid e w"
    using that relies_claimed [OF assms(1,3), of ck L req sid w] assms(6) Request by (auto simp: honours_def event_ok_def)
  from eff consider "?u = w_usage w" "claimed ?r = []"
    | inp where "token_op L ck sv req inp" "?u = snd (Consume (ck_wall ck) inp (w_usage w))"
        "claimed ?r \<noteq> [] \<Longrightarrow> ci_ID inp = claimed ?r \<and> (ci_SkipConsume inp \<longleftrightarrow> exempt sv req) \<and>
           (\<exists>cr. fst (Consume (ck_wall ck) inp (w_usage w)) = Inr cr \<and> cr_Allowed cr)"
    unfolding store_effect_def by blast
  then show ?thesis
  proof cases
    case 1
    with claims assms(4) have "\<not> honours L sv sid e w" by auto
    with 1 usage_inv_weaken [OF assms(5) order_refl assms(7)] Request show ?thesis by (simp add: service_step_def)
  next
    case (2 inp)
    have "op_ok (max_uses sv) sid expiry (t', OpConsume (ck_wall ck) inp)"
      using 2(1) assms(6,8) Request
      by (force simp: op_ok_def token_op_def event_ok_def expiry_fixed_def good_token_def Let_def)
    from usage_inv_Consume [OF assms(5) this assms(7)] 2(2)
    have "usage_inv (max_uses sv) sid expiry t' (n + (if charges sid (OpConsume (ck_wall ck) inp) (w_usage w) then 1 else 0)) ?u"
      by simp
    moreover have "charges sid (OpConsume (ck_wall ck) inp) (w_usage w)" if "honours L sv sid e w"
      using that claims 2(3) assms(4) Request by (auto simp: honours_def charges_def)
    ultimately show ?thesis using Request
      by (auto simp: service_step_def intro: usage_inv_weaken)
  qed
qed

lemma honoured_bound:
  assumes "New opts = Inr sv" and "sv_usageStore sv = Some mem_usage_ops" and "\<not> dryRunEffective sv"
    and "sid \<noteq> []" and "usage_inv (max_uses sv) sid expiry t n (w_usage w)"
    and "\<forall>x \<in> set es. event_ok x \<and> expiry_fixed L sv sid expiry (snd x)" and "sorted (t # map fst es)"
  shows "n + int (honoured L sv sid es w) \<le> max_uses sv"
  using assms(5-7)
proof (induction es arbitrary: t n w)
  case Nil
  then show ?case by (simp add: usage_inv_def)
next
  case (Cons x es)
  obtain t' e where x: "x = (t', e)" by (cases x)
  with Cons.prems have "usage_inv (max_uses sv) sid expiry t' (n + (if honours L sv sid e w then 1 else 0))
      (w_usage (service_step L sv e w))"
    by (intro service_step_inv [OF assms(1-4) Cons.prems(1)]) auto
  from Cons.IH [OF this] Cons.prems(2,3) x show ?case by (simp split: if_splits)
qed

lemma expiry_of_trace:
  assumes "inj_on (Sum256 L) (hashed_inputs L sv es)"
  obtains expiry where "\<forall>x \<in> set es. expiry_fixed L sv sid expiry (snd x)"
proof (cases "\<exists>t ck req inp. (t, Request ck req) \<in> set es \<and> token_op L ck sv req inp \<and> ci_ID inp = sid")
  case False
  then have "\<forall>x \<in> set es. expiry_fixed L sv sid 0 (snd x)" by (force simp: expiry_fixed_def)
  then show ?thesis by (rule that)
next
  case True
  then obtain t ck req inp where e: "(t, Request ck req) \<in> set es" "token_op L ck sv req inp" "ci_ID inp = sid" by blast
  have mem: "sign_id_input (Some p) (snd (presented L sv r)) (tp_Mode p) \<in> hashed_inputs L sv es"
    if "(x, Request c r) \<in> set es" "decoded L sv r = Some p" for x c r p
    using that by (force simp: hashed_inputs_def)
  have "ci_ExpiresAt inp' = ci_ExpiresAt inp"
    if i: "(x, Request c r) \<in> set es" "token_op L c sv r inp'" "ci_ID inp' = sid" for x c r inp'
    using e i same_id_same_expiry [OF _ _ assms mem mem] unfolding token_op_def sign_id_of_def by metis
  then have "\<forall>x \<in> set es. expiry_fixed L sv sid (ci_ExpiresAt inp) (snd x)" by (force simp: expiry_fixed_def)
  then show ?thesis by (rule that)
qed

section \<open>Binding an address on first use\<close>

text \<open>The operations that keep a record with the given expiry: all but shutdown and a cleanup past it.\<close>

definition keeps_record :: "int \<Rightarrow> UsageOp \<Rightarrow> bool" where
  "keeps_record expiry op = (case op of OpCleanup b \<Rightarrow> b \<le> expiry | OpClose \<Rightarrow> False | _ \<Rightarrow> True)"

definition bound_to :: "MemUsageStore \<Rightarrow> string \<Rightarrow> string \<Rightarrow> int \<Rightarrow> bool" where
  "bound_to s sid ip expiry \<longleftrightarrow> wf_map (us_records s) \<and> \<not> us_closed s \<and>
     (\<exists>r. map_of (us_records s) sid = Some r \<and> ur_FirstIP r = ip \<and> ur_ExpiresAt r = expiry)"

lemma consumed_record_first:
  "map_of (us_records s) (ci_ID inp) = Some r \<Longrightarrow> ur_FirstIP (consumed_record wall inp s) = ur_FirstIP r"
  "map_of (us_records s) (ci_ID inp) = None \<Longrightarrow> ur_FirstIP (consumed_record wall inp s) = ci_IP inp"
  by (simp_all add: consumed_record_def record_for_def fresh_record_def)

lemma bound_to_step:
  assumes "bound_to s sid ip expiry" and "keeps_record expiry op"
  shows "bound_to (usage_step op s) sid ip expiry"
proof (cases op)
  case (OpConsume wall inp)
  with assms consumed_record_first(1) [of s inp _ wall] consumed_record_expiry [of wall inp s] show ?thesis
    by (auto simp: bound_to_def usage_step_def Consume_state)
next
  case (OpCleanup b)
  with assms show ?thesis
    by (auto simp: bound_to_def usage_step_def keeps_record_def CleanupExpired_def Let_def map_of_filter)
qed (use assms in \<open>auto simp: usage_step_def keeps_record_def\<close>)

lemma bound_to_run: "bound_to s sid ip expiry \<Longrightarrow> \<forall>op \<in> set ops. keeps_record expiry op \<Longrightarrow>
    bound_to (fold usage_step ops s) sid ip expiry"
  by (induction ops arbitrary: s) (auto intro: bound_to_step)

lemma bind_first:
  assumes "sv_usageStore sv = Some mem_usage_ops" and "wf_map (us_records u)"
    and "Get (ComputeSignID L (Some p) sign mode) u = Inl ErrNotFound"
    and b: "bindEmptyIPFirstUse L ck sv p req tok sign mode u = (r, p', u')"
  shows "r = None \<and> bound_to u' (ComputeSignID L (Some p) sign mode) (ar_RealIP req) (tp_ExpiresAt p)"
proof -
  let ?inp = "\<lparr>ci_ID = ComputeSignID L (Some p) sign mode, ci_Mode = mode, ci_Path = tp_Path p, ci_Sign = sign,
      ci_TokenHash = HashToken L tok, ci_ExpiresAt = tp_ExpiresAt p, ci_MaxUses = 1,
      ci_IP = ar_RealIP req, ci_UserAgent = ar_UserAgent req, ci_NowUnix = ck_bind ck,
      ci_GraceSeconds = grace_seconds (sv_cfg sv), ci_SkipConsume = True\<rparr>"
  from assms(3) have u: "\<not> us_closed u" "map_of (us_records u) (ci_ID ?inp) = None"
    by (auto simp: Get_def split: if_splits option.splits)
  have "r = None" and "u' = snd (Consume (ck_wall ck) ?inp u)"
    using b assms(1,3) u Consume_result [of "ck_wall ck" ?inp u]
    by (auto simp: bindEmptyIPFirstUse_def mem_usage_ops_def Let_def split: prod.splits sum.splits)
  with assms(2) u consumed_record_first(2) [OF u(2), of "ck_wall ck"] consumed_record_expiry [of "ck_wall ck" ?inp u]
  show ?thesis by (simp add: bound_to_def Consume_state)
qed

section \<open>Dry run\<close>

text \<open>The same service with dry run switched off.\<close>

definition enforcing :: "('u, 'c) Service \<Rightarrow> ('u, 'c) Service" where
  "enforcing sv = sv\<lparr>sv_cfg := (sv_cfg sv)\<lparr>cfg_Pow := (cfg_Pow (sv_cfg sv))\<lparr>pc_DryRun := False\<rparr>\<rparr>\<rparr>"

lemma enforcing_frame [simp]:
  "sv_matcher (enforcing sv) = sv_matcher sv" "sv_usageStore (enforcing sv) = sv_usageStore sv"
  "sv_riskEngine (enforcing sv) = sv_riskEngine sv" "powEnabled (enforcing sv) = powEnabled sv"
  "bypassAllEffective (enforcing sv) = bypassAllEffective sv" "\<not> dryRunEffective (enforcing sv)"
  "limiter_applies L (enforcing sv) req = limiter_applies L sv req"
  "grace_seconds (sv_cfg (enforcing sv)) = grace_seconds (sv_cfg sv)"
  "pc_MaxTokenLength (cfg_Pow (sv_cfg (enforcing sv))) = pc_MaxTokenLength (cfg_Pow (sv_cfg sv))"
  "pc_MaxSignLength (cfg_Pow (sv_cfg (enforcing sv))) = pc_MaxSignLength (cfg_Pow (sv_cfg sv))"
  by (simp_all add: enforcing_def powEnabled_def bypassAllEffective_def dryRunEffective_def
      limiter_applies_def pendingEnabled_def grace_seconds_def)

lemma enforcing_parts [simp]:
  "extractTokenAndSign L (enforcing sv) args = extractTokenAndSign L sv args"
  "validateTokenForMode L (enforcing sv) p mode path s now = validateTokenForMode L sv p mode path s now"
  "consumeGenericQuota L wall (enforcing sv) p req tok s mode now u = consumeGenericQuota L wall sv p req tok s mode now u"
  by (simp_all add: enforcing_def extractTokenAndSign_def validateTokenForMode_def modeConfig_def
      consumeGenericQuota_def quota_input_def grace_seconds_def Let_def split: option.split)

lemma enforcing_request [simp]:
  "presented L (enforcing sv) req = presented L sv req"
  "classified L ck (enforcing sv) req = classified L ck sv req"
  by (simp_all add: presented_def classified_def classifyPoW_def split: prod.split sum.split)

lemma maybeDryRun_allow [simp]: "a_Allowed r \<Longrightarrow> maybeDryRun sv r = r"
  by (simp add: maybeDryRun_def)

lemma allow_Allowed [simp]: "a_Allowed (allow r m)" "a_Allowed (allowDecision r m d)"
  by (simp_all add: allow_def allowDecision_def)

lemma bind_shadow:
  "bindEmptyIPFirstUse L ck sv p req tok sign mode u =
     apfst (map_option (maybeDryRun sv)) (bindEmptyIPFirstUse L ck (enforcing sv) p req tok sign mode u)"
  by (simp add: bindEmptyIPFirstUse_def Let_def split: option.split sum.split prod.split)

lemma finalizeGeneric_shadow:
  "finalizeGeneric L wall sv p req tok sign mode now u =
     apfst (maybeDryRun sv) (finalizeGeneric L wall (enforcing sv) p req tok sign mode now u)"
  by (simp add: finalizeGeneric_def split: sum.split prod.split)

lemma finalizeIPBound_shadow:
  assumes "ar_RealIP req \<noteq> []"
  shows "finalizeIPBound L ck sv p req tok sign mode u =
     apfst (maybeDryRun sv) (finalizeIPBound L ck (enforcing sv) p req tok sign mode u)"
  using assms unfolding finalizeIPBound_def bind_shadow [of L ck sv]
  by (simp split: option.split prod.split)

lemma verifyPoWOnly_shadow:
  assumes "ar_RealIP req \<noteq> []"
  shows "verifyPoWOnly L ck sv req tok sign payload u =
     apfst (maybeDryRun sv) (verifyPoWOnly L ck (enforcing sv) req tok sign payload u)"
  unfolding verifyPoWOnly_def finalizeByMode_def finalizeGeneric_shadow [of L _ sv] finalizeIPBound_shadow [OF assms, of L ck sv]
  by (simp add: Let_def split: option.split)

lemma Verify_without_engine:
  assumes "sv_riskEngine sv = None" and "powEnabled sv" and "\<not> bypassAllEffective sv"
    and "ar_OriginalURI req \<noteq> []" and "\<not> limiter_applies L sv req"
    and "prot = ShouldProtect L (sv_matcher sv) (ar_OriginalURI req)"
    and "verifyPoWOnly L ck sv req (fst (presented L sv req)) (snd (presented L sv req))
      (fst (classified L ck sv req)) (w_usage w) = (r, u)"
  shows "fst (Verify L ck sv req w) = (if prot then r else allowDecision ReasonNotProtected [] DecisionNotProtected) \<and>
    w_usage (snd (Verify L ck sv req w)) = (if prot then u else w_usage w)"
proof -
  have "run_engine L ck sv req prot w = (None, w)" using assms(1) by (simp add: run_engine_def runRiskEngine_def)
  then have v: "verify_admitted L ck sv req prot w =
      (if prot then (r, recordResult sv prot r (w\<lparr>w_usage := u\<rparr>))
       else (allowDecision ReasonNotProtected [] DecisionNotProtected,
         recordResult sv prot (allowDecision ReasonNotProtected [] DecisionNotProtected) w))"
    using assms(1,7) by (simp add: verify_admitted_pow [OF assms(2)])
  from assms(6) show ?thesis
    by (cases rule: Verify_cases [where ck = ck and w = w]) (use assms(3-5) v in auto)
qed

lemma Verify_shadow:
  assumes "New opts = Inr sv" and "sv_riskEngine sv = None" and "powEnabled sv"
    and "ar_OriginalURI req \<noteq> []" and "ar_RealIP req \<noteq> []"
  shows "fst (Verify L ck sv req w) = maybeDryRun sv (fst (Verify L ck (enforcing sv) req w)) \<and>
    w_usage (snd (Verify L ck sv req w)) = w_usage (snd (Verify L ck (enforcing sv) req w))"
proof (cases "bypassAllEffective sv")
  case True
  then show ?thesis by (simp add: Verify_def Let_def)
next
  case False
  let ?prot = "ShouldProtect L (sv_matcher sv) (ar_OriginalURI req)"
  have lim: "\<not> limiter_applies L sv req" using New_options(3) [OF assms(1)] assms(2) by (auto simp: limiter_applies_def)
  obtain r u where v: "verifyPoWOnly L ck (enforcing sv) req (fst (presented L sv req)) (snd (presented L sv req))
      (fst (classified L ck sv req)) (w_usage w) = (r, u)" by (metis prod.collapse)
  have "verifyPoWOnly L ck sv req (fst (presented L sv req)) (snd (presented L sv req))
      (fst (classified L ck sv req)) (w_usage w) = (maybeDryRun sv r, u)"
    using verifyPoWOnly_shadow [OF assms(5), of L ck sv] v by simp
  from Verify_without_engine [OF assms(2,3) False assms(4) lim refl this]
    Verify_without_engine [of "enforcing sv" req L ?prot ck w r u] assms(2-4) False lim v
  show ?thesis by simp
qed

section \<open>Properties\<close>

text \<open>
  C3: A sign id is used at most \<^verbatim>\<open>max_uses\<close> times. Over any run of the service with the in-memory
  store, requests of all clients, with and without rules and the limiter, interleaved with
  cleanups, at most \<^verbatim>\<open>max_uses\<close> requests that rely on the generic token with a given sign id are
  let through, whatever their answers say of it, HEAD requests that are configured not to count
  aside. The service enforces. The id stands for the payload and the sign as it was presented; the
  same sign in other letters has another id (\<open>sign_case_escapes_quota\<close>). The hypothesis on the
  hash says that the texts hashed into sign ids during the run do not collide.
\<close>

theorem token_honoured_at_most_max_uses:
  assumes "New opts = Inr sv" and "sv_usageStore sv = Some mem_usage_ops" and "\<not> dryRunEffective sv"
    and "0 \<le> max_uses sv" and "max_uses sv < 2 ^ 63" and "w_usage w = NewUsageStore" and "sid \<noteq> []"
    and "\<forall>x \<in> set es. event_ok x" and "sorted (map fst es)"
    and "inj_on (Sum256 L) (hashed_inputs L sv es)"
  shows "int (honoured L sv sid es w) \<le> max_uses sv"
proof (cases es)
  case Nil
  then show ?thesis using assms(4) by simp
next
  case (Cons x xs)
  obtain expiry where "\<forall>x \<in> set es. expiry_fixed L sv sid expiry (snd x)" using expiry_of_trace [OF assms(10)] .
  moreover have "usage_inv (max_uses sv) sid expiry (fst x) 0 (w_usage w)"
    using assms(4-6) mem_inv_New [of "max_uses sv"] by (simp add: usage_inv_def mem_uses_def NewUsageStore_def)
  ultimately show ?thesis
    using honoured_bound [OF assms(1-3,7), of expiry "fst x" 0 w es L] assms(8,9) Cons by simp
qed

theorem token_honoured_at_most_max_uses_witness:
  "int (honoured demo_lib (service_of demo_options) demo_sign
     [(1500, Request (demo_clocks 1500) demo_req), (1600, CleanupTick 1540), (1700, Request (demo_clocks 1700) demo_req),
      (1800, Request (demo_clocks 1800) demo_req)] demo_world) \<le> 2"
proof -
  let ?sv = "service_of demo_options"
  let ?es = "[(1500, Request (demo_clocks 1500) demo_req), (1600, CleanupTick 1540), (1700, Request (demo_clocks 1700) demo_req),
      (1800, Request (demo_clocks 1800) demo_req)]"
  have M: "max_uses ?sv = 2" and dry: "\<not> dryRunEffective ?sv"
    by (simp_all add: max_uses_def dryRunEffective_def demo_pow_def default_pow_def config_pow_generic_on_def zero_config_def)
  have "\<forall>x \<in> set ?es. event_ok x" by (simp add: event_ok_def demo_clocks_def in_int64_def)
  moreover have "inj_on (Sum256 demo_lib) (hashed_inputs demo_lib ?sv ?es)"
    using demo_decoded [of ?sv] by (simp add: hashed_inputs_def)
  moreover have "w_usage demo_world = NewUsageStore" "demo_sign \<noteq> []" by (simp_all add: demo_world_def demo_sign_def)
  ultimately show ?thesis
    using token_honoured_at_most_max_uses [OF demo_New(1) _ dry, of demo_world demo_sign ?es demo_lib] M by simp
qed

text \<open>
  The letter case of a sign escapes the quota. A good token stays good when letters of its sign
  change case, while the text hashed into the sign id changes: each spelling of one sign is
  counted on its own, so one unit of work is worth more than \<^verbatim>\<open>max_uses\<close> uses.
\<close>

theorem sign_case_escapes_quota:
  assumes "good_token L pc path now s p" and "map lower_byte t = map lower_byte s"
  shows "good_token L pc path now t p \<and> (t \<noteq> s \<longrightarrow> sign_id_input (Some p) t m \<noteq> sign_id_input (Some p) s m)"
  using assms by (simp add: good_token_def sign_id_input_def Let_def)

theorem sign_case_escapes_quota_witness:
  "good_token demo_lib demo_pow ''/a.iso'' 1500 (replicate 62 (CHR ''0'') @ ''Ab'') demo_payload \<and>
   sign_id_input (Some demo_payload) (replicate 62 (CHR ''0'') @ ''Ab'') ''generic'' \<noteq>
     sign_id_input (Some demo_payload) demo_sign ''generic''"
proof -
  have "map lower_byte (replicate 62 (CHR ''0'') @ ''Ab'') = map lower_byte demo_sign" by code_simp
  from sign_case_escapes_quota [OF demo_good this, of "''generic''"] show ?thesis by (simp add: demo_sign_def)
qed

text \<open>
  C9: An address-bound token without an address belongs to its first user. With the in-memory store
  the first use of such a token is let through and binds it: whatever operations on the store
  follow, short of shutdown and of a cleanup after its expiry, a further use passes the binding
  exactly when it comes from the same address, and is refused with \<^verbatim>\<open>ip_mismatch\<close> otherwise.
\<close>

theorem first_use_binds_address:
  assumes "sv_usageStore sv = Some mem_usage_ops" and "\<not> dryRunEffective sv" and "wf_map (us_records u)"
    and "Get (ComputeSignID L (Some p) sign mode) u = Inl ErrNotFound"
    and "bindEmptyIPFirstUse L ck sv p req tok sign mode u = (r, p', u')"
    and "\<forall>op \<in> set ops. keeps_record (tp_ExpiresAt p) op"
    and "ar_RealIP req \<noteq> []"
  shows "r = None \<and> fst (bindEmptyIPFirstUse L ck' sv p req' tok' sign mode (fold usage_step ops u')) =
    (if sameIP L (ar_RealIP req) (ar_RealIP req') then None else Some (denyMode ReasonIPMismatch mode))"
proof -
  note b = bind_first [OF assms(1,3-5)]
  from bound_to_run [OF conjunct2 [OF b] assms(6)] b assms(1,2,7) show ?thesis
    by (auto simp: bound_to_def bindEmptyIPFirstUse_def mem_usage_ops_def Get_def Let_def)
qed

theorem first_use_binds_address_witness:
  "fst (bindEmptyIPFirstUse demo_lib (demo_clocks 1600) (service_of demo_options) (demo_payload\<lparr>tp_Mode := ''ip_bound''\<rparr>)
     (demo_req\<lparr>ar_RealIP := ''10.0.0.8''\<rparr>) ''AAAA'' demo_sign ''ip_bound''
     (fold usage_step [OpConsume 0 demo_consume, OpCleanup 1540]
       (snd (snd (bindEmptyIPFirstUse demo_lib (demo_clocks 1500) (service_of demo_options)
         (demo_payload\<lparr>tp_Mode := ''ip_bound''\<rparr>) demo_req ''AAAA'' demo_sign ''ip_bound'' NewUsageStore))))) =
   Some (denyMode ReasonIPMismatch ''ip_bound'')"
proof -
  let ?p = "demo_payload\<lparr>tp_Mode := ''ip_bound''\<rparr>" and ?req' = "demo_req\<lparr>ar_RealIP := ''10.0.0.8''\<rparr>"
  obtain r p' u' where b: "bindEmptyIPFirstUse demo_lib (demo_clocks 1500) (service_of demo_options) ?p demo_req
      ''AAAA'' demo_sign ''ip_bound'' NewUsageStore = (r, p', u')" by (metis prod.collapse)
  have "\<not> dryRunEffective (service_of demo_options)"
    by (simp add: dryRunEffective_def demo_pow_def default_pow_def config_pow_generic_on_def zero_config_def)
  moreover have "\<not> sameIP demo_lib (ar_RealIP demo_req) (ar_RealIP ?req')" and "ar_RealIP demo_req \<noteq> []" by code_simp+
  ultimately show ?thesis
    using first_use_binds_address [of "service_of demo_options" NewUsageStore demo_lib ?p demo_sign "''ip_bound''" "demo_clocks 1500"
        demo_req "''AAAA''" r p' u' "[OpConsume 0 demo_consume, OpCleanup 1540]" "demo_clocks 1600" ?req' "''AAAA''"] b
    by (simp add: NewUsageStore_def Get_def keeps_record_def demo_payload_def)
qed

definition dry_options :: "(MemUsageStore, MemCounterStore) Options" where
  "dry_options = demo_options\<lparr>op_Config := Some (demo_cfg\<lparr>cfg_Pow := demo_pow\<lparr>pc_DryRun := True\<rparr>\<rparr>)\<rparr>"

lemma dry_New: "New dry_options = Inr (service_of dry_options)"
  by (simp add: New_def service_of_def dry_options_def demo_options_def demo_cfg_def zero_config_def applyDefaults_def)

text \<open>
  C10: Dry run is a shadow of enforcement. Without a rule engine, for a request with a URI and a
  client address, the service in dry run answers an allowed request as the enforcing service
  does; a request that the enforcing service denies is allowed with status 200, the reason
  \<^verbatim>\<open>dry_run_allow\<close>, the reason of the denial as the original one and no error header. The usage store is
  left in the same state.
\<close>

theorem dry_run_shadows:
  assumes "New opts = Inr sv" and "dryRunEffective sv" and "sv_riskEngine sv = None" and "powEnabled sv"
    and "ar_OriginalURI req \<noteq> []" and "ar_RealIP req \<noteq> []" and "enforced = fst (Verify L ck (enforcing sv) req w)"
  shows "fst (Verify L ck sv req w) =
      (if a_Allowed enforced then enforced
       else enforced\<lparr>a_Allowed := True, a_HTTPStatus := 200, a_Reason := ''dry_run_allow'', a_DryRunOriginalError := a_Reason enforced,
         a_ErrorHeader := [], a_Decision := ''dry_run''\<rparr>) \<and>
    w_usage (snd (Verify L ck sv req w)) = w_usage (snd (Verify L ck (enforcing sv) req w))"
proof -
  have "maybeDryRun sv r = (if a_Allowed r then r
      else r\<lparr>a_Allowed := True, a_HTTPStatus := 200, a_Reason := ''dry_run_allow'', a_DryRunOriginalError := a_Reason r,
        a_ErrorHeader := [], a_Decision := ''dry_run''\<rparr>)" for r
    using assms(2) by (simp add: maybeDryRun_def ReasonDryRunAllow_def DecisionDryRun_def)
  with Verify_shadow [OF assms(1,3-6), of L ck w] assms(7) show ?thesis by simp
qed

theorem dry_run_shadows_witness:
  "\<not> a_Allowed (fst (Verify demo_lib (demo_clocks 2500) (enforcing (service_of dry_options)) demo_req demo_world)) \<and>
   a_Allowed (fst (Verify demo_lib (demo_clocks 2500) (service_of dry_options) demo_req demo_world)) \<and>
   a_Reason (fst (Verify demo_lib (demo_clocks 2500) (service_of dry_options) demo_req demo_world)) = ''dry_run_allow''"
proof -
  let ?sv = "service_of dry_options"
  let ?e = "fst (Verify demo_lib (demo_clocks 2500) (enforcing ?sv) demo_req demo_world)"
  have "sv_riskEngine ?sv = None" "powEnabled ?sv" "dryRunEffective ?sv"
    by (simp_all add: service_of_def New_def dry_options_def demo_options_def demo_cfg_def zero_config_def applyDefaults_def
        powEnabled_def dryRunEffective_def demo_pow_def default_pow_def config_pow_generic_on_def or_on_def)
  moreover have "ar_OriginalURI demo_req \<noteq> []" "ar_RealIP demo_req \<noteq> []" by (simp_all add: demo_req_def)
  moreover have "\<not> a_Allowed ?e" by code_simp
  ultimately show ?thesis using dry_run_shadows [OF dry_New, of demo_req ?e demo_lib "demo_clocks 2500" demo_world] by simp
qed

end
