(* ===== verification/ConfigValidate.thy ===== *)
theory ConfigValidate
  imports RiskEngine PathMatcher
begin

text \<open>
  \<^verbatim>\<open>internal/config/validate.go\<close>: the checks a configuration must pass, among them the
  depth-first search for cycles among JUMP rules. A problem is the format of its
  message with the arguments (without the error value of a regular expression that does not
  compile). The search recurses along JUMP rules; its fuel, one more than the
  number of names it can colour, is shown to be enough.
\<close>

type_synonym problem = "string \<times> string list"

section \<open>Single checks\<close>

definition problem_if :: "bool \<Rightarrow> problem \<Rightarrow> problem list" where
  "problem_if b p = (if b then [p] else [])"

definition checkModeDifficulty :: "string \<Rightarrow> ModeConfig \<Rightarrow> problem list" where
  "checkModeDifficulty name m =
     (if mc_MinDifficulty m < 0 \<or> mc_MaxDifficulty m < 0 then [(''pow.modes.%s: difficulties must be non-negative'', [name])]
      else problem_if (mc_MinDifficulty m > mc_MaxDifficulty m)
             (''pow.modes.%s: min_difficulty (%d) > max_difficulty (%d)'',
              [name, FormatInt (mc_MinDifficulty m), FormatInt (mc_MaxDifficulty m)]))"

definition isValidTarget :: "string \<Rightarrow> bool \<Rightarrow> bool" where
  "isValidTarget t policy =
     (if t \<in> {''ACCEPT'', ''REJECT'', ''RATE_LIMIT'', ''TOO_MANY'', ''REQUIRE_POW''} then True
      else if t \<in> {''JUMP'', ''RETURN'', ''LOG'', ''MARK''} then \<not> policy
      else False)"

text \<open>The pattern \<^verbatim>\<open>^[0-9]+[kKmMgG]?$\<close>.\<close>

definition isValidLimitRate :: "string \<Rightarrow> bool" where
  "isValidLimitRate s =
     (if s = ''0'' then True
      else let ds = takeWhile is_digit s; u = dropWhile is_digit s in
        ds \<noteq> [] \<and> (u = [] \<or> u \<in> {''k'', ''K'', ''m'', ''M'', ''g'', ''G''}))"

definition isValidCounterOp :: "string \<Rightarrow> bool" where
  "isValidCounterOp op \<longleftrightarrow> op \<in> {''=='', ''!='', ''>='', ''>'', ''<='', ''<''}"

definition chainExistsCaseInsensitive :: "golib \<Rightarrow> (string, ChainConfig) gomap \<Rightarrow> string \<Rightarrow> bool" where
  "chainExistsCaseInsensitive L cm name =
     (if map_of cm name \<noteq> None then True else list_ex (\<lambda>(k, v). EqualFold L k name) cm)"

definition check_counter_match :: "RiskControlConfig \<Rightarrow> string \<Rightarrow> nat \<Rightarrow> CounterMatch \<Rightarrow> problem list" where
  "check_counter_match rc n i c =
     (if cm_Name c = [] then [(''risk_control.chains.%s.rules[%d]: counter.name is required'', [n, show_nat i])]
      else problem_if (map_of (rk_Counters rc) (cm_Name c) = None) 
             (''risk_control.chains.%s.rules[%d]: counter %q is not defined'', [n, show_nat i, cm_Name c])) @
     problem_if (\<not> isValidCounterOp (cm_Op c)) (''risk_control.chains.%s.rules[%d]: counter.op %q is not supported'', [n, show_nat i, cm_Op c])"

definition check_jump :: "golib \<Rightarrow> RiskControlConfig \<Rightarrow> string \<Rightarrow> nat \<Rightarrow> RuleConfig \<Rightarrow> problem list" where
  "check_jump L rc n i r =
     (if rc_Target r = ''JUMP'' then
        (if rc_Chain r = [] then [(''risk_control.chains.%s.rules[%d]: JUMP target requires chain field'', [n, show_nat i])]
         else problem_if (\<not> chainExistsCaseInsensitive L (rk_Chains rc) (rc_Chain r)) 
                (''risk_control.chains.%s.rules[%d]: JUMP chain %q does not exist'', [n, show_nat i, rc_Chain r]))
      else [])"

definition bad_regex :: "golib \<Rightarrow> string \<Rightarrow> bool" where
  "bad_regex L p \<longleftrightarrow> p \<noteq> [] \<and> regexp_Compile L p = None"

definition check_rule :: "golib \<Rightarrow> RiskControlConfig \<Rightarrow> string \<Rightarrow> nat \<Rightarrow> RuleConfig \<Rightarrow> problem list" where
  "check_rule L rc n i r =
     problem_if (rc_Name r = []) (''risk_control.chains.%s.rules[%d]: name is required'', [n, show_nat i]) @
     problem_if (\<not> isValidTarget (rc_Target r) False) (''risk_control.chains.%s.rules[%d]: target %q is not supported'', [n, show_nat i, rc_Target r]) @
     problem_if (bad_regex L (mt_PathRegex (rc_Match r))) (''risk_control.chains.%s.rules[%d]: path_regex %q does not compile'', [n, show_nat i, mt_PathRegex (rc_Match r)]) @
     problem_if (bad_regex L (mt_UserAgentRegex (rc_Match r))) (''risk_control.chains.%s.rules[%d]: user_agent_regex %q does not compile'', [n, show_nat i, mt_UserAgentRegex (rc_Match r)]) @
     problem_if (rc_LimitRate r \<noteq> [] \<and> \<not> isValidLimitRate (rc_LimitRate r)) (''risk_control.chains.%s.rules[%d]: limit_rate %q is malformed'', [n, show_nat i, rc_LimitRate r]) @
     check_jump L rc n i r @
     problem_if (mt_RiskScoreGte (rc_Match r) \<noteq> None) (''risk_control.chains.%s.rules[%d]: match.risk_score_gte is not supported; no component populates a risk score, so this rule could never match'', [n, show_nat i]) @
     (case mt_Counter (rc_Match r) of None \<Rightarrow> [] | Some c \<Rightarrow> check_counter_match rc n i c)"

fun check_rules :: "golib \<Rightarrow> RiskControlConfig \<Rightarrow> string \<Rightarrow> nat \<Rightarrow> RuleConfig list \<Rightarrow> problem list" where
  "check_rules L rc n i [] = []"
| "check_rules L rc n i (r # rs) = check_rule L rc n i r @ check_rules L rc n (Suc i) rs"

definition check_chain :: "golib \<Rightarrow> RiskControlConfig \<Rightarrow> string \<times> ChainConfig \<Rightarrow> problem list" where
  "check_chain L rc nc =
     (case nc of (n, chain) \<Rightarrow>
        problem_if (polc_Target (chc_Policy chain) = []) (''risk_control.chains.%s: policy.target must be set'', [n]) @
        problem_if (\<not> isValidTarget (polc_Target (chc_Policy chain)) True) (''risk_control.chains.%s: policy.target %q is not a valid policy target'', [n, polc_Target (chc_Policy chain)]) @
        problem_if (polc_LimitRate (chc_Policy chain) \<noteq> [] \<and> \<not> isValidLimitRate (polc_LimitRate (chc_Policy chain)))
          (''risk_control.chains.%s.policy: limit_rate %q is malformed'', [n, polc_LimitRate (chc_Policy chain)]) @
        check_rules L rc n 0 (chc_Rules chain))"

definition check_counter :: "string \<times> CounterConfig \<Rightarrow> problem list" where
  "check_counter nc =
     (case nc of (n, ctr) \<Rightarrow>
        problem_if (cc_Window ctr \<le> 0) (''risk_control.counters.%s: window must be > 0'', [n]) @
        (if cc_Key ctr \<in> {''ip'', ''path'', ''ip_path''} then []
         else if cc_Key ctr = [] then [(''risk_control.counters.%s: key must be set'', [n])]
         else [(''risk_control.counters.%s: key %q is not supported (use ip, path or ip_path)'', [n, cc_Key ctr])]) @
        (if cc_Storage ctr \<in> {[], ''memory'', ''redis''} then [] else [(''risk_control.counters.%s: storage %q is not supported'', [n, cc_Storage ctr])]))"

section \<open>Cycles among JUMP rules\<close>

datatype color = White | Gray | Black

type_synonym norm_chains = "(string, ChainConfig) gomap"

definition normalise_chains :: "golib \<Rightarrow> (string, ChainConfig) gomap \<Rightarrow> norm_chains" where
  "normalise_chains L cm = foldl (\<lambda>acc (k, v). AList.update (ToUpper L k) v acc) [] cm"

record dfs =
  dfs_color :: "string \<Rightarrow> color"
  dfs_problems :: "problem list"

definition paint :: "string \<Rightarrow> color \<Rightarrow> dfs \<Rightarrow> dfs" where
  "paint u c s = s\<lparr>dfs_color := (dfs_color s)(u := c)\<rparr>"

definition is_jump :: "RuleConfig \<Rightarrow> bool" where
  "is_jump r \<longleftrightarrow> rc_Target r = ''JUMP'' \<and> rc_Chain r \<noteq> []"

text \<open>The loop over the rules of a chain: stops at the first JUMP that finds a cycle.\<close>

fun visit_rules ::
  "(string \<Rightarrow> dfs \<Rightarrow> (bool \<times> dfs) option) \<Rightarrow> RuleConfig list \<Rightarrow> dfs \<Rightarrow> (bool \<times> dfs) option" where
  "visit_rules jump [] s = Some (False, s)"
| "visit_rules jump (r # rs) s =
     (if is_jump r then
        (case jump (rc_Chain r) s of
           None \<Rightarrow> None
         | Some (True, s') \<Rightarrow> Some (True, s')
         | Some (False, s') \<Rightarrow> visit_rules jump rs s')
      else visit_rules jump rs s)"

fun dfs_visit ::
  "golib \<Rightarrow> norm_chains \<Rightarrow> nat \<Rightarrow> string list \<Rightarrow> string \<Rightarrow> dfs \<Rightarrow> (bool \<times> dfs) option" where
  "dfs_visit L nm 0 path name s = None"
| "dfs_visit L nm (Suc fuel) path name s =
     (let upper = ToUpper L name in
      case dfs_color s upper of
        Gray \<Rightarrow> Some (True, s\<lparr>dfs_problems := dfs_problems s @ [(''risk_control.chains: cycle detected: %s -> %s'', [Join path '' -> '', name])]\<rparr>)
      | Black \<Rightarrow> Some (False, s)
      | White \<Rightarrow>
          (let s1 = paint upper Gray s in
           case map_of nm upper of
             None \<Rightarrow> Some (False, paint upper Black s1)
           | Some chain \<Rightarrow>
               (case visit_rules (dfs_visit L nm fuel (path @ [name])) (chc_Rules chain) s1 of
                  None \<Rightarrow> None
                | Some (True, s2) \<Rightarrow> Some (True, s2)
                | Some (False, s2) \<Rightarrow> Some (False, paint upper Black s2))))"

definition dfs_fuel :: "norm_chains \<Rightarrow> nat" where
  "dfs_fuel nm = Suc (length nm + length (concat (map (\<lambda>(k, c). chc_Rules c) nm)))"

fun visit_all :: "golib \<Rightarrow> norm_chains \<Rightarrow> string list \<Rightarrow> dfs \<Rightarrow> dfs option" where
  "visit_all L nm [] s = Some s"
| "visit_all L nm (n # ns) s =
     (case dfs_visit L nm (dfs_fuel nm) [] n s of None \<Rightarrow> None | Some (_, s') \<Rightarrow> visit_all L nm ns s')"

definition detectCycles :: "golib \<Rightarrow> RiskControlConfig \<Rightarrow> problem list option" where
  "detectCycles L rc =
     (let nm = normalise_chains L (rk_Chains rc) in
      map_option dfs_problems (visit_all L nm (map fst nm) \<lparr>dfs_color = (\<lambda>_. White), dfs_problems = []\<rparr>))"

definition checkRiskControl :: "golib \<Rightarrow> RiskControlConfig \<Rightarrow> problem list option" where
  "checkRiskControl L rc =
     map_option (\<lambda>cycles.
       problem_if (rk_Chains rc = []) (''risk_control.chains: at least one chain is required'', []) @ concat (map (check_chain L rc) (rk_Chains rc)) @
       cycles @ concat (map check_counter (rk_Counters rc))) (detectCycles L rc)"

section \<open>Validate\<close>

definition check_modes :: "PowConfig \<Rightarrow> problem list" where
  "check_modes p =
     problem_if (\<not> mc_Enabled (pc_IPBound p) \<and> \<not> mc_Enabled (pc_Generic p)) (''pow.modes: at least one mode must be enabled'', []) @
     checkModeDifficulty ''ip_bound'' (pc_IPBound p) @
     checkModeDifficulty ''generic'' (pc_Generic p) @
     problem_if (mc_CountUsage (pc_IPBound p)) (''pow.modes.ip_bound.count_usage is not supported; ip_bound is never metered'', []) @
     problem_if (mc_CountUsage (pc_Generic p)) (''pow.modes.generic.count_usage is not supported; generic is always metered - use max_uses to set the cap'', []) @
     problem_if (mc_Enabled (pc_IPBound p) \<and> mc_MaxTTLSeconds (pc_IPBound p) \<le> 0) (''pow.modes.ip_bound.max_ttl_seconds must be > 0'', []) @
     problem_if (mc_Enabled (pc_Generic p) \<and> mc_MaxTTLSeconds (pc_Generic p) \<le> 0) (''pow.modes.generic.max_ttl_seconds must be > 0'', []) @
     problem_if (mc_Enabled (pc_Generic p) \<and> mc_MaxUses (pc_Generic p) \<le> 0) (''pow.modes.generic.max_uses must be > 0 when generic mode is enabled'', [])"

definition check_protection :: "golib \<Rightarrow> ProtectionConfig \<Rightarrow> problem list" where
  "check_protection L p =
     map (\<lambda>re. (''protection.protected_paths: %q does not compile'', [re])) (filter (\<lambda>re. regexp_Compile L re = None) (prot_ProtectedPaths p)) @
     map (\<lambda>re. (''protection.excluded_paths: %q does not compile'', [re])) (filter (\<lambda>re. regexp_Compile L re = None) (prot_ExcludedPaths p))"

definition check_storage :: "StorageConfig \<Rightarrow> problem list" where
  "check_storage st =
     problem_if (st_Driver st \<notin> {''memory'', ''postgres'', ''redis''}) (''storage.driver must be one of: memory, postgres, redis (got %q)'', [st_Driver st]) @
     problem_if (st_CounterDriver st \<notin> {''memory'', ''redis''}) (''storage.counter_driver must be one of: memory, redis (got %q)'', [st_CounterDriver st]) @
     problem_if (st_Driver st = ''postgres'' \<and> st_PgDSN st = []) (''storage.postgres.dsn is required when storage.driver=postgres'', []) @
     problem_if (st_Driver st = ''redis'' \<and> st_RedisAddr st = []) (''storage.redis.addr is required when storage.driver=redis'', [])"

definition check_pow :: "golib \<Rightarrow> PowConfig \<Rightarrow> problem list" where
  "check_pow L p =
     problem_if (pc_Algorithm p \<noteq> [] \<and> \<not> EqualFold L (pc_Algorithm p) DefaultAlgorithm) (''pow.algorithm %q is not implemented (only %q is)'', [pc_Algorithm p, DefaultAlgorithm]) @
     problem_if (pc_TokenParam p = []) (''pow.token_param must not be empty'', []) @
     problem_if (pc_SignParam p = []) (''pow.sign_param must not be empty'', [])"

definition check_pending :: "PendingConfig \<Rightarrow> problem list" where
  "check_pending p =
     (if pnd_MaxPerIP p \<le> 0 then [(''risk_control.pending.max_per_ip must be > 0'', [])]
      else problem_if (pnd_MaxPerIP p > 1000000) (''risk_control.pending.max_per_ip must be <= 1000000'', [])) @
     problem_if (pnd_BlockTTL p \<le> 0) (''risk_control.pending.block_ttl must be > 0'', [])"

definition Validate :: "golib \<Rightarrow> Config \<Rightarrow> problem list option" where
  "Validate L c =
     map_option (\<lambda>risk.
       check_modes (cfg_Pow c) @ check_protection L (cfg_Protection c) @ check_storage (cfg_Storage c) @
       check_pow L (cfg_Pow c) @ check_pending (rk_Pending (cfg_RiskControl c)) @ risk @
       problem_if (srv_ReadTimeout (cfg_Server c) \<le> 0) (''server.read_timeout must be > 0'', []) @
       problem_if (srv_ShutdownTimeout (cfg_Server c) < 0) (''server.shutdown_timeout must be >= 0'', []))
     (if rk_Enabled (cfg_RiskControl c) then checkRiskControl L (cfg_RiskControl c) else Some [])"

section \<open>The search for cycles\<close>

definition jump_edge :: "golib \<Rightarrow> norm_chains \<Rightarrow> string \<Rightarrow> string \<Rightarrow> bool" where
  "jump_edge L nm u v \<longleftrightarrow>
     (\<exists>c r. map_of nm u = Some c \<and> r \<in> set (chc_Rules c) \<and> is_jump r \<and> v = ToUpper L (rc_Chain r))"

abbreviation colored :: "color \<Rightarrow> dfs \<Rightarrow> string set" where
  "colored c s \<equiv> {u. dfs_color s u = c}"

lemma paint_simps [simp]:
  "dfs_color (paint u c s) = (dfs_color s)(u := c)" "dfs_problems (paint u c s) = dfs_problems s"
  by (simp_all add: paint_def)

subsection \<open>The search ends\<close>

text \<open>A search step that answers as long as fewer than \<open>n\<close> names of \<open>S\<close> are white, and whitens none.\<close>

definition search_ok :: "golib \<Rightarrow> (string \<Rightarrow> dfs \<Rightarrow> (bool \<times> dfs) option) \<Rightarrow> string set \<Rightarrow> nat \<Rightarrow> bool" where
  "search_ok L jump S n \<longleftrightarrow>
     (\<forall>name s. ToUpper L name \<in> S \<longrightarrow> card (S \<inter> colored White s) < n \<longrightarrow>
        (\<exists>b s'. jump name s = Some (b, s') \<and> colored White s' \<subseteq> colored White s))"

lemma search_okD:
  "search_ok L jump S n \<Longrightarrow> ToUpper L name \<in> S \<Longrightarrow> card (S \<inter> colored White s) < n \<Longrightarrow>
     \<exists>b s'. jump name s = Some (b, s') \<and> colored White s' \<subseteq> colored White s"
  by (simp add: search_ok_def)

lemma whites_card_mono:
  "finite S \<Longrightarrow> colored White s' \<subseteq> colored White s \<Longrightarrow> card (S \<inter> colored White s') \<le> card (S \<inter> colored White s)"
  by (rule card_mono) auto

lemma visit_rules_total:
  assumes "search_ok L jump S n" and "finite S" and "\<forall>r \<in> set rs. ToUpper L (rc_Chain r) \<in> S"
    and "card (S \<inter> colored White s) < n"
  shows "\<exists>b s'. visit_rules jump rs s = Some (b, s') \<and> colored White s' \<subseteq> colored White s"
  using assms(3,4)
proof (induction rs arbitrary: s)
  case (Cons r rs)
  obtain b s1 where j: "jump (rc_Chain r) s = Some (b, s1)" and w: "colored White s1 \<subseteq> colored White s"
    using search_okD [OF assms(1), of "rc_Chain r" s] Cons.prems by auto
  have "card (S \<inter> colored White s1) < n" using whites_card_mono [OF assms(2) w] Cons.prems(2) by simp
  with Cons.IH [of s1] Cons.prems(1) obtain b1 s2 where
    1: "visit_rules jump rs s1 = Some (b1, s2)" and w1: "colored White s2 \<subseteq> colored White s1" by auto
  from Cons.IH [of s] Cons.prems obtain b2 s3 where
    2: "visit_rules jump rs s = Some (b2, s3)" "colored White s3 \<subseteq> colored White s" by auto
  from w1 w have "colored White s2 \<subseteq> colored White s" by (rule subset_trans)
  with w j 1 2 show ?case by (cases "is_jump r"; cases b) auto
qed auto

lemma dfs_visit_total:
  assumes "finite S" and "\<forall>u v. jump_edge L nm u v \<longrightarrow> v \<in> S"
    and "\<forall>c \<in> snd ` set nm. \<forall>r \<in> set (chc_Rules c). ToUpper L (rc_Chain r) \<in> S"
  shows "search_ok L (dfs_visit L nm n path) S n"
proof (induction n arbitrary: path)
  case 0
  then show ?case by (simp add: search_ok_def)
next
  case (Suc n)
  show ?case unfolding search_ok_def
  proof (intro allI impI)
    fix name s
    let ?u = "ToUpper L name"
    assume S: "?u \<in> S" and few: "card (S \<inter> colored White s) < Suc n"
    show "\<exists>b s'. dfs_visit L nm (Suc n) path name s = Some (b, s') \<and> colored White s' \<subseteq> colored White s"
    proof (cases "dfs_color s ?u")
      case White
      have w: "colored White (paint ?u c s) = colored White s - {?u}" if "c \<noteq> White" for c
        using that by auto
      have "S \<inter> colored White (paint ?u Gray s) \<subset> S \<inter> colored White s"
        using w [of Gray] S White by auto
      then have "card (S \<inter> colored White (paint ?u Gray s)) < card (S \<inter> colored White s)"
        using assms(1) by (intro psubset_card_mono) auto
      with few have few': "card (S \<inter> colored White (paint ?u Gray s)) < n" by simp
      show ?thesis
      proof (cases "map_of nm ?u")
        case None
        with White show ?thesis by (auto simp: Let_def)
      next
        case (Some c)
        then have "c \<in> snd ` set nm" by (metis image_eqI map_of_SomeD snd_conv)
        with assms(3) have "\<forall>r \<in> set (chc_Rules c). ToUpper L (rc_Chain r) \<in> S" by blast
        from visit_rules_total [OF Suc assms(1) this few', of "path @ [name]"]
        obtain b s' where v: "visit_rules (dfs_visit L nm n (path @ [name])) (chc_Rules c) (paint ?u Gray s) = Some (b, s')"
          and w': "colored White s' \<subseteq> colored White (paint ?u Gray s)" by blast
        from w' w [of Gray] have "colored White s' \<subseteq> colored White s" by auto
        with Some White v show ?thesis by (cases b) (auto simp: Let_def split: if_splits)
      qed
    qed auto
  qed
qed

definition all_names :: "golib \<Rightarrow> norm_chains \<Rightarrow> string set" where
  "all_names L nm = (\<lambda>k. ToUpper L (fst k)) ` set nm \<union>
     (\<lambda>r. ToUpper L (rc_Chain r)) ` set (concat (map (\<lambda>(k, c). chc_Rules c) nm))"

lemma card_all_names: "card (all_names L nm) < dfs_fuel nm"
proof -
  have "card (all_names L nm) \<le> card ((\<lambda>k. ToUpper L (fst k)) ` set nm) +
      card ((\<lambda>r. ToUpper L (rc_Chain r)) ` set (concat (map (\<lambda>(k, c). chc_Rules c) nm)))"
    unfolding all_names_def by (rule card_Un_le)
  also have "\<dots> \<le> card (set nm) + card (set (concat (map (\<lambda>(k, c). chc_Rules c) nm)))"
    by (intro add_mono card_image_le) auto
  also have "\<dots> \<le> length nm + length (concat (map (\<lambda>(k, c). chc_Rules c) nm))"
    by (intro add_mono card_length)
  finally show ?thesis by (simp add: dfs_fuel_def)
qed

lemma dfs_visit_Some:
  assumes "ToUpper L name \<in> all_names L nm"
  shows "\<exists>b s'. dfs_visit L nm (dfs_fuel nm) path name s = Some (b, s')"
proof -
  have fin: "finite (all_names L nm)"
    unfolding all_names_def by (intro finite_UnI finite_imageI finite_set)
  have r: "\<forall>c \<in> snd ` set nm. \<forall>r \<in> set (chc_Rules c). ToUpper L (rc_Chain r) \<in> all_names L nm"
    by (fastforce simp: all_names_def)
  then have "\<forall>u v. jump_edge L nm u v \<longrightarrow> v \<in> all_names L nm"
    unfolding jump_edge_def by (metis image_eqI map_of_SomeD snd_conv)
  note ok = dfs_visit_total [OF fin this r, of "dfs_fuel nm" path]
  have "card (all_names L nm \<inter> colored White s) \<le> card (all_names L nm)" using fin by (intro card_mono) auto
  with card_all_names [of L nm] have "card (all_names L nm \<inter> colored White s) < dfs_fuel nm" by simp
  from search_okD [OF ok assms this] show ?thesis by blast
qed

subsection \<open>No report means no cycle\<close>

text \<open>The black names, latest first: every JUMP of one goes to an earlier one.\<close>

fun topo :: "golib \<Rightarrow> norm_chains \<Rightarrow> string list \<Rightarrow> bool" where
  "topo L nm [] = True"
| "topo L nm (u # us) = (u \<notin> set us \<and> (\<forall>v. jump_edge L nm u v \<longrightarrow> v \<in> set us) \<and> topo L nm us)"

definition blackened :: "golib \<Rightarrow> norm_chains \<Rightarrow> dfs \<Rightarrow> dfs \<Rightarrow> bool" where
  "blackened L nm s s' \<longleftrightarrow> (\<exists>bl. topo L nm bl \<and> set bl = colored Black s') \<and>
     colored Black s \<subseteq> colored Black s' \<and> colored Gray s' = colored Gray s \<and> dfs_problems s' = dfs_problems s"

definition has_topo :: "golib \<Rightarrow> norm_chains \<Rightarrow> dfs \<Rightarrow> bool" where
  "has_topo L nm s \<longleftrightarrow> (\<exists>bl. topo L nm bl \<and> set bl = colored Black s)"

lemma blackened_refl: "has_topo L nm s \<Longrightarrow> blackened L nm s s"
  by (simp add: blackened_def has_topo_def)

lemma blackened_trans: "blackened L nm a b \<Longrightarrow> blackened L nm b c \<Longrightarrow> blackened L nm a c"
  unfolding blackened_def by (metis subset_trans)

lemma blackened_topo: "blackened L nm s s' \<Longrightarrow> has_topo L nm s'"
  by (simp add: blackened_def has_topo_def)

lemma visit_rules_blackened:
  assumes jump: "\<And>name s s'. has_topo L nm s \<Longrightarrow> jump name s = Some (False, s') \<Longrightarrow>
      blackened L nm s s' \<and> dfs_color s' (ToUpper L name) = Black"
    and "has_topo L nm s" and "visit_rules jump rs s = Some (False, s')"
  shows "blackened L nm s s' \<and> (\<forall>r \<in> set rs. is_jump r \<longrightarrow> dfs_color s' (ToUpper L (rc_Chain r)) = Black)"
  using assms(2,3)
proof (induction rs arbitrary: s)
  case Nil
  then show ?case by (simp add: blackened_refl)
next
  case (Cons r rs)
  show ?case
  proof (cases "is_jump r")
    case False
    with Cons show ?thesis by simp
  next
    case True
    with Cons.prems(2) obtain s1 where s1: "jump (rc_Chain r) s = Some (False, s1)" and rest: "visit_rules jump rs s1 = Some (False, s')"
      by (auto split: option.splits bool.splits prod.splits)
    from jump [OF Cons.prems(1) s1] have b: "blackened L nm s s1" and c: "dfs_color s1 (ToUpper L (rc_Chain r)) = Black"
      by blast+
    from Cons.IH [OF blackened_topo [OF b] rest] have b': "blackened L nm s1 s'"
      and all: "\<forall>r \<in> set rs. is_jump r \<longrightarrow> dfs_color s' (ToUpper L (rc_Chain r)) = Black" by blast+
    from b' c have "dfs_color s' (ToUpper L (rc_Chain r)) = Black" by (auto simp: blackened_def)
    with all blackened_trans [OF b b'] show ?thesis by auto
  qed
qed

lemma blackened_paint:
  assumes "blackened L nm (paint u Gray s) s'" and "dfs_color s u = White"
    and "\<forall>v. jump_edge L nm u v \<longrightarrow> dfs_color s' v = Black"
  shows "blackened L nm s (paint u Black s')"
proof -
  from assms(1) obtain bl where bl: "topo L nm bl" "set bl = colored Black s'"
    and mono: "colored Black (paint u Gray s) \<subseteq> colored Black s'"
    and gray: "colored Gray s' = colored Gray (paint u Gray s)" and pr: "dfs_problems s' = dfs_problems s"
    by (auto simp: blackened_def)
  have u: "dfs_color s' u = Gray" using gray by (auto simp: set_eq_iff)
  have "topo L nm (u # bl)" using bl assms(3) u by auto
  moreover have "set (u # bl) = colored Black (paint u Black s')" using bl by auto
  moreover have "colored Black s \<subseteq> colored Black (paint u Black s')"
    using mono assms(2) by (auto split: if_splits)
  moreover have "colored Gray (paint u Black s') = colored Gray s"
    using gray assms(2) by (auto simp: set_eq_iff split: if_splits)
  ultimately show ?thesis using pr unfolding blackened_def by (metis paint_simps(2))
qed

lemma dfs_visit_blackened:
  assumes "has_topo L nm s" and "dfs_visit L nm n path name s = Some (False, s')"
  shows "blackened L nm s s' \<and> dfs_color s' (ToUpper L name) = Black"
  using assms
proof (induction n arbitrary: path name s s')
  case (Suc n)
  let ?u = "ToUpper L name"
  show ?case
  proof (cases "dfs_color s ?u")
    case White
    have ht: "has_topo L nm (paint ?u Gray s)"
      using Suc.prems(1) White unfolding has_topo_def by (auto simp: set_eq_iff)
    show ?thesis
    proof (cases "map_of nm ?u")
      case None
      with White Suc.prems(2) have s': "s' = paint ?u Black (paint ?u Gray s)" by (simp add: Let_def)
      have "blackened L nm s (paint ?u Black (paint ?u Gray s))"
        by (rule blackened_paint [OF blackened_refl [OF ht] White]) (simp add: jump_edge_def None)
      with s' show ?thesis by simp
    next
      case (Some c)
      with White Suc.prems(2) obtain s2
        where v: "visit_rules (dfs_visit L nm n (path @ [name])) (chc_Rules c) (paint ?u Gray s) = Some (False, s2)"
          and s': "s' = paint ?u Black s2"
        by (auto simp: Let_def split: option.splits bool.splits prod.splits)
      from visit_rules_blackened [OF Suc.IH [of _ "path @ [name]"] ht v] have b: "blackened L nm (paint ?u Gray s) s2"
        and all: "\<forall>r \<in> set (chc_Rules c). is_jump r \<longrightarrow> dfs_color s2 (ToUpper L (rc_Chain r)) = Black" by blast+
      have "blackened L nm s s'"
        unfolding s' using b White by (rule blackened_paint) (use all Some in \<open>auto simp: jump_edge_def\<close>)
      with s' show ?thesis by simp
    qed
  next
    case Black
    with Suc.prems show ?thesis by (simp add: blackened_refl)
  next
    case Gray
    with Suc.prems(2) show ?thesis by simp
  qed
qed simp

lemma visit_rules_reports:
  assumes jump: "\<And>name s s'. jump name s = Some (True, s') \<Longrightarrow> dfs_problems s' \<noteq> []"
  shows "visit_rules jump rs s = Some (True, s') \<Longrightarrow> dfs_problems s' \<noteq> []"
proof (induction rs arbitrary: s)
  case (Cons r rs)
  then show ?case using jump [of "rc_Chain r" s s']
    by (auto split: option.splits bool.splits prod.splits if_splits)
qed simp

lemma dfs_visit_reports: "dfs_visit L nm n path name s = Some (True, s') \<Longrightarrow> dfs_problems s' \<noteq> []"
proof (induction n arbitrary: path name s s')
  case (Suc n)
  show ?case
  proof (cases "dfs_color s (ToUpper L name)")
    case White
    show ?thesis
    proof (cases "map_of nm (ToUpper L name)")
      case None
      with White Suc.prems show ?thesis by (simp add: Let_def)
    next
      case (Some c)
      with White Suc.prems have
        "visit_rules (dfs_visit L nm n (path @ [name])) (chc_Rules c) (paint (ToUpper L name) Gray s) = Some (True, s')"
        by (simp add: Let_def split: option.splits bool.splits prod.splits)
      with visit_rules_reports [where jump = "dfs_visit L nm n (path @ [name])"] Suc.IH show ?thesis by metis
    qed
  qed (use Suc.prems in auto)
qed simp

lemma visit_rules_keeps:
  assumes jump: "\<And>name s b s'. jump name s = Some (b, s') \<Longrightarrow> dfs_problems s \<noteq> [] \<Longrightarrow> dfs_problems s' \<noteq> []"
  shows "visit_rules jump rs s = Some (b, s') \<Longrightarrow> dfs_problems s \<noteq> [] \<Longrightarrow> dfs_problems s' \<noteq> []"
proof (induction rs arbitrary: s)
  case (Cons r rs)
  show ?case
  proof (cases "is_jump r")
    case True
    with Cons.prems(1) obtain b1 s1 where j: "jump (rc_Chain r) s = Some (b1, s1)"
      by (auto split: option.splits)
    with jump [OF this Cons.prems(2)] True Cons show ?thesis by (cases b1) auto
  qed (use Cons in simp)
qed simp

lemma dfs_visit_keeps:
  "dfs_visit L nm n path name s = Some (b, s') \<Longrightarrow> dfs_problems s \<noteq> [] \<Longrightarrow> dfs_problems s' \<noteq> []"
proof (induction n arbitrary: path name s b s')
  case (Suc n)
  show ?case
  proof (cases "dfs_color s (ToUpper L name)")
    case White
    show ?thesis
    proof (cases "map_of nm (ToUpper L name)")
      case None
      with White Suc.prems show ?thesis by (auto simp: Let_def)
    next
      case (Some c)
      with White Suc.prems(1) obtain b1 s1 where
        v: "visit_rules (dfs_visit L nm n (path @ [name])) (chc_Rules c) (paint (ToUpper L name) Gray s) = Some (b1, s1)"
        and "dfs_problems s' = dfs_problems s1"
        by (auto simp: Let_def split: option.splits bool.splits prod.splits)
      with visit_rules_keeps [OF Suc.IH v] Suc.prems(2) show ?thesis by simp
    qed
  qed (use Suc.prems in auto)
qed simp

lemma visit_all_keeps: "visit_all L nm ns s = Some s' \<Longrightarrow> dfs_problems s \<noteq> [] \<Longrightarrow> dfs_problems s' \<noteq> []"
  by (induction ns arbitrary: s) (auto split: option.splits prod.splits dest: dfs_visit_keeps)

lemma visit_all_blackened:
  assumes "has_topo L nm s" and "visit_all L nm ns s = Some s'" and "dfs_problems s' = []"
  shows "blackened L nm s s' \<and> (\<forall>n \<in> set ns. dfs_color s' (ToUpper L n) = Black)"
  using assms
proof (induction ns arbitrary: s)
  case Nil
  then show ?case by (simp add: blackened_refl)
next
  case (Cons n ns)
  from Cons.prems(2) obtain b s1 where v: "dfs_visit L nm (dfs_fuel nm) [] n s = Some (b, s1)"
    and rest: "visit_all L nm ns s1 = Some s'" by (auto split: option.splits)
  have "dfs_problems s1 = []" using visit_all_keeps [OF rest] Cons.prems(3) by blast
  with dfs_visit_reports v have "b = False" by (cases b) auto
  with dfs_visit_blackened [OF Cons.prems(1)] v have b: "blackened L nm s s1"
    and c: "dfs_color s1 (ToUpper L n) = Black" by blast+
  from Cons.IH [OF blackened_topo [OF b] rest Cons.prems(3)] have b': "blackened L nm s1 s'"
    and all: "\<forall>n \<in> set ns. dfs_color s' (ToUpper L n) = Black" by blast+
  from b' c have "dfs_color s' (ToUpper L n) = Black" by (auto simp: blackened_def)
  with all blackened_trans [OF b b'] show ?case by auto
qed

definition jump_rank :: "golib \<Rightarrow> norm_chains \<Rightarrow> (string \<Rightarrow> nat) \<Rightarrow> bool" where
  "jump_rank L nm rank \<longleftrightarrow> (\<forall>u v. jump_edge L nm u v \<longrightarrow> rank v < rank u)"

lemma topo_rank:
  assumes "topo L nm bl" and "u \<in> set bl" and "jump_edge L nm u v"
  shows "v \<in> set bl \<and> length (dropWhile (\<lambda>x. x \<noteq> v) bl) < length (dropWhile (\<lambda>x. x \<noteq> u) bl)"
  using assms
proof (induction bl)
  case (Cons x bl)
  show ?case
  proof (cases "u = x")
    case True
    with Cons.prems have v: "v \<in> set bl" "v \<noteq> x" by auto
    have "length (dropWhile (\<lambda>y. y \<noteq> v) bl) \<le> length bl" by (rule length_dropWhile_le)
    with True v show ?thesis by simp
  next
    case False
    with Cons have "v \<in> set bl" "length (dropWhile (\<lambda>x. x \<noteq> v) bl) < length (dropWhile (\<lambda>x. x \<noteq> u) bl)" by auto
    moreover from this(1) Cons.prems(1) have "v \<noteq> x" by auto
    ultimately show ?thesis using False by simp
  qed
qed simp

subsection \<open>A cycle is needed for a report\<close>

definition quiet :: "dfs \<Rightarrow> dfs \<Rightarrow> bool" where
  "quiet s s' \<longleftrightarrow> colored Gray s' = colored Gray s \<and> dfs_problems s' = dfs_problems s"

definition quiet_jump :: "(string \<Rightarrow> dfs \<Rightarrow> (bool \<times> dfs) option) \<Rightarrow> string set \<Rightarrow> RuleConfig \<Rightarrow> bool" where
  "quiet_jump jump G r \<longleftrightarrow> (is_jump r \<longrightarrow>
     (\<forall>s b s'. colored Gray s = G \<longrightarrow> jump (rc_Chain r) s = Some (b, s') \<longrightarrow> \<not> b \<and> quiet s s'))"

lemma visit_rules_quiet:
  assumes "\<forall>r \<in> set rs. quiet_jump jump G r" and "visit_rules jump rs s = Some (b, s')" and "colored Gray s = G"
  shows "\<not> b \<and> quiet s s'"
  using assms
proof (induction rs arbitrary: s)
  case Nil
  then show ?case by (simp add: quiet_def)
next
  case (Cons r rs)
  show ?case
  proof (cases "is_jump r")
    case False
    with Cons.prems(2) have "visit_rules jump rs s = Some (b, s')" by simp
    from Cons.IH [OF _ this Cons.prems(3)] Cons.prems(1) show ?thesis by simp
  next
    case True
    with Cons.prems(2) obtain b1 s1 where j: "jump (rc_Chain r) s = Some (b1, s1)" by (auto split: option.splits)
    with Cons.prems(1,3) True have b1: "\<not> b1" and q: "quiet s s1" by (auto simp: quiet_jump_def)
    with j True Cons.prems(2) have v: "visit_rules jump rs s1 = Some (b, s')" by simp
    have "colored Gray s1 = G" using q Cons.prems(3) by (simp add: quiet_def)
    with Cons.IH [OF _ v] Cons.prems(1) have "\<not> b \<and> quiet s1 s'" by simp
    with q show ?thesis by (simp add: quiet_def)
  qed
qed

lemma dfs_visit_quiet:
  assumes "jump_rank L nm rank" and "\<forall>g \<in> colored Gray s. rank (ToUpper L name) < rank g"
    and "dfs_visit L nm n path name s = Some (b, s')"
  shows "\<not> b \<and> quiet s s'"
  using assms(2,3)
proof (induction n arbitrary: path name s b s')
  case (Suc n)
  let ?u = "ToUpper L name"
  show ?case
  proof (cases "dfs_color s ?u")
    case White
    have g: "colored Gray (paint ?u Gray s) = insert ?u (colored Gray s)" by auto
    have g': "colored Gray (paint ?u Black s1) = colored Gray s"
      if "colored Gray s1 = insert ?u (colored Gray s)" for s1
      using that White by (auto simp: set_eq_iff)
    show ?thesis
    proof (cases "map_of nm ?u")
      case None
      with White Suc.prems(2) g' [OF g] show ?thesis by (auto simp: Let_def quiet_def)
    next
      case (Some c)
      with White Suc.prems(2) obtain b1 s1 where
        v: "visit_rules (dfs_visit L nm n (path @ [name])) (chc_Rules c) (paint ?u Gray s) = Some (b1, s1)"
        and s': "(b1 \<and> b \<and> s' = s1) \<or> (\<not> b1 \<and> \<not> b \<and> s' = paint ?u Black s1)"
        by (auto simp: Let_def split: option.splits bool.splits prod.splits)
      have "\<not> b1 \<and> quiet (paint ?u Gray s) s1"
      proof (rule visit_rules_quiet [OF _ v g], intro ballI, unfold quiet_jump_def, intro impI allI)
        fix r t b2 t'
        assume r: "r \<in> set (chc_Rules c)" "is_jump r" and gt: "colored Gray t = insert ?u (colored Gray s)"
          and dv: "dfs_visit L nm n (path @ [name]) (rc_Chain r) t = Some (b2, t')"
        have "jump_edge L nm ?u (ToUpper L (rc_Chain r))" using r Some by (auto simp: jump_edge_def)
        with assms(1) have lt: "rank (ToUpper L (rc_Chain r)) < rank ?u" by (simp add: jump_rank_def)
        have "\<forall>x \<in> colored Gray t. rank (ToUpper L (rc_Chain r)) < rank x"
          unfolding gt using lt Suc.prems(1) by auto
        from Suc.IH [OF this dv] show "\<not> b2 \<and> quiet t t'" .
      qed
      with s' g' [of s1] g show ?thesis by (auto simp: quiet_def)
    qed
  next
    case Gray
    with Suc.prems(1) show ?thesis by fastforce
  next
    case Black
    with Suc.prems(2) show ?thesis by (simp add: quiet_def)
  qed
qed simp

lemma visit_all_quiet:
  assumes "jump_rank L nm rank" and "colored Gray s = {}" and "visit_all L nm ns s = Some s'"
  shows "dfs_problems s' = dfs_problems s"
  using assms(2,3)
proof (induction ns arbitrary: s)
  case (Cons n ns)
  from Cons.prems(2) obtain b s1 where v: "dfs_visit L nm (dfs_fuel nm) [] n s = Some (b, s1)"
    and rest: "visit_all L nm ns s1 = Some s'" by (auto split: option.splits)
  have "quiet s s1" using dfs_visit_quiet [OF assms(1) _ v] Cons.prems(1) by simp
  with Cons.IH [OF _ rest] Cons.prems(1) show ?case by (simp add: quiet_def)
qed simp

lemma visit_all_Some:
  assumes "set ns \<subseteq> fst ` set nm"
  shows "\<exists>s'. visit_all L nm ns s = Some s'"
  using assms
proof (induction ns arbitrary: s)
  case (Cons n ns)
  then have "ToUpper L n \<in> all_names L nm" by (auto simp: all_names_def)
  from dfs_visit_Some [OF this, of "[]" s] obtain b s1 where "dfs_visit L nm (dfs_fuel nm) [] n s = Some (b, s1)" by blast
  with Cons show ?case by auto
qed simp

section \<open>Chain names without letter case\<close>

lemma upper_byte_idem [simp]: "upper_byte (upper_byte c) = upper_byte c"
proof (cases "97 \<le> byte_of c \<and> byte_of c \<le> (122 :: nat)")
  case True
  then have "byte_of c - 32 < (256 :: nat)" by linarith
  with True have "byte_of (upper_byte c) = byte_of c - (32 :: nat)" by (simp add: upper_byte_def)
  with True have "\<not> 97 \<le> (byte_of (upper_byte c) :: nat)" by linarith
  then show ?thesis by (simp add: upper_byte_def [of "upper_byte c"])
next
  case False
  then have "upper_byte c = c" by (simp only: upper_byte_def if_False)
  then show ?thesis by simp
qed

lemma upper_lower_byte: "upper_byte (lower_byte c) = upper_byte c"
proof (cases "65 \<le> byte_of c \<and> byte_of c \<le> (90 :: nat)")
  case True
  then have "byte_of (lower_byte c) = byte_of c + (32 :: nat)" by (simp add: lower_byte_def)
  then have "upper_byte (lower_byte c) = char_of (byte_of c :: nat)" using True by (simp add: upper_byte_def)
  moreover have "upper_byte c = c" using True by (simp add: upper_byte_def)
  ultimately show ?thesis by simp
next
  case False
  then have "lower_byte c = c" by (simp only: lower_byte_def if_False)
  then show ?thesis by simp
qed

lemma is_ascii_upper: "is_ascii s \<Longrightarrow> is_ascii (map upper_byte s)"
  by (auto simp: is_ascii_def list_all_iff upper_byte_def)

lemma ToUpper_idem: "is_ascii s \<Longrightarrow> ToUpper L (ToUpper L s) = ToUpper L s"
  by (simp add: ToUpper_def is_ascii_upper comp_def)

lemma EqualFold_ToUpper:
  assumes "is_ascii s" and "is_ascii t" and "EqualFold L s t"
  shows "ToUpper L s = ToUpper L t"
proof -
  from assms have "map lower_byte s = map lower_byte t" by (simp add: EqualFold_def)
  then have "map upper_byte (map lower_byte s) = map upper_byte (map lower_byte t)" by simp
  with assms show ?thesis by (simp add: ToUpper_def upper_lower_byte comp_def)
qed

definition ascii_names :: "(string, ChainConfig) gomap \<Rightarrow> bool" where
  "ascii_names cm \<longleftrightarrow> (\<forall>(k, cc) \<in> set cm. is_ascii k \<and> (\<forall>r \<in> set (chc_Rules cc). is_ascii (rc_Chain r)))"

definition case_distinct :: "golib \<Rightarrow> (string, ChainConfig) gomap \<Rightarrow> bool" where
  "case_distinct L cm \<longleftrightarrow> distinct (map (\<lambda>(k, cc). ToUpper L k) cm)"

lemma normalise_keys:
  "fst ` set (foldl (\<lambda>acc (k, v). AList.update (ToUpper L k) v acc) acc cm) =
     fst ` set acc \<union> (\<lambda>(k, v). ToUpper L k) ` set cm"
proof (induction cm arbitrary: acc)
  case (Cons x cm)
  have "fst ` set (AList.update k v acc) = insert k (fst ` set acc)" for k v
    by (metis dom_map_of_conv_image_fst dom_fun_upd map_of_update option.distinct(1))
  with Cons show ?case by (cases x) auto
qed simp

lemma normalise_other:
  "u \<notin> (\<lambda>(k, v). ToUpper L k) ` set cm \<Longrightarrow>
     map_of (foldl (\<lambda>acc (k, v). AList.update (ToUpper L k) v acc) acc cm) u = map_of acc u"
  by (induction cm arbitrary: acc) auto

lemma normalise_lookup:
  assumes "case_distinct L cm" and "(k, cc) \<in> set cm"
  shows "map_of (normalise_chains L cm) (ToUpper L k) = Some cc"
proof -
  have "map_of (foldl (\<lambda>acc (k, v). AList.update (ToUpper L k) v acc) acc cm) (ToUpper L k) = Some cc" for acc
    using assms unfolding case_distinct_def
  proof (induction cm arbitrary: acc)
    case (Cons x cm)
    obtain k' c' where x: "x = (k', c')" by (cases x)
    show ?case
    proof (cases "x = (k, cc)")
      case True
      with Cons.prems(1) have "ToUpper L k \<notin> (\<lambda>(k, v). ToUpper L k) ` set cm" by auto
      with normalise_other [OF this] True show ?thesis by simp
    next
      case False
      with Cons x show ?thesis by auto
    qed
  qed simp
  then show ?thesis by (simp add: normalise_chains_def)
qed

lemma lookupChain_key:
  assumes "lookupChain L e name = Some c"
  shows "\<exists>k. (k, c) \<in> set e \<and> (k = name \<or> EqualFold L k name)"
proof (cases "map_of e name")
  case (Some c')
  with assms show ?thesis by (auto simp: lookupChain_def dest: map_of_SomeD)
next
  case None
  with assms obtain p where "List.find (\<lambda>(k, v). EqualFold L k name) e = Some p" and "snd p = c"
    by (auto simp: lookupChain_def)
  then have "p \<in> set e \<and> EqualFold L (fst p) name"
    by (auto simp: find_Some_iff) (metis case_prod_beta nth_mem)+
  with \<open>snd p = c\<close> show ?thesis by (metis prod.collapse)
qed

lemma lookupChain_None: "lookupChain L e name = None \<longleftrightarrow> (\<forall>k \<in> fst ` set e. k \<noteq> name \<and> \<not> EqualFold L k name)"
proof (cases "map_of e name")
  case None
  then have "name \<notin> fst ` set e" by (simp add: map_of_eq_None_iff)
  with None show ?thesis by (fastforce simp: lookupChain_def find_None_iff)
next
  case (Some c)
  then have "name \<in> fst ` set e" by (force dest: map_of_SomeD)
  with Some show ?thesis by (auto simp: lookupChain_def)
qed

lemma chain_exists_iff:
  "chainExistsCaseInsensitive L cm name \<longleftrightarrow> (\<exists>k \<in> fst ` set cm. k = name \<or> EqualFold L k name)"
proof (cases "map_of cm name")
  case None
  then have "name \<notin> fst ` set cm" by (simp add: map_of_eq_None_iff)
  with None show ?thesis by (fastforce simp: chainExistsCaseInsensitive_def list_ex_iff)
next
  case (Some c)
  then have "(name, c) \<in> set cm" by (rule map_of_SomeD)
  then have "name \<in> fst ` set cm" by force
  with Some show ?thesis by (auto simp: chainExistsCaseInsensitive_def)
qed

section \<open>What a validated configuration guarantees\<close>

lemma isValidTarget_agrees:
  "isValidTarget t False = IsValidRuleTarget t" "isValidTarget t True = IsValidPolicyTarget t"
  by (auto simp: isValidTarget_def IsValidRuleTarget_def IsValidPolicyTarget_def target_defs)

lemma problem_if_Nil [simp]: "problem_if b p = [] \<longleftrightarrow> \<not> b"
  by (simp add: problem_if_def)

lemma check_rules_Nil: "check_rules L rc n i rs = [] \<Longrightarrow> r \<in> set rs \<Longrightarrow> \<exists>j. check_rule L rc n j r = []"
  by (induction rs arbitrary: i) auto

lemma Validate_risk:
  assumes "Validate L c = Some []" and "rk_Enabled (cfg_RiskControl c)"
  shows "detectCycles L (cfg_RiskControl c) = Some []" and "rk_Chains (cfg_RiskControl c) \<noteq> []"
    and "\<And>k cc. (k, cc) \<in> set (rk_Chains (cfg_RiskControl c)) \<Longrightarrow> check_chain L (cfg_RiskControl c) (k, cc) = []"
  using assms by (auto simp: Validate_def checkRiskControl_def)

lemma Validate_rule:
  assumes "Validate L c = Some []" and "rk_Enabled (cfg_RiskControl c)"
    and "(k, cc) \<in> set (rk_Chains (cfg_RiskControl c))" and "r \<in> set (chc_Rules cc)"
  shows "IsValidRuleTarget (rc_Target r)" and "\<not> bad_regex L (mt_PathRegex (rc_Match r))"
    and "\<not> bad_regex L (mt_UserAgentRegex (rc_Match r))"
    and "rc_Target r = ''JUMP'' \<Longrightarrow> rc_Chain r \<noteq> [] \<and> chainExistsCaseInsensitive L (rk_Chains (cfg_RiskControl c)) (rc_Chain r)"
proof -
  have "check_chain L (cfg_RiskControl c) (k, cc) = []" using Validate_risk(3) [OF assms(1,2)] assms(3) .
  then have "check_rules L (cfg_RiskControl c) k 0 (chc_Rules cc) = []" by (simp add: check_chain_def)
  from check_rules_Nil [OF this assms(4)] obtain j where "check_rule L (cfg_RiskControl c) k j r = []" by blast
  then show "IsValidRuleTarget (rc_Target r)" and "\<not> bad_regex L (mt_PathRegex (rc_Match r))"
    and "\<not> bad_regex L (mt_UserAgentRegex (rc_Match r))"
    and "rc_Target r = ''JUMP'' \<Longrightarrow> rc_Chain r \<noteq> [] \<and> chainExistsCaseInsensitive L (rk_Chains (cfg_RiskControl c)) (rc_Chain r)"
    by (auto simp: check_rule_def isValidTarget_agrees check_jump_def split: if_splits)
qed

lemma same_keys:
  assumes "FromConfig L rc = Inr e"
  shows "fst ` set e = fst ` set (rk_Chains rc)"
proof -
  have "list_all2 (\<lambda>(k, cc) (k', c). k = k' \<and> chain_of L cc c) m e' \<Longrightarrow> map fst m = map fst e'" for m e'
    by (induction rule: list_all2_induct) auto
  from this [OF FromConfig_compiled(1) [OF assms]] have "set (map fst (rk_Chains rc)) = set (map fst e)" by simp
  then show ?thesis by simp
qed

lemma lookup_normalised:
  assumes "FromConfig L rc = Inr e" and "ascii_names (rk_Chains rc)" and "case_distinct L (rk_Chains rc)"
    and "is_ascii name" and "lookupChain L e name = Some c"
  shows "\<exists>k cc. (k, cc) \<in> set (rk_Chains rc) \<and> chain_of L cc c \<and>
    map_of (normalise_chains L (rk_Chains rc)) (ToUpper L name) = Some cc"
proof -
  from lookupChain_key [OF assms(5)] obtain k where k: "(k, c) \<in> set e" "k = name \<or> EqualFold L k name" by blast
  from list_all2_right [OF FromConfig_compiled(1) [OF assms(1)] k(1)]
  obtain cc where cc: "(k, cc) \<in> set (rk_Chains rc)" "chain_of L cc c" by auto
  then have "is_ascii k" using assms(2) by (auto simp: ascii_names_def)
  with k(2) assms(4) EqualFold_ToUpper [of k name L] have "ToUpper L k = ToUpper L name" by auto
  with normalise_lookup [OF assms(3) cc(1)] cc show ?thesis by auto
qed

lemma validated_ranked:
  assumes "Validate L c = Some []" and "rk_Enabled (cfg_RiskControl c)"
    and "ascii_names (rk_Chains (cfg_RiskControl c))" and "case_distinct L (rk_Chains (cfg_RiskControl c))"
    and "FromConfig L (cfg_RiskControl c) = Inr e"
    and "jump_rank L (normalise_chains L (rk_Chains (cfg_RiskControl c))) rank"
  shows "ranked L e {n. is_ascii n} rank"
  unfolding ranked_def
proof (intro ballI allI impI)
  fix name ch r
  assume "name \<in> {n. is_ascii n}" and l: "lookupChain L e name = Some ch" and r: "r \<in> set (ch_Rules ch)"
    and t: "rl_Target r = TargetJUMP"
  with lookup_normalised [OF assms(5,3,4)] obtain k cc where cc: "(k, cc) \<in> set (rk_Chains (cfg_RiskControl c))"
    "chain_of L cc ch" and nm: "map_of (normalise_chains L (rk_Chains (cfg_RiskControl c))) (ToUpper L name) = Some cc"
    by blast
  from list_all2_right [OF _ r] cc(2) obtain rc where rc: "rc \<in> set (chc_Rules cc)" "rule_of L rc r"
    by (auto simp: chain_of_def)
  have j: "rc_Target rc = ''JUMP''" and ch: "rl_Chain r = rc_Chain rc"
    using rc(2) t by (simp_all add: rule_of_def TargetJUMP_def)
  note ex = Validate_rule(4) [OF assms(1,2) cc(1) rc(1) j]
  have "is_ascii (rc_Chain rc)" using assms(3) cc(1) rc(1) by (auto simp: ascii_names_def)
  moreover have "lookupChain L e (rl_Chain r) \<noteq> None"
    using ex ch same_keys [OF assms(5)] by (simp add: lookupChain_None chain_exists_iff)
  moreover have "jump_edge L (normalise_chains L (rk_Chains (cfg_RiskControl c))) (ToUpper L name) (ToUpper L (rc_Chain rc))"
    using nm rc(1) j ex by (auto simp: jump_edge_def is_jump_def)
  ultimately show "rl_Chain r \<in> {n. is_ascii n} \<and> lookupChain L e (rl_Chain r) \<noteq> None \<and>
      rank (ToUpper L (rl_Chain r)) < rank (ToUpper L name)"
    using assms(6) ch by (simp add: jump_rank_def)
qed

lemma detectCycles_Some:
  "\<exists>s. visit_all L nm (map fst nm) s0 = Some s"
  by (rule visit_all_Some) simp

lemma detectCycles_rank:
  assumes "\<forall>k \<in> fst ` set (rk_Chains rc). is_ascii k" and "detectCycles L rc = Some []"
  shows "\<exists>rank. jump_rank L (normalise_chains L (rk_Chains rc)) rank"
proof -
  let ?nm = "normalise_chains L (rk_Chains rc)" and ?s0 = "\<lparr>dfs_color = (\<lambda>_. White), dfs_problems = []\<rparr>"
  from assms(2) obtain s where v: "visit_all L ?nm (map fst ?nm) ?s0 = Some s" and p: "dfs_problems s = []"
    by (auto simp: detectCycles_def Let_def)
  have "has_topo L ?nm ?s0" unfolding has_topo_def by (rule exI [of _ "[]"]) simp
  from visit_all_blackened [OF this v p] obtain bl where bl: "topo L ?nm bl" "set bl = colored Black s"
    and all: "\<forall>n \<in> set (map fst ?nm). dfs_color s (ToUpper L n) = Black"
    unfolding blackened_def by blast
  have "length (dropWhile (\<lambda>x. x \<noteq> v) bl) < length (dropWhile (\<lambda>x. x \<noteq> u) bl)" if "jump_edge L ?nm u v" for u v
  proof -
    from that obtain c where "map_of ?nm u = Some c" by (auto simp: jump_edge_def)
    then have u: "u \<in> fst ` set ?nm" by (force dest: map_of_SomeD)
    have "fst ` set ?nm = (\<lambda>(k, v). ToUpper L k) ` set (rk_Chains rc)"
      unfolding normalise_chains_def normalise_keys by simp
    with u obtain x where "x \<in> set (rk_Chains rc)" "u = ToUpper L (fst x)" by (auto simp: case_prod_beta)
    with assms(1) ToUpper_idem [of "fst x" L] have "ToUpper L u = u" by simp
    with all u bl(2) have "u \<in> set bl" by force
    with topo_rank [OF bl(1) this that] show ?thesis by blast
  qed
  then show ?thesis unfolding jump_rank_def by (intro exI [of _ "\<lambda>u. length (dropWhile (\<lambda>x. x \<noteq> u) bl)"]) blast
qed

lemma detectCycles_no_report:
  assumes "jump_rank L (normalise_chains L (rk_Chains rc)) rank"
  shows "detectCycles L rc = Some []"
proof -
  let ?nm = "normalise_chains L (rk_Chains rc)" and ?s0 = "\<lparr>dfs_color = (\<lambda>_. White), dfs_problems = []\<rparr>"
  obtain s where v: "visit_all L ?nm (map fst ?nm) ?s0 = Some s" using detectCycles_Some by blast
  have "dfs_problems s = dfs_problems ?s0" using visit_all_quiet [OF assms _ v] by simp
  with v show ?thesis by (simp add: detectCycles_def Let_def)
qed

lemma distinct_count_list: "distinct xs \<Longrightarrow> count_list xs x \<le> 1"
  by (induction xs) auto

section \<open>Properties\<close>

text \<open>
  C18: The cycle check is exact. The depth-first search over the JUMP rules always ends, and it
  reports nothing exactly when the jumps can be ranked so that every one goes down, that is, when
  no sequence of jumps returns to a chain it has left. Chain names are ASCII.
\<close>

theorem detectCycles_exact:
  assumes "\<forall>k \<in> fst ` set (rk_Chains rc). is_ascii k"
  shows "detectCycles L rc \<noteq> None \<and>
    (detectCycles L rc = Some [] \<longleftrightarrow> (\<exists>rank. jump_rank L (normalise_chains L (rk_Chains rc)) rank))"
proof -
  have "detectCycles L rc \<noteq> None"
    using detectCycles_Some [of L "normalise_chains L (rk_Chains rc)"] by (auto simp: detectCycles_def Let_def)
  with detectCycles_rank [OF assms] detectCycles_no_report show ?thesis by blast
qed

theorem detectCycles_exact_witness:
  "detectCycles demo_lib demo_risk \<noteq> None \<and>
   (\<exists>rank. jump_rank demo_lib (normalise_chains demo_lib (rk_Chains demo_risk)) rank)"
proof -
  have "\<forall>k \<in> fst ` set (rk_Chains demo_risk). is_ascii k" and "detectCycles demo_lib demo_risk = Some []"
    by code_simp+
  with detectCycles_exact [of demo_risk demo_lib] show ?thesis by blast
qed

text \<open>
  C19: With a validated configuration the visit guard never fires. When validation reports no
  problem and the chain names are ASCII and differ in more than letter case, every evaluation
  that starts at an existing chain follows the first-match verdict, enters each chain at most
  once and returns its decision: neither \<^verbatim>\<open>chain_depth_exceeded\<close> nor a missing chain can occur.
\<close>

theorem validated_engine_decides:
  assumes "Validate L c = Some []" and "rk_Enabled (cfg_RiskControl c)"
    and "ascii_names (rk_Chains (cfg_RiskControl c))" and "case_distinct L (rk_Chains (cfg_RiskControl c))"
    and "FromConfig L (cfg_RiskControl c) = Inr e"
    and "is_ascii entry" and "entry \<noteq> []" and "lookupChain L e entry \<noteq> None"
  shows "\<exists>ns tr ms d. verdict L e (with_resolver ro) entry ns tr ms d \<and> distinct (map (ToUpper L) ns) \<and>
    EvaluateWithEntry L e ro entry = Some (Inr \<lparr>res_Decision = d\<lparr>dc_Marks := ms\<rparr>, res_Trace = tr\<rparr>)"
proof -
  have "\<forall>k \<in> fst ` set (rk_Chains (cfg_RiskControl c)). is_ascii k"
    using assms(3) by (auto simp: ascii_names_def)
  with detectCycles_rank Validate_risk(1) [OF assms(1,2)]
  obtain rank where "jump_rank L (normalise_chains L (rk_Chains (cfg_RiskControl c))) rank" by blast
  from validated_ranked [OF assms(1-5) this] have "ranked L e {n. is_ascii n} rank" .
  from verdict_exists [OF this _ assms(8)] assms(6) obtain ns tr ms d where
    v: "verdict L e (with_resolver ro) entry ns tr ms d" and dis: "distinct (map (ToUpper L) ns)" by blast
  have "\<forall>u. count_list (map (ToUpper L) ns) u \<le> 8"
    using distinct_count_list [OF dis] by (meson le_trans one_le_numeral)
  with v dis verdict_evaluates [OF assms(5) v assms(7)] show ?thesis by blast
qed

definition demo_config :: Config where
  "demo_config = (applyDefaults (config_pow_generic_on zero_config))\<lparr>cfg_RiskControl := demo_risk\<rparr>"

lemma demo_config_valid: "Validate demo_lib demo_config = Some []"
  by code_simp

theorem validated_engine_decides_witness:
  "\<exists>ns tr ms d. verdict demo_lib demo_engine (with_resolver (Some demo_request)) ''INPUT'' ns tr ms d \<and>
     EvaluateWithEntry demo_lib demo_engine (Some demo_request) ''INPUT'' =
       Some (Inr \<lparr>res_Decision = d\<lparr>dc_Marks := ms\<rparr>, res_Trace = tr\<rparr>)"
proof -
  have rc: "cfg_RiskControl demo_config = demo_risk" by (simp add: demo_config_def)
  have c: "rk_Enabled demo_risk" "ascii_names (rk_Chains demo_risk)" "case_distinct demo_lib (rk_Chains demo_risk)"
    "is_ascii ''INPUT''" by code_simp+
  have "EqualFold demo_lib ''input'' ''INPUT''" by code_simp
  then have l: "lookupChain demo_lib demo_engine ''INPUT'' \<noteq> None" by (simp add: lookupChain_None demo_engine_def)
  from validated_engine_decides [OF demo_config_valid, unfolded rc, OF c(1-3) demo_FromConfig c(4) _ l]
  show ?thesis by blast
qed

lemma validated_parts_build:
  assumes "Validate L c = Some []"
  shows "(\<exists>m. app_matcher L c = Inr m) \<and>
    (rk_Enabled (cfg_RiskControl c) \<longrightarrow>
       (\<exists>e. FromConfig L (cfg_RiskControl c) = Inr e) \<or>
       (\<exists>(k, cc) \<in> set (rk_Chains (cfg_RiskControl c)). \<exists>r \<in> set (chc_Rules cc).
          \<exists>b \<in> set (mt_IPCIDRIn (rc_Match r)). ParseCIDR b = None))"
proof (intro conjI impI)
  from assms have "check_protection L (cfg_Protection c) = []" by (auto simp: Validate_def)
  then have "compiles L (prot_ProtectedPaths (cfg_Protection c))" "compiles L (prot_ExcludedPaths (cfg_Protection c))"
    by (auto simp: check_protection_def compiles_def filter_empty_conv)
  then show "\<exists>m. app_matcher L c = Inr m" by (rule build_parts) blast
next
  assume on: "rk_Enabled (cfg_RiskControl c)"
  let ?bad = "\<exists>(k, cc) \<in> set (rk_Chains (cfg_RiskControl c)). \<exists>r \<in> set (chc_Rules cc).
     \<exists>b \<in> set (mt_IPCIDRIn (rc_Match r)). ParseCIDR b = None"
  show "(\<exists>e. FromConfig L (cfg_RiskControl c) = Inr e) \<or> ?bad"
  proof (rule disjCI)
    assume nb: "\<not> ?bad"
    have "chain_compiles L cc" if k: "(k, cc) \<in> set (rk_Chains (cfg_RiskControl c))" for k cc
    proof -
      have "IsValidPolicyTarget (polc_Target (chc_Policy cc))"
        using Validate_risk(3) [OF assms on k] by (simp add: check_chain_def isValidTarget_agrees)
      moreover have "rule_compiles L r" if "r \<in> set (chc_Rules cc)" for r
        using Validate_rule [OF assms on k that] nb k that
        by (auto simp: rule_compiles_def match_compiles_def bad_regex_def)
      ultimately show ?thesis by (simp add: chain_compiles_def)
    qed
    then obtain cm where cm: "compileChains L (rk_Chains (cfg_RiskControl c)) = Inr cm"
      using compileChains_cases [where L = L and m = "rk_Chains (cfg_RiskControl c)"]
      by (cases "compileChains L (rk_Chains (cfg_RiskControl c))") auto
    moreover have "cm \<noteq> []" using cm Validate_risk(2) [OF assms on]
      compileChains_cases [where L = L and m = "rk_Chains (cfg_RiskControl c)"] by auto
    ultimately show "\<exists>e. FromConfig L (cfg_RiskControl c) = Inr e" using on by (simp add: FromConfig_def NewEngine_def)
  qed
qed

text \<open>
  A validated configuration builds. When validation reports no problem, the protection
  matcher compiles, and with risk control on the rule engine compiles too, unless some rule
  lists an address block in \<^verbatim>\<open>ip_cidr_in\<close> that does not parse: validation does not look at those.
\<close>

theorem validated_config_builds:
  assumes "Validate L c = Some []"
  shows "(\<exists>m. app_matcher L c = Inr m) \<and>
    (rk_Enabled (cfg_RiskControl c) \<longrightarrow>
       (\<exists>e. FromConfig L (cfg_RiskControl c) = Inr e) \<or>
       (\<exists>(k, cc) \<in> set (rk_Chains (cfg_RiskControl c)). \<exists>r \<in> set (chc_Rules cc).
          \<exists>b \<in> set (mt_IPCIDRIn (rc_Match r)). ParseCIDR b = None))"
  using assms by (rule validated_parts_build)

theorem validated_config_builds_witness: "\<exists>m. app_matcher demo_lib demo_config = Inr m"
  using validated_config_builds [OF demo_config_valid] by blast

text \<open>A rule with a block that does not parse passes validation and stops the service from starting.\<close>

definition cidr_config :: Config where
  "cidr_config = demo_config\<lparr>cfg_RiskControl := demo_risk\<lparr>rk_Chains :=
     [(''input'', \<lparr>chc_Policy = \<lparr>polc_Target = ''ACCEPT'', polc_Status = 0, polc_LimitRate = [], polc_Reason = []\<rparr>,
        chc_Rules = [(demo_rule ''net'' ''REJECT'' [])\<lparr>rc_Match :=
          (rc_Match (demo_rule ''net'' ''REJECT'' []))\<lparr>mt_IPCIDRIn := [''10.0.0.1'']\<rparr>\<rparr>]\<rparr>)]\<rparr>\<rparr>"

lemma bad_cidr_passes_validation:
  "Validate demo_lib cidr_config = Some []"
  "FromConfig demo_lib (cfg_RiskControl cidr_config) = Inl (ErrRuleMatch ''input'' 0 ''10.0.0.1'')"
proof -
  show "Validate demo_lib cidr_config = Some []" by code_simp
  have "ParseCIDR ''10.0.0.1'' = None" by code_simp
  then show "FromConfig demo_lib (cfg_RiskControl cidr_config) = Inl (ErrRuleMatch ''input'' 0 ''10.0.0.1'')"
    by (simp add: cidr_config_def FromConfig_def demo_risk_def demo_rule_def compileChain_def compileRule_def
        CompileMatcher_def part_path_regex_def part_ip_cidr_def IsValidPolicyTarget_def IsValidRuleTarget_def
        target_defs)
qed

end
