(* ===== verification/Transport.thy ===== *)
theory Transport
  imports TokenSpec
begin

text \<open>
  Package \<^verbatim>\<open>internal/transport/echo\<close>: the handler that turns the proxy's headers into a request and
  a result into a response (\<^verbatim>\<open>handlers.go\<close>), the middleware, routes and server settings.

  A header map holds one value per canonical name, as the handler only uses \<^verbatim>\<open>Get\<close> and \<^verbatim>\<open>Set\<close>
  (\<^verbatim>\<open>net/http\<close> canonicalises \<^verbatim>\<open>X-Original-URI\<close> to \<^verbatim>\<open>X-Original-Uri\<close>). \<^verbatim>\<open>None\<close> is a run-time
  panic: indexing the last byte of a rate that is only white space. The web framework itself is
  not modelled; a middleware or route is a value that says what the code registers.
\<close>

section \<open>Rates and traces (handlers.go)\<close>

definition rate_unit :: "char \<Rightarrow> int option" where
  "rate_unit c =
     (if c = CHR ''k'' then Some 1024
      else if c = CHR ''m'' then Some (1024 * 1024)
      else if c = CHR ''g'' then Some (1024 * 1024 * 1024)
      else None)"

definition limitRateBytes :: "golib \<Rightarrow> string \<Rightarrow> string option" where
  "limitRateBytes L rate0 =
     (if rate0 = [] then Some ''0''
      else let rate = ToLower L (TrimSpace L rate0) in
        if rate = [] then None
        else
          (let (multiplier, numeric) =
                 (case rate_unit (last rate) of Some m \<Rightarrow> (m, butlast rate) | None \<Rightarrow> (1, rate)) in
           case ParseInt numeric of
             None \<Rightarrow> Some ''0''
           | Some v \<Rightarrow> if v < 0 then Some ''0'' else Some (FormatInt (wrap64 (v * multiplier)))))"

definition maxTraceHeaderLen :: nat where "maxTraceHeaderLen = 512"

definition trace_entry :: "RiskTraceStep \<Rightarrow> string" where
  "trace_entry s = rt_Chain s @ '':'' @ rt_Rule s @ (if rt_JumpTo s \<noteq> [] then ''>'' @ rt_JumpTo s else [])"

fun trace_loop :: "string \<Rightarrow> RiskTraceStep list \<Rightarrow> string" where
  "trace_loop b [] = b"
| "trace_loop b (s # rest) =
     (if \<not> rt_Matched s then trace_loop b rest
      else let entry = trace_entry s in
        if length b > 0 then
          (if length b + 1 + length entry > maxTraceHeaderLen then b @ '',...''
           else trace_loop (b @ '','' @ entry) rest)
        else if length entry > maxTraceHeaderLen then take maxTraceHeaderLen entry @ '',...''
        else trace_loop (b @ entry) rest)"

definition formatRiskTrace :: "RiskTraceStep list \<Rightarrow> string" where
  "formatRiskTrace ts = (if ts = [] then [] else trace_loop [] ts)"

section \<open>The response (handlers.go)\<close>

record Response =
  rs_Header :: "(string, string) gomap"
  rs_Status :: int

definition h_Set :: "string \<Rightarrow> string \<Rightarrow> (string, string) gomap \<Rightarrow> (string, string) gomap" where
  "h_Set k v h = AList.update k v h"

definition h_Get :: "(string, string) gomap \<Rightarrow> string \<Rightarrow> string" where
  "h_Get h k = (case map_of h k of Some v \<Rightarrow> v | None \<Rightarrow> [])"

definition set_unless_empty :: "string \<Rightarrow> string \<Rightarrow> (string, string) gomap \<Rightarrow> (string, string) gomap" where
  "set_unless_empty k v h = (if v \<noteq> [] then h_Set k v h else h)"

text \<open>\<^verbatim>\<open>writeAuthResult\<close> in three groups of headers and the final part.\<close>

definition result_headers :: "AuthResult \<Rightarrow> (string, string) gomap \<Rightarrow> (string, string) gomap" where
  "result_headers res h0 =
     (let h1 = set_unless_empty ''X-Pow-Mode'' (a_Mode res) h0;
          h2 = (if a_SignID res \<noteq> [] then
                  (if length (a_SignID res) > 12 then h_Set ''X-Pow-Sign-Id'' (take 12 (a_SignID res)) h1
                   else h_Set ''X-Pow-Sign-Id'' (a_SignID res) h1)
                else h1) in
      if a_Uses res > 0 \<or> a_MaxUses res > 0 then
        h_Set ''X-Pow-Max-Uses'' (itoa (a_MaxUses res)) (h_Set ''X-Pow-Uses'' (itoa (a_Uses res)) h2)
      else h2)"

definition rate_headers :: "golib \<Rightarrow> AuthResult \<Rightarrow> (string, string) gomap \<Rightarrow> (string, string) gomap option" where
  "rate_headers L res h =
     (if a_LimitRate res \<noteq> [] then
        map_option (\<lambda>bytes. h_Set ''X-Pow-Limit-Rate-Bytes'' bytes (h_Set ''X-Pow-Limit-Rate'' (a_LimitRate res) h))
          (limitRateBytes L (a_LimitRate res))
      else Some h)"

definition risk_headers :: "AuthResult \<Rightarrow> (string, string) gomap \<Rightarrow> (string, string) gomap" where
  "risk_headers res h =
     (let h1 = set_unless_empty ''X-Pow-Decision'' (a_Decision res) h;
          h2 = set_unless_empty ''X-Pow-Chain'' (a_RiskChain res) h1;
          h3 = set_unless_empty ''X-Pow-Rule'' (a_RiskRule res) h2 in
      if a_RiskMarks res \<noteq> [] then h_Set ''X-Pow-Marks'' (Join (a_RiskMarks res) '','') h3 else h3)"

definition writeAuthResult :: "golib \<Rightarrow> AuthResult \<Rightarrow> (string, string) gomap \<Rightarrow> Response option" where
  "writeAuthResult L res h0 =
     (case rate_headers L res (result_headers res h0) of
        None \<Rightarrow> None
      | Some h1 \<Rightarrow>
          let h = risk_headers res h1 in
          if a_Allowed res then
            Some \<lparr>rs_Header = set_unless_empty ''X-Pow-Dry-Run-Original-Error'' (a_DryRunOriginalError res)
                    (h_Set ''X-Pow-Reason'' (a_Reason res) (h_Set ''X-Pow-Result'' ''allow'' h)),
                  rs_Status = 200\<rparr>
          else
            Some \<lparr>rs_Header = set_unless_empty ''X-Pow-Trace'' (formatRiskTrace (a_RiskTrace res))
                    (h_Set ''X-Pow-Reason'' (a_Reason res) (h_Set ''X-Pow-Error'' (a_ErrorHeader res)
                      (h_Set ''X-Pow-Result'' ''deny'' h))),
                  rs_Status = a_HTTPStatus res\<rparr>)"

definition auth_request :: "(string, string) gomap \<Rightarrow> AuthRequest" where
  "auth_request hdr =
     \<lparr>ar_OriginalURI = h_Get hdr ''X-Original-Uri'', ar_OriginalMethod = h_Get hdr ''X-Original-Method'',
      ar_OriginalArgs = h_Get hdr ''X-Original-Args'', ar_RealIP = h_Get hdr ''X-Real-Ip'',
      ar_UserAgent = h_Get hdr ''User-Agent'', ar_OriginalRange = h_Get hdr ''X-Original-Range''\<rparr>"

definition verifyPow ::
  "golib \<Rightarrow> Clocks \<Rightarrow> ('u, 'c) Service \<Rightarrow> (string, string) gomap \<Rightarrow> (string, string) gomap \<Rightarrow> ('u, 'c) World \<Rightarrow>
   Response option \<times> ('u, 'c) World" where
  "verifyPow L ck sv hdr h0 w =
     (case Verify L ck sv (auth_request hdr) w of (res, w') \<Rightarrow> (writeAuthResult L res h0, w'))"

datatype json_value = JsonObject "(string \<times> string) list"

definition healthz :: "int \<times> json_value" where
  "healthz = (200, JsonObject [(''status'', ''ok'')])"

definition readyz :: "int \<times> json_value" where
  "readyz = (200, JsonObject [(''status'', ''ok''), (''storage'', ''ok'')])"

section \<open>Middleware and server\<close>

function itoa64_loop :: "int \<Rightarrow> string \<Rightarrow> string" where
  "itoa64_loop n buf =
     (if n > 0 then itoa64_loop (n div 36) (''0123456789abcdefghijklmnopqrstuvwxyz'' ! nat (n mod 36) # buf) else buf)"
  by pat_completeness auto
termination
  by (relation "measure (\<lambda>(n, buf). nat n)") auto

declare itoa64_loop.simps [simp del]

definition itoa64 :: "int \<Rightarrow> string" where
  "itoa64 n = (if n = 0 then ''0'' else itoa64_loop n [])"

definition generateRequestID :: "int \<Rightarrow> string" where
  "generateRequestID unixNano = itoa64 unixNano"

text \<open>The request id that the middleware attaches to the logging context, if any.\<close>

definition logged_request_id :: "string \<Rightarrow> string \<Rightarrow> bool \<Rightarrow> string option" where
  "logged_request_id responseID requestID hasLogger =
     (let rid = (if responseID = [] then requestID else responseID) in
      if rid \<noteq> [] \<and> hasLogger then Some rid else None)"

text \<open>The deadline put on a request; \<^verbatim>\<open>None\<close>: the handler is returned as it is.\<close>

definition timeoutMiddleware :: "int \<Rightarrow> int \<Rightarrow> int option" where
  "timeoutMiddleware read write =
     (if read \<le> 0 \<and> write \<le> 0 then None
      else let d = write; d' = (if d \<le> 0 then read else d) in
        Some (if d' \<le> 0 then 2 * Second else d'))"

text \<open>What \<^verbatim>\<open>routes.go\<close> and \<^verbatim>\<open>server.go\<close> register with the framework.\<close>

datatype Handler = HealthzHandler | ReadyzHandler | MetricsHandler | VerifyPowHandler | GzipVerifyPowHandler

definition registerMainRoutes :: "bool \<Rightarrow> (string \<times> string \<times> Handler) list" where
  "registerMainRoutes hasMetrics =
     [(''GET'', ''/healthz'', HealthzHandler), (''GET'', ''/readyz'', ReadyzHandler)] @
     (if hasMetrics then [(''GET'', ''/metrics'', MetricsHandler)] else []) @
     [(''GET'', ''/verify_pow'', GzipVerifyPowHandler), (''POST'', ''/verify_pow'', VerifyPowHandler)]"

datatype Middleware = RecoverMiddleware | RequestIDMiddleware | BodyLimitMiddleware string | TimeoutMiddleware "int option"

record HttpServer =
  hs_Addr :: string
  hs_ReadHeaderTimeout :: int
  hs_MaxHeaderBytes :: int
  hs_ReadTimeout :: int
  hs_WriteTimeout :: int
  hs_IdleTimeout :: int

record Server =
  se_middleware :: "Middleware list"
  se_routes :: "(string \<times> string \<times> Handler) list"
  se_cfg :: Config
  se_httpServer :: "HttpServer option"

definition NewMain :: "Config \<Rightarrow> bool \<Rightarrow> bool \<Rightarrow> Server" where
  "NewMain cfg hasLogger hasMetrics =
     \<lparr>se_middleware = [RecoverMiddleware] @ (if hasLogger then [RequestIDMiddleware] else []) @
        [BodyLimitMiddleware ''1K'',
         TimeoutMiddleware (timeoutMiddleware (srv_ReadTimeout (cfg_Server cfg)) (srv_WriteTimeout (cfg_Server cfg)))],
      se_routes = registerMainRoutes hasMetrics, se_cfg = cfg, se_httpServer = None\<rparr>"

definition Start :: "string \<Rightarrow> Server \<Rightarrow> Server" where
  "Start listen s =
     (let sc = cfg_Server (se_cfg s) in
      s\<lparr>se_httpServer := Some \<lparr>hs_Addr = listen, hs_ReadHeaderTimeout = 5 * Second, hs_MaxHeaderBytes = 65536,
         hs_ReadTimeout = (if srv_ReadTimeout sc > 0 then srv_ReadTimeout sc else 0),
         hs_WriteTimeout = (if srv_WriteTimeout sc > 0 then srv_WriteTimeout sc else 0),
         hs_IdleTimeout = (if srv_IdleTimeout sc > 0 then srv_IdleTimeout sc else 0)\<rparr>\<rparr>)"

text \<open>
  The error handler: nothing for a committed response, the code and message of a framework
  error, and otherwise 500 without details.
\<close>

datatype http_error = HTTPError int string | OtherError string

definition errorHandler :: "bool \<Rightarrow> http_error \<Rightarrow> (int \<times> json_value) option" where
  "errorHandler committed err =
     (if committed then None
      else case err of
        HTTPError code msg \<Rightarrow> Some (code, JsonObject [(''error'', msg)])
      | OtherError msg \<Rightarrow> Some (500, JsonObject [(''error'', ''internal'')]))"

section \<open>Facts\<close>

lemma trim_spaces:
  assumes "list_all ascii_space a" and "list_all ascii_space b" and "x \<noteq> []"
    and "\<not> ascii_space (hd x)" and "\<not> ascii_space (last x)"
  shows "trim_right ascii_space (dropWhile ascii_space (a @ x @ b)) = x"
proof -
  have "dropWhile ascii_space (a @ x @ b) = x @ b"
    using assms(1,3,4) by (cases x) (simp_all add: list_all_iff dropWhile_append2)
  moreover have "dropWhile ascii_space (rev b @ rev x) = dropWhile ascii_space (rev x)"
    using assms(2) by (intro dropWhile_append2) (auto simp: list_all_iff)
  moreover have "dropWhile ascii_space (rev x) = rev x"
    using assms(3,5) by (cases x rule: rev_cases) simp_all
  ultimately show ?thesis by (simp add: trim_right_def)
qed

lemma digit_facts:
  assumes "is_digit c"
  shows "byte_of c < (128 :: nat)" "\<not> ascii_space c" "lower_byte c = c" "rate_unit c = None"
  using assms by (auto simp: is_digit_def ascii_space_def lower_byte_def rate_unit_def)


text \<open>The units a rate may have, and their factors.\<close>

definition unit_of :: "string \<Rightarrow> int option" where
  "unit_of u =
     (if u = [] then Some 1
      else if u \<in> {''k'', ''K''} then Some 1024
      else if u \<in> {''m'', ''M''} then Some (1024 * 1024)
      else if u \<in> {''g'', ''G''} then Some (1024 * 1024 * 1024)
      else None)"

lemma unit_cases:
  assumes "unit_of u = Some m"
  obtains "u = []" "m = 1"
  | c where "u = [c]" "byte_of c < (128 :: nat)" "\<not> ascii_space c" "rate_unit (lower_byte c) = Some m"
proof -
  have l: "lower_byte (CHR ''k'') = CHR ''k''" "lower_byte (CHR ''K'') = CHR ''k''" "lower_byte (CHR ''m'') = CHR ''m''"
    "lower_byte (CHR ''M'') = CHR ''m''" "lower_byte (CHR ''g'') = CHR ''g''" "lower_byte (CHR ''G'') = CHR ''g''"
    by code_simp+
  consider "u = []" "m = 1" | "u = ''k''" "m = 1024" | "u = ''K''" "m = 1024" | "u = ''m''" "m = 1024 * 1024"
    | "u = ''M''" "m = 1024 * 1024" | "u = ''g''" "m = 1024 * 1024 * 1024" | "u = ''G''" "m = 1024 * 1024 * 1024"
    using assms by (auto simp: unit_of_def split: if_splits)
  then show ?thesis
    by cases (use that(1) that(2) [of "hd u"] in \<open>simp_all add: ascii_space_def l rate_unit_def\<close>)
qed

lemma limitRateBytes_unit:
  assumes "unit_of u = Some m" and "list_all ascii_space a" and "list_all ascii_space b" and "in_int64 (int n)"
  shows "limitRateBytes L (a @ show_nat n @ u @ b) = Some (FormatInt (wrap64 (int n * m)))"
proof -
  have d: "is_digit c" if "c \<in> set (show_nat n)" for c using that show_nat_hd by blast
  have ends: "is_digit (hd (show_nat n))" "is_digit (last (show_nat n))" using d by simp_all
  have sp: "byte_of c < (128 :: nat)" if "ascii_space c" for c using that by (auto simp: ascii_space_def)
  have low: "map lower_byte (show_nat n) = show_nat n" using d digit_facts(3) by (intro map_idI) blast
  have asc: "is_ascii (show_nat n)" using d digit_facts(1) by (auto simp: is_ascii_def list_all_iff)
  have parse: "ParseInt (show_nat n) = Some (int n)"
    using ParseInt_FormatInt [OF assms(4)] by (simp add: FormatInt_def)
  from assms(1) show ?thesis
  proof (cases rule: unit_cases)
    case 1
    have "is_ascii (a @ show_nat n @ b)" using asc sp assms(2,3) by (auto simp: is_ascii_def list_all_iff)
    then have "TrimSpace L (a @ show_nat n @ b) = show_nat n"
      using trim_spaces [OF assms(2,3), of "show_nat n"] ends digit_facts(2) by (simp add: TrimSpace_def)
    with 1 asc low parse digit_facts(4) [OF ends(2)] show ?thesis
      by (simp add: limitRateBytes_def ToLower_def)
  next
    case (2 c)
    have ac: "is_ascii (show_nat n @ [c])" "is_ascii (a @ (show_nat n @ [c]) @ b)"
      using asc sp assms(2,3) 2(2) by (auto simp: is_ascii_def list_all_iff)
    then have "TrimSpace L (a @ (show_nat n @ [c]) @ b) = show_nat n @ [c]"
      using trim_spaces [OF assms(2,3), of "show_nat n @ [c]"] ends digit_facts(2) 2(3) by (simp add: TrimSpace_def)
    with 2 ac low parse show ?thesis by (simp add: limitRateBytes_def ToLower_def)
  qed
qed

lemma trace_loop_bound: "length b \<le> 512 \<Longrightarrow> length (trace_loop b ts) \<le> 516"
  by (induction b ts rule: trace_loop.induct) (auto simp: maxTraceHeaderLen_def Let_def min_def)

text \<open>The entries of all matched steps.\<close>

definition full_trace :: "RiskTraceStep list \<Rightarrow> string" where
  "full_trace ts = Join (map trace_entry (filter rt_Matched ts)) '',''"

lemma Join_Cons: "Join (x # xs) sep = (if xs = [] then x else x @ sep @ Join xs sep)"
  by (cases xs) simp_all

lemma trace_entry_not_Nil [simp]: "trace_entry s \<noteq> []"
  by (simp add: trace_entry_def)

lemma trace_loop_full:
  assumes "length (if b = [] then full_trace ts else Join (b # map trace_entry (filter rt_Matched ts)) '','') \<le> 512"
  shows "trace_loop b ts = (if b = [] then full_trace ts else Join (b # map trace_entry (filter rt_Matched ts)) '','')"
  using assms
proof (induction b ts rule: trace_loop.induct)
  case (1 b)
  then show ?case by (simp add: full_trace_def)
next
  case (2 b s rest)
  then show ?case
    by (auto simp: full_trace_def maxTraceHeaderLen_def Let_def Join_Cons split: if_splits)
qed

section \<open>Status of a result\<close>

definition plain_status :: "AuthResult \<Rightarrow> bool" where
  "plain_status r \<longleftrightarrow> (if a_Allowed r then a_HTTPStatus r = 200 else a_HTTPStatus r \<in> {403, 429, 500})"

lemma nested_if_range: "(if a then 200 else if b then 429 else if c then 500 else (403 :: int)) \<noteq> 200 \<Longrightarrow>
    (if a then 200 else if b then 429 else if c then 500 else 403) \<in> {403, 429, 500 :: int}"
  by (cases a) simp_all

lemma statusForReason_range: "statusForReason reason \<noteq> 200 \<Longrightarrow> statusForReason reason \<in> {403, 429, 500}"
  unfolding statusForReason_def by (rule nested_if_range)

lemma denial_reasons [simp]:
  "statusForReason ReasonMissingTokenOrSign = 403" "statusForReason ReasonTokenTooLong = 403"
  "statusForReason ReasonSignTooLong = 403" "statusForReason ReasonMalformedToken = 403"
  "statusForReason ReasonUnsupportedVersion = 403" "statusForReason ReasonUnsupportedMode = 403"
  "statusForReason ReasonModeDisabled = 403" "statusForReason ReasonUnsupportedAlgorithm = 403"
  "statusForReason ReasonPathMismatch = 403" "statusForReason ReasonExpired = 403"
  "statusForReason ReasonTTLTooLong = 403" "statusForReason ReasonTimestampFromFuture = 403"
  "statusForReason ReasonDifficultyTooLow = 403" "statusForReason ReasonInvalidCounter = 403"
  "statusForReason ReasonInvalidSalt = 403" "statusForReason ReasonInvalidIP = 403"
  "statusForReason ReasonIPForbidden = 403" "statusForReason ReasonIPMissing = 403"
  "statusForReason ReasonInvalidSignFormat = 403" "statusForReason ReasonSignMismatch = 403"
  "statusForReason ReasonDifficultyNotMet = 403" "statusForReason ReasonIPMismatch = 403"
  "statusForReason ReasonUsedUp = 403" "statusForReason ReasonMissingRealIP = 500"
  "statusForReason ReasonRiskReject = 403"
  by code_simp+

lemma plain_results [simp]:
  "plain_status (allow r m)" "plain_status (allowDecision r m d)"
  "plain_status (denyStatus n r m) \<longleftrightarrow> n \<in> {403, 429, 500}"
  "plain_status (denyMode r m) \<longleftrightarrow> statusForReason r \<noteq> 200"
  "plain_status (deny r) \<longleftrightarrow> statusForReason r \<noteq> 200"
  "plain_status (withSignID x s) = plain_status x"
  using statusForReason_range [of r] by (auto simp: plain_status_def result_defs)

lemma plain_fields [simp]:
  "plain_status (x\<lparr>a_SignID := s\<rparr>) = plain_status x" "plain_status (x\<lparr>a_Uses := i\<rparr>) = plain_status x"
  "plain_status (x\<lparr>a_MaxUses := i\<rparr>) = plain_status x" "plain_status (x\<lparr>a_Decision := s\<rparr>) = plain_status x"
  "plain_status (x\<lparr>a_LimitRate := s\<rparr>) = plain_status x" "plain_status (with_risk d tr x) = plain_status x"
  by (simp_all add: plain_status_def with_risk_def)

lemma plain_maybeDryRun [simp]: "plain_status x \<Longrightarrow> plain_status (maybeDryRun sv x)"
  by (auto simp: plain_status_def maybeDryRun_def)

lemma validation_reason_status:
  "validateTokenForMode L sv p mode path s now = Some reason \<Longrightarrow> statusForReason reason = 403"
  by (auto simp: validateTokenForMode_def reasonFromValidationError_def checkTime_def checkSignAndDifficulty_def
      split: option.splits prod.splits if_splits pow_error.splits)

lemma bind_plain: "bindEmptyIPFirstUse L ck sv p req tok s mode u = (Some r, p', u') \<Longrightarrow> plain_status r"
  by (auto simp: bindEmptyIPFirstUse_def Let_def split: option.splits sum.splits if_splits prod.splits)

lemma finalizeIPBound_plain: "plain_status (fst (finalizeIPBound L ck sv p req tok s mode u))"
  using bind_plain [of L ck sv p req tok s mode u]
  by (simp add: finalizeIPBound_def split: option.split prod.split)

lemma finalizeGeneric_plain: "plain_status (fst (finalizeGeneric L wall sv p req tok s mode now u))"
  by (simp add: finalizeGeneric_def split: prod.split sum.split)

lemma verifyPoWOnly_plain: "plain_status (fst (verifyPoWOnly L ck sv req tok s payload u))"
  by (simp add: verifyPoWOnly_def finalizeByMode_def finalizeIPBound_plain finalizeGeneric_plain Let_def
      validation_reason_status split: option.split)

lemma charge_plain: "chargeQuotaForRiskAllow L ck sv vx rq w = (Inl r, w') \<Longrightarrow> plain_status r"
  using bind_plain [of L ck sv _ "vx_req vx" "vx_tokenRaw vx" "vx_sign vx"]
  by (auto simp: chargeQuotaForRiskAllow_def Let_def split: option.splits prod.splits sum.splits if_splits)

lemma charge_decisions: "w_riskDecisions (snd (chargeQuotaForRiskAllow L ck sv vx rq w)) = w_riskDecisions w"
  by (simp add: chargeQuotaForRiskAllow_def Let_def split: option.split prod.split sum.split)

lemma powStatusToReason_status: "statusForReason (powStatusToReason st) \<noteq> 200"
  by (simp add: powStatusToReason_def)

text \<open>
  The status of a result against the last decision of the engine.
\<close>

definition status_by :: "(string \<times> string) list \<Rightarrow> AuthResult \<Rightarrow> bool" where
  "status_by decisions r \<longleftrightarrow> plain_status r \<or>
     (\<exists>reason. decisions \<noteq> [] \<and> last decisions = (TargetREJECT, reason) \<and> statusForReason reason = 200 \<and>
        \<not> a_Allowed r \<and> a_HTTPStatus r = 200)"

lemma status_by_plain: "plain_status r \<Longrightarrow> status_by ds r"
  by (simp add: status_by_def)

lemma reject_status:
  assumes "w_riskDecisions w \<noteq> []" and "last (w_riskDecisions w) = (TargetREJECT, dc_Reason dec)"
  shows "status_by (w_riskDecisions w) (with_risk dec tr (denyMode (if dc_Reason dec = [] then ReasonRiskReject else dc_Reason dec) m))"
proof (cases "dc_Reason dec = [] \<or> statusForReason (dc_Reason dec) \<noteq> 200")
  case True
  then show ?thesis by (intro status_by_plain) auto
next
  case False
  then show ?thesis using assms by (simp add: status_by_def with_risk_def result_defs)
qed

lemma apply_decision_status:
  assumes a: "apply_decision L ck sv vx rq st result w = (Some r, w')"
    and "w_riskDecisions w \<noteq> []" and "last (w_riskDecisions w) = (dc_Target (res_Decision result), dc_Reason (res_Decision result))"
  shows "status_by (w_riskDecisions w') r"
proof (cases "dc_Target (res_Decision result) = TargetREJECT")
  case True
  then have "TargetREJECT \<noteq> TargetACCEPT" "TargetREJECT \<noteq> TargetRATELIMIT" by (simp_all add: target_defs)
  with True a have "r = with_risk (res_Decision result) (res_Trace result)
      (denyMode (if dc_Reason (res_Decision result) = [] then ReasonRiskReject else dc_Reason (res_Decision result)) (rq_PowMode rq))"
    and "w_riskDecisions w' = w_riskDecisions w"
    by (simp_all add: apply_decision_def Let_def recordResult_def) auto
  with reject_status [of w "res_Decision result"] assms(2,3) True show ?thesis by simp
next
  case False
  obtain d v where c: "chargeQuotaForRiskAllow L ck sv vx rq w = (d, v)" by (metis prod.collapse)
  have "plain_status r"
    using a c False charge_plain [of L ck sv vx rq w] powStatusToReason_status [of st]
    by (auto simp: apply_decision_def Let_def split: if_splits sum.splits)
  then show ?thesis by (rule status_by_plain)
qed


lemma verifyPoW_status:
  assumes "verify_admitted L ck sv req prot w = (r, w')"
  shows "status_by (w_riskDecisions w') r"
proof -
  have engine: "status_by (w_riskDecisions v') res" if e: "runRiskEngine L ck sv vx rq st v = (Some res, v')" for vx rq st v res v'
  proof (cases rule: runRiskEngine_cases [of L ck sv vx rq st v])
    case unhandled
    with e show ?thesis by simp
  next
    case (decided e result)
    with that show ?thesis by (intro apply_decision_status) (auto simp: engine_world_def)
  qed
  show ?thesis
  proof (cases "powEnabled sv")
    case False
    then show ?thesis using assms engine
      by (auto simp: verify_admitted_without_pow verifyWithoutPow_def Let_def intro: status_by_plain
          split: prod.splits option.splits)
  next
    case True
    have "status_by (w_riskDecisions w') r" if "run_engine L ck sv req prot w = (None, v)" for v
      using assms that verifyPoWOnly_plain [of L ck sv req _ _ "fst (classified L ck sv req)"]
      by (auto simp: verify_admitted_pow [OF True] split: if_splits prod.splits intro!: status_by_plain)
         (metis fst_conv)+
    with True assms engine show ?thesis
      by (cases "run_engine L ck sv req prot w"; cases "fst (run_engine L ck sv req prot w)")
        (auto simp: verify_admitted_pow run_engine_def)
  qed
qed

lemma Verify_status: "status_by (w_riskDecisions (snd (Verify L ck sv req w))) (fst (Verify L ck sv req w))"
  using refl [of "ShouldProtect L (sv_matcher sv) (ar_OriginalURI req)"]
proof (cases rule: Verify_cases [where ck = ck and w = w])
  case (limited rel pb r w')
  with verifyPoW_status [OF limited(5)] show ?thesis by simp
next
  case (free r w')
  with verifyPoW_status [OF free(4)] show ?thesis by simp
qed (simp_all add: status_by_plain)


lemma set_unless_empty_other [simp]: "k \<noteq> k' \<Longrightarrow> map_of (set_unless_empty k' v h) k = map_of h k"
  by (simp add: set_unless_empty_def h_Set_def)

lemma h_Set_Get [simp]: "map_of (h_Set k' v h) k = (if k = k' then Some v else map_of h k)"
  by (simp add: h_Set_def)

lemma header_frame:
  "k \<notin> {''X-Pow-Mode'', ''X-Pow-Sign-Id'', ''X-Pow-Uses'', ''X-Pow-Max-Uses''} \<Longrightarrow>
     map_of (result_headers res h) k = map_of h k"
  "k \<notin> {''X-Pow-Decision'', ''X-Pow-Chain'', ''X-Pow-Rule'', ''X-Pow-Marks''} \<Longrightarrow>
     map_of (risk_headers res h) k = map_of h k"
  by (simp_all add: result_headers_def risk_headers_def Let_def)

lemma itoa64_loop_length: "n < 36 ^ k \<Longrightarrow> length (itoa64_loop n buf) \<le> k + length buf"
proof (induction k arbitrary: n buf)
  case 0
  then show ?case by (simp add: itoa64_loop.simps)
next
  case (Suc k)
  then have "n div 36 < 36 ^ k" by (simp add: div_less_iff_less_mult)
  from Suc.IH [OF this] have "length (itoa64_loop (n div 36) (c # buf)) \<le> Suc k + length buf" for c
    by (metis add_Suc_shift list.size(4) add.right_neutral add_Suc_right)
  then show ?case by (subst itoa64_loop.simps) simp
qed

lemma itoa_loop_length: "n < 10 ^ k \<Longrightarrow> length (itoa_loop n buf) \<le> k + length buf"
proof (induction k arbitrary: n buf)
  case 0
  then show ?case by (simp add: itoa_loop.simps)
next
  case (Suc k)
  then have "n div 10 < 10 ^ k" by (simp add: div_less_iff_less_mult)
  from Suc.IH [OF this] have "length (itoa_loop (n div 10) (c # buf)) \<le> Suc k + length buf" for c
    by (metis add_Suc_shift list.size(4) add.right_neutral add_Suc_right)
  then show ?case by (subst itoa_loop.simps) simp
qed

lemma digit_chars:
  "digit_char 0 = CHR ''0''" "digit_char (Suc 0) = CHR ''1''" "digit_char 2 = CHR ''2''" "digit_char 3 = CHR ''3''"
  "digit_char 4 = CHR ''4''" "digit_char 5 = CHR ''5''" "digit_char 6 = CHR ''6''" "digit_char 7 = CHR ''7''"
  "digit_char 8 = CHR ''8''" "digit_char 9 = CHR ''9''"
  by code_simp+

section \<open>Properties\<close>

text \<open>
  The response says what was decided. When the rate of a result is not blank, a response is
  written; its status is 200 for an allowed request and the status of the result otherwise, the
  result and reason headers carry verdict and reason, the error header is set for denials only,
  and the byte rate for the proxy is the converted rate.
\<close>

theorem response_tells_verdict:
  assumes "limitRateBytes L (a_LimitRate res) = Some bytes"
  shows "\<exists>resp. writeAuthResult L res [] = Some resp \<and>
    rs_Status resp = (if a_Allowed res then 200 else a_HTTPStatus res) \<and>
    h_Get (rs_Header resp) ''X-Pow-Result'' = (if a_Allowed res then ''allow'' else ''deny'') \<and>
    h_Get (rs_Header resp) ''X-Pow-Reason'' = a_Reason res \<and>
    h_Get (rs_Header resp) ''X-Pow-Error'' = (if a_Allowed res then [] else a_ErrorHeader res) \<and>
    h_Get (rs_Header resp) ''X-Pow-Limit-Rate-Bytes'' = (if a_LimitRate res = [] then [] else bytes)"
proof -
  let ?h = "result_headers res []"
  let ?h1 = "if a_LimitRate res = [] then ?h
    else h_Set ''X-Pow-Limit-Rate-Bytes'' bytes (h_Set ''X-Pow-Limit-Rate'' (a_LimitRate res) ?h)"
  have h1: "rate_headers L res ?h = Some ?h1" using assms by (simp add: rate_headers_def)
  have bytes: "map_of ?h1 ''X-Pow-Limit-Rate-Bytes'' = (if a_LimitRate res = [] then None else Some bytes)"
    and err: "map_of ?h1 ''X-Pow-Error'' = None" by (simp_all add: header_frame(1))
  show ?thesis
    unfolding writeAuthResult_def h1
    by (simp add: Let_def h_Get_def header_frame(2) bytes err)
qed

text \<open>
  C4: A refused request is an HTTP error for the proxy. Every response of the handler has status
  200, 403, 429 or 500, and 200 is sent only for an allowed request or when the last decision of
  the engine was a \<^verbatim>\<open>REJECT\<close> whose configured reason is one of the reasons for allowing.
\<close>

theorem denial_is_http_error:
  assumes "fst (verifyPow L ck sv hdr [] w) = Some resp"
  shows "rs_Status resp \<in> {200, 403, 429, 500} \<and>
    (rs_Status resp = 200 \<longrightarrow> a_Allowed (fst (Verify L ck sv (auth_request hdr) w)) \<or>
       (\<exists>reason. last (w_riskDecisions (snd (verifyPow L ck sv hdr [] w))) = (TargetREJECT, reason) \<and>
          statusForReason reason = 200))"
proof -
  obtain r w' where v: "Verify L ck sv (auth_request hdr) w = (r, w')" by (metis prod.collapse)
  have "rs_Status resp = (if a_Allowed r then 200 else a_HTTPStatus r)"
    using assms v by (auto simp: verifyPow_def writeAuthResult_def Let_def split: option.splits if_splits)
  with Verify_status [of L ck sv "auth_request hdr" w] v show ?thesis
    by (auto simp: status_by_def plain_status_def verifyPow_def split: if_splits)
qed

text \<open>
  A \<^verbatim>\<open>REJECT\<close> with a reason for allowing answers 200. The status of a rejection is looked up by
  its reason, so a rule that rejects with reason \<^verbatim>\<open>risk_accept\<close> denies the request and still
  answers with the status on which the proxy lets it through.
\<close>

theorem reject_with_allow_reason_answers_200:
  assumes "dc_Target (res_Decision result) = TargetREJECT" and "dc_Reason (res_Decision result) = ReasonRiskAccept"
  shows "\<exists>r w' resp. apply_decision L ck sv vx rq st result w = (Some r, w') \<and> \<not> a_Allowed r \<and>
    writeAuthResult L r [] = Some resp \<and> rs_Status resp = 200"
proof -
  have "TargetREJECT \<noteq> TargetACCEPT" "TargetREJECT \<noteq> TargetRATELIMIT" by (simp_all add: target_defs)
  moreover have "statusForReason ReasonRiskAccept = 200" "ReasonRiskAccept \<noteq> []" by code_simp+
  ultimately show ?thesis using assms
    by (simp add: apply_decision_def writeAuthResult_def rate_headers_def with_risk_def result_defs Let_def)
qed

text \<open>
  A rate is converted exactly. A decimal number with an optional unit k, m or g in either letter
  case, white space around it allowed, is written as the number of bytes, provided that number
  fits into 63 bits.
\<close>

theorem limit_rate_in_bytes:
  assumes "unit_of u = Some m" and "list_all ascii_space a" and "list_all ascii_space b" and "int n * m < 2 ^ 63"
  shows "limitRateBytes L (a @ show_nat n @ u @ b) = Some (FormatInt (int n * m))"
proof -
  have "1 \<le> m" using assms(1) by (auto simp: unit_of_def split: if_splits)
  then have "int n \<le> int n * m" by (simp add: mult_le_cancel_left1)
  then have "in_int64 (int n)" "in_int64 (int n * m)" using assms(4) \<open>1 \<le> m\<close> by (auto simp: in_int64_def intro: order_trans)
  with limitRateBytes_unit [OF assms(1-3)] show ?thesis by simp
qed

text \<open>
  A huge rate turns into no limit. The product with the unit wraps around: a multiple of
  17179869184 gigabytes per second becomes 0, which the proxy takes as unlimited.
\<close>

theorem limit_rate_overflow_lifts_limit:
  assumes "0 < k" and "k \<le> 2 ^ 28"
  shows "limitRateBytes L (show_nat (k * 2 ^ 34) @ ''g'') = Some ''0''"
proof -
  have "in_int64 (int (k * 2 ^ 34))" using assms by (simp add: in_int64_def)
  moreover have "unit_of ''g'' = Some (2 ^ 30)" by (simp add: unit_of_def)
  ultimately have "limitRateBytes L (show_nat (k * 2 ^ 34) @ ''g'') = Some (FormatInt (wrap64 (int (k * 2 ^ 34) * 2 ^ 30)))"
    using limitRateBytes_unit [of "''g''" "2 ^ 30" "[]" "[]" "k * 2 ^ 34" L] by simp
  moreover have "wrap64 (int (k * 2 ^ 34) * 2 ^ 30) = 0" by (simp add: wrap64_def)
  moreover have "FormatInt 0 = ''0''" by code_simp
  ultimately show ?thesis by (simp only:)
qed

text \<open>
  C28: The trace header is bounded and complete when it fits. It never exceeds the limit by more than
  the four bytes of the ellipsis, and when the entries of all matched steps, joined by commas,
  fit into the limit, the header is exactly that list.
\<close>

theorem trace_header_bounded:
  "length (formatRiskTrace ts) \<le> maxTraceHeaderLen + 4 \<and>
   (length (full_trace ts) \<le> maxTraceHeaderLen \<longrightarrow> formatRiskTrace ts = full_trace ts)"
  using trace_loop_bound [of "[]" ts] trace_loop_full [of "[]" ts]
  by (auto simp: formatRiskTrace_def maxTraceHeaderLen_def full_trace_def)

theorem trace_header_bounded_witness:
  "formatRiskTrace [\<lparr>rt_Chain = ''INPUT'', rt_Rule = ''a'', rt_Matched = True, rt_Target = ''JUMP'', rt_JumpTo = ''BAN''\<rparr>,
     \<lparr>rt_Chain = ''BAN'', rt_Rule = ''b'', rt_Matched = False, rt_Target = ''REJECT'', rt_JumpTo = []\<rparr>,
     \<lparr>rt_Chain = ''BAN'', rt_Rule = ''c'', rt_Matched = True, rt_Target = ''REJECT'', rt_JumpTo = []\<rparr>] = ''INPUT:a>BAN,BAN:c''"
proof -
  let ?ts = "[\<lparr>rt_Chain = ''INPUT'', rt_Rule = ''a'', rt_Matched = True, rt_Target = ''JUMP'', rt_JumpTo = ''BAN''\<rparr>,
     \<lparr>rt_Chain = ''BAN'', rt_Rule = ''b'', rt_Matched = False, rt_Target = ''REJECT'', rt_JumpTo = []\<rparr>,
     \<lparr>rt_Chain = ''BAN'', rt_Rule = ''c'', rt_Matched = True, rt_Target = ''REJECT'', rt_JumpTo = []\<rparr>]"
  have "full_trace ?ts = ''INPUT:a>BAN,BAN:c''" by (simp add: full_trace_def trace_entry_def)
  with trace_header_bounded [of ?ts] show ?thesis by (simp add: maxTraceHeaderLen_def)
qed


text \<open>
  The fixed buffers of the number formatters are large enough: for every 64-bit integer the
  base-36 request id has at most 16 digits and the decimal form at most 20 bytes, so no index
  runs below zero.
\<close>

theorem digit_buffers_suffice:
  assumes "in_int64 n"
  shows "length (itoa64 n) \<le> 16 \<and> length (itoa n) \<le> 20"
proof -
  have n: "n < 2 ^ 63" and w: "wrap64 (- n) < 2 ^ 63"
    using assms by (auto simp: in_int64_def wrap64_def)
  have p: "(2 :: int) ^ 63 < 36 ^ 16" "(2 :: int) ^ 63 < 10 ^ 19" by simp_all
  show ?thesis
    using itoa64_loop_length [of n 16 "[]"] itoa_loop_length [of n 19 "[]"] itoa_loop_length [of "wrap64 (- n)" 19 "[]"] n w p
    by (auto simp: itoa64_def itoa_def Let_def)
qed

theorem digit_buffers_suffice_witness: "length (itoa64 (- (2 ^ 63))) \<le> 16 \<and> length (itoa (- (2 ^ 63))) \<le> 20"
  by (rule digit_buffers_suffice) (simp add: in_int64_def)

theorem limit_rate_in_bytes_witness: "limitRateBytes demo_lib '' 512K'' = Some ''524288''"
proof -
  have "show_nat 512 = ''512''" "FormatInt (int 512 * 1024) = ''524288''"
    by (simp_all add: FormatInt_def show_nat.simps digit_chars)
  moreover have "limitRateBytes demo_lib ('' '' @ show_nat 512 @ ''K'' @ []) = Some (FormatInt (int 512 * 1024))"
    by (rule limit_rate_in_bytes) (simp_all add: unit_of_def ascii_space_def)
  ultimately show ?thesis by simp
qed

theorem limit_rate_overflow_lifts_limit_witness: "limitRateBytes demo_lib ''17179869184g'' = Some ''0''"
proof -
  have "show_nat (1 * 2 ^ 34) = ''17179869184''" by (simp add: show_nat.simps digit_chars)
  with limit_rate_overflow_lifts_limit [of 1 demo_lib] show ?thesis by simp
qed

theorem reject_with_allow_reason_answers_200_witness:
  "\<exists>r w' resp. apply_decision demo_lib (demo_clocks 1500) (service_of guarded_options)
     \<lparr>vx_req = demo_req, vx_payload = None, vx_tokenRaw = [], vx_sign = [], vx_protected = True\<rparr>
     (base_request demo_lib demo_req True) ''missing''
     \<lparr>res_Decision = (applyPolicy ''INPUT'' (snd (hd demo_rules)) init_state)\<lparr>dc_Target := TargetREJECT, dc_Reason := ReasonRiskAccept\<rparr>,
      res_Trace = []\<rparr> demo_world = (Some r, w') \<and> \<not> a_Allowed r \<and>
    writeAuthResult demo_lib r [] = Some resp \<and> rs_Status resp = 200"
  by (rule reject_with_allow_reason_answers_200) simp_all

theorem response_tells_verdict_witness:
  "\<exists>resp. writeAuthResult demo_lib ((allow ReasonRiskAccept [])\<lparr>a_LimitRate := ''512k''\<rparr>) [] = Some resp \<and>
    h_Get (rs_Header resp) ''X-Pow-Limit-Rate-Bytes'' = ''524288''"
proof -
  have "show_nat 512 = ''512''" "FormatInt (int 512 * 1024) = ''524288''"
    by (simp_all add: FormatInt_def show_nat.simps digit_chars)
  then have "limitRateBytes demo_lib ''512k'' = Some ''524288''"
    using limitRateBytes_unit [of "''k''" 1024 "[]" "[]" 512 demo_lib] by (simp add: unit_of_def in_int64_def)
  with response_tells_verdict [of demo_lib "(allow ReasonRiskAccept [])\<lparr>a_LimitRate := ''512k''\<rparr>" "''524288''"]
  show ?thesis by auto
qed

theorem denial_is_http_error_witness:
  "\<exists>resp. fst (verifyPow demo_lib (demo_clocks 1500) (service_of demo_options) [] [] demo_world) = Some resp \<and>
    rs_Status resp \<in> {200, 403, 429, 500}"
proof -
  have v: "Verify demo_lib (demo_clocks 1500) (service_of demo_options) (auth_request []) demo_world =
      (denyStatus 500 ReasonMissingHeaders [], recordResult (service_of demo_options)
        (ShouldProtect demo_lib AlwaysMatcher []) (denyStatus 500 ReasonMissingHeaders []) demo_world)"
    by (simp add: Verify_def auth_request_def h_Get_def bypassAllEffective_def demo_pow_def default_pow_def
        config_pow_generic_on_def zero_config_def Let_def)
  obtain resp where r: "fst (verifyPow demo_lib (demo_clocks 1500) (service_of demo_options) [] [] demo_world) = Some resp"
    by (simp add: verifyPow_def v writeAuthResult_def rate_headers_def result_defs Let_def)
  from denial_is_http_error [OF r] r show ?thesis by blast
qed

end
