(* ===== verification/Instrumented.thy ===== *)
theory Instrumented
  imports CounterStore
begin

text \<open>
  \<^verbatim>\<open>storage/instrumented.go\<close>: the decorators that count the operations of a store. A store behind
  the interface is a record of its operations, with the optional capability \<^verbatim>\<open>CountActive\<close>; the
  decorated store carries the wrapped one and the list of observations. A store that is returned
  unchanged is one that observes nothing. Latencies are not modelled.
\<close>

section \<open>Stores behind the interface\<close>

record ('e, 'u) UsageStoreOps =
  uso_Consume :: "'e \<Rightarrow> ConsumeInput \<Rightarrow> 'u \<Rightarrow> (store_error + ConsumeResult) \<times> 'u"
  uso_Get :: "string \<Rightarrow> 'u \<Rightarrow> (store_error + UsageRecord) \<times> 'u"
  uso_CleanupExpired :: "int \<Rightarrow> 'u \<Rightarrow> (store_error + int) \<times> 'u"
  uso_Close :: "'u \<Rightarrow> 'u"
  uso_CountActive :: "('u \<Rightarrow> (store_error + int) \<times> 'u) option"

record ('e, 'c) CounterStoreOps =
  cso_Incr :: "'e \<Rightarrow> string \<Rightarrow> string \<Rightarrow> int \<Rightarrow> 'c \<Rightarrow> (store_error + int \<times> int) \<times> 'c"
  cso_Get :: "'e \<Rightarrow> string \<Rightarrow> string \<Rightarrow> int \<Rightarrow> 'c \<Rightarrow> (store_error + int) \<times> 'c"
  cso_Reset :: "'e \<Rightarrow> string \<Rightarrow> string \<Rightarrow> int \<Rightarrow> 'c \<Rightarrow> store_error option \<times> 'c"
  cso_Close :: "'c \<Rightarrow> 'c"

record Observation =
  ob_driver :: string
  ob_op :: string
  ob_outcome :: string

record 's Metered =
  me_store :: 's
  me_observed :: "Observation list"

section \<open>Observation (instrumented.go)\<close>

definition outcome :: "store_error option \<Rightarrow> string" where
  "outcome err = (if err \<noteq> None then ''err'' else ''ok'')"

definition ignoreNotFound :: "store_error option \<Rightarrow> store_error option" where
  "ignoreNotFound err = (if err = Some ErrNotFound then None else err)"

definition observe :: "string \<Rightarrow> string \<Rightarrow> store_error option \<Rightarrow> 's Metered \<Rightarrow> 's Metered" where
  "observe driver opn err s =
     s\<lparr>me_observed := me_observed s @ [\<lparr>ob_driver = driver, ob_op = opn, ob_outcome = outcome err\<rparr>]\<rparr>"

definition err_of :: "store_error + 'a \<Rightarrow> store_error option" where
  "err_of r = (case r of Inl e \<Rightarrow> Some e | Inr _ \<Rightarrow> None)"

text \<open>A call of the wrapped store, without and with an observation of its error.\<close>

definition passed :: "('s \<Rightarrow> 'a \<times> 's) \<Rightarrow> 's Metered \<Rightarrow> 'a \<times> 's Metered" where
  "passed call s = (case call (me_store s) of (r, st) \<Rightarrow> (r, s\<lparr>me_store := st\<rparr>))"

definition metered :: "string \<Rightarrow> string \<Rightarrow> ('a \<Rightarrow> store_error option) \<Rightarrow> ('s \<Rightarrow> 'a \<times> 's) \<Rightarrow> 's Metered \<Rightarrow> 'a \<times> 's Metered" where
  "metered driver opn err call s =
     (case passed call s of (r, s') \<Rightarrow> (r, observe driver opn (err r) s'))"

definition instrumentedUsage :: "string \<Rightarrow> ('e, 'u) UsageStoreOps \<Rightarrow> ('e, 'u Metered) UsageStoreOps" where
  "instrumentedUsage driver nxt =
     \<lparr>uso_Consume = (\<lambda>e inp. metered driver ''consume'' err_of (uso_Consume nxt e inp)),
      uso_Get = (\<lambda>sid. metered driver ''get'' (ignoreNotFound \<circ> err_of) (uso_Get nxt sid)),
      uso_CleanupExpired = (\<lambda>b. metered driver ''cleanup_expired'' err_of (uso_CleanupExpired nxt b)),
      uso_Close = (\<lambda>s. s\<lparr>me_store := uso_Close nxt (me_store s)\<rparr>),
      uso_CountActive = map_option (metered driver ''count_active'' err_of) (uso_CountActive nxt)\<rparr>"

definition plainUsage :: "('e, 'u) UsageStoreOps \<Rightarrow> ('e, 'u Metered) UsageStoreOps" where
  "plainUsage nxt =
     \<lparr>uso_Consume = (\<lambda>e inp. passed (uso_Consume nxt e inp)), uso_Get = (\<lambda>sid. passed (uso_Get nxt sid)),
      uso_CleanupExpired = (\<lambda>b. passed (uso_CleanupExpired nxt b)),
      uso_Close = (\<lambda>s. s\<lparr>me_store := uso_Close nxt (me_store s)\<rparr>),
      uso_CountActive = map_option passed (uso_CountActive nxt)\<rparr>"

definition InstrumentUsage ::
  "string \<Rightarrow> bool \<Rightarrow> ('e, 'u) UsageStoreOps option \<Rightarrow> ('e, 'u Metered) UsageStoreOps option" where
  "InstrumentUsage driver hasMetrics nxt =
     (case nxt of
        None \<Rightarrow> None
      | Some st \<Rightarrow> if \<not> hasMetrics then Some (plainUsage st) else Some (instrumentedUsage driver st))"

definition instrumentedCounter :: "string \<Rightarrow> ('e, 'c) CounterStoreOps \<Rightarrow> ('e, 'c Metered) CounterStoreOps" where
  "instrumentedCounter driver nxt =
     \<lparr>cso_Incr = (\<lambda>e n k w. metered driver ''counter_incr'' err_of (cso_Incr nxt e n k w)),
      cso_Get = (\<lambda>e n k w. metered driver ''counter_get'' err_of (cso_Get nxt e n k w)),
      cso_Reset = (\<lambda>e n k w. metered driver ''counter_reset'' (\<lambda>err. err) (cso_Reset nxt e n k w)),
      cso_Close = (\<lambda>s. s\<lparr>me_store := cso_Close nxt (me_store s)\<rparr>)\<rparr>"

definition plainCounter :: "('e, 'c) CounterStoreOps \<Rightarrow> ('e, 'c Metered) CounterStoreOps" where
  "plainCounter nxt =
     \<lparr>cso_Incr = (\<lambda>e n k w. passed (cso_Incr nxt e n k w)), cso_Get = (\<lambda>e n k w. passed (cso_Get nxt e n k w)),
      cso_Reset = (\<lambda>e n k w. passed (cso_Reset nxt e n k w)),
      cso_Close = (\<lambda>s. s\<lparr>me_store := cso_Close nxt (me_store s)\<rparr>)\<rparr>"

definition InstrumentCounter ::
  "string \<Rightarrow> bool \<Rightarrow> ('e, 'c) CounterStoreOps option \<Rightarrow> ('e, 'c Metered) CounterStoreOps option" where
  "InstrumentCounter driver hasMetrics nxt =
     (case nxt of
        None \<Rightarrow> None
      | Some st \<Rightarrow> if \<not> hasMetrics then Some (plainCounter st) else Some (instrumentedCounter driver st))"

section \<open>Facts\<close>

lemma metered_result [simp]:
  "fst (metered d opn err call s) = fst (call (me_store s))"
  "me_store (snd (metered d opn err call s)) = snd (call (me_store s))"
  "me_observed (snd (metered d opn err call s)) = me_observed s @
     [\<lparr>ob_driver = d, ob_op = opn, ob_outcome = outcome (err (fst (call (me_store s))))\<rparr>]"
  by (simp_all add: metered_def passed_def observe_def split: prod.split)

lemma passed_result [simp]:
  "fst (passed call s) = fst (call (me_store s))" "me_store (snd (passed call s)) = snd (call (me_store s))"
  "me_observed (snd (passed call s)) = me_observed s"
  by (simp_all add: passed_def split: prod.split)

text \<open>The contract of a usage store survives the decoration.\<close>

lemma InstrumentUsage_cases:
  assumes "InstrumentUsage driver hasMetrics (Some st) = Some ops"
  shows "fst (uso_Consume ops e i s) = fst (uso_Consume st e i (me_store s))"
    "me_store (snd (uso_Consume ops e i s)) = snd (uso_Consume st e i (me_store s))"
  using assms by (auto simp: InstrumentUsage_def instrumentedUsage_def plainUsage_def split: if_splits)

lemma InstrumentUsage_contract:
  assumes "usage_store (uso_Consume st) uses invariant fits" and "InstrumentUsage driver hasMetrics (Some st) = Some ops"
  shows "usage_store (uso_Consume ops) (\<lambda>s. uses (me_store s)) (\<lambda>M s. invariant M (me_store s)) fits"
  using assms(1) unfolding usage_store_def by (simp add: InstrumentUsage_cases [OF assms(2)])

definition mem_usage_store :: "(int, MemUsageStore) UsageStoreOps" where
  "mem_usage_store = \<lparr>uso_Consume = Consume, uso_Get = (\<lambda>sid s. (Get sid s, s)), uso_CleanupExpired = CleanupExpired,
     uso_Close = Close, uso_CountActive = Some (\<lambda>s. (CountActive s, s))\<rparr>"

interpretation metered_mem: usage_store "uso_Consume (instrumentedUsage driver mem_usage_store)"
  "\<lambda>s. mem_uses (me_store s)" "\<lambda>M s. mem_inv M (me_store s)" "\<lambda>M wall. within_limit M" for driver
proof (rule InstrumentUsage_contract)
  show "usage_store (uso_Consume mem_usage_store) mem_uses mem_inv (\<lambda>M wall. within_limit M)"
    by (simp add: mem_usage_store_def mem.usage_store_axioms)
  show "InstrumentUsage driver True (Some mem_usage_store) = Some (instrumentedUsage driver mem_usage_store)"
    by (simp add: InstrumentUsage_def)
qed

section \<open>Properties\<close>

text \<open>Calls of a usage store, and the label and error with which a call is observed.\<close>

datatype UsageCall = CallConsume int ConsumeInput | CallGet string | CallCleanup int | CallCount | CallClose

definition usage_call :: "(int, 'u) UsageStoreOps \<Rightarrow> UsageCall \<Rightarrow> 'u \<Rightarrow> 'u" where
  "usage_call ops c s =
     (case c of
        CallConsume wall inp \<Rightarrow> snd (uso_Consume ops wall inp s)
      | CallGet sid \<Rightarrow> snd (uso_Get ops sid s)
      | CallCleanup b \<Rightarrow> snd (uso_CleanupExpired ops b s)
      | CallCount \<Rightarrow> (case uso_CountActive ops of Some f \<Rightarrow> snd (f s) | None \<Rightarrow> s)
      | CallClose \<Rightarrow> uso_Close ops s)"

definition call_label :: "(int, 'u) UsageStoreOps \<Rightarrow> UsageCall \<Rightarrow> 'u \<Rightarrow> (string \<times> store_error option) option" where
  "call_label ops c s =
     (case c of
        CallConsume wall inp \<Rightarrow> Some (''consume'', err_of (fst (uso_Consume ops wall inp s)))
      | CallGet sid \<Rightarrow> Some (''get'', ignoreNotFound (err_of (fst (uso_Get ops sid s))))
      | CallCleanup b \<Rightarrow> Some (''cleanup_expired'', err_of (fst (uso_CleanupExpired ops b s)))
      | CallCount \<Rightarrow> map_option (\<lambda>f. (''count_active'', err_of (fst (f s)))) (uso_CountActive ops)
      | CallClose \<Rightarrow> None)"

fun call_labels :: "(int, 'u) UsageStoreOps \<Rightarrow> UsageCall list \<Rightarrow> 'u \<Rightarrow> (string \<times> store_error option) list" where
  "call_labels ops [] s = []"
| "call_labels ops (c # cs) s =
     (case call_label ops c s of Some l \<Rightarrow> [l] | None \<Rightarrow> []) @ call_labels ops cs (usage_call ops c s)"

lemma usage_call_store:
  "me_store (usage_call (instrumentedUsage driver st) c s) = usage_call st c (me_store s)"
  by (cases c) (simp_all add: usage_call_def instrumentedUsage_def split: option.split)

lemma usage_call_observed:
  "me_observed (usage_call (instrumentedUsage driver st) c s) = me_observed s @
     map (\<lambda>(opn, err). \<lparr>ob_driver = driver, ob_op = opn, ob_outcome = outcome err\<rparr>)
       (case call_label st c (me_store s) of Some l \<Rightarrow> [l] | None \<Rightarrow> [])"
  by (cases c) (simp_all add: usage_call_def call_label_def instrumentedUsage_def split: option.split)

text \<open>
  Instrumentation changes nothing but the metrics. After any sequence of calls the wrapped store
  is in the state it would have without the decorator, every call returns what the store
  returns, the capability to count active records survives, and each call other than \<^verbatim>\<open>Close\<close> has
  added one observation with its driver, operation and outcome, a missing record not counting
  as a failure.
\<close>

theorem instrumentation_is_transparent:
  "me_store (fold (usage_call (instrumentedUsage driver st)) cs s) = fold (usage_call st) cs (me_store s) \<and>
   me_observed (fold (usage_call (instrumentedUsage driver st)) cs s) = me_observed s @
     map (\<lambda>(opn, err). \<lparr>ob_driver = driver, ob_op = opn, ob_outcome = outcome err\<rparr>) (call_labels st cs (me_store s)) \<and>
   fst (uso_Consume (instrumentedUsage driver st) e inp s) = fst (uso_Consume st e inp (me_store s)) \<and>
   fst (uso_Get (instrumentedUsage driver st) sid s) = fst (uso_Get st sid (me_store s)) \<and>
   (uso_CountActive (instrumentedUsage driver st) = None \<longleftrightarrow> uso_CountActive st = None)"
proof (intro conjI)
  show "me_store (fold (usage_call (instrumentedUsage driver st)) cs s) = fold (usage_call st) cs (me_store s)"
    by (induction cs arbitrary: s) (simp_all add: usage_call_store)
  show "me_observed (fold (usage_call (instrumentedUsage driver st)) cs s) = me_observed s @
      map (\<lambda>(opn, err). \<lparr>ob_driver = driver, ob_op = opn, ob_outcome = outcome err\<rparr>) (call_labels st cs (me_store s))"
    by (induction cs arbitrary: s) (simp_all add: usage_call_observed usage_call_store)
qed (simp_all add: instrumentedUsage_def)

end
