(* ===== verification/App.thy ===== *)
theory App
  imports ConfigValidate Transport Instrumented
begin

text \<open>
  \<^verbatim>\<open>internal/app/app.go\<close>: construction of the application from its configuration, shutdown and the
  cleanup loop. What is opened and closed is a list of actions; \<open>open_after\<close> is what remains open.
  The outside world is the record \<open>AppEnv\<close> (whether a log level parses, the Redis server answers, the
  Postgres pool opens) and the operations of the stores per driver. Log lines are left out, the
  closing of a store never fails, and the request metrics exist always.
\<close>

section \<open>Resources\<close>

datatype Resource = RedisConn | PgConn | UsageStoreRes string | CounterStoreRes string | PendingBlockerRes

datatype AppAction = Opened Resource | Closed Resource | CleanupStarted | CleanupStopped | ServerShutdown

definition act :: "AppAction \<Rightarrow> Resource set \<Rightarrow> Resource set" where
  "act a S = (case a of Opened r \<Rightarrow> insert r S | Closed r \<Rightarrow> S - {r} | _ \<Rightarrow> S)"

definition open_after :: "AppAction list \<Rightarrow> Resource set \<Rightarrow> Resource set" where
  "open_after acts S = fold act acts S"

record AppEnv =
  env_levelOk :: "string \<Rightarrow> bool"
  env_redisPing :: bool
  env_pgOpen :: bool

datatype app_error = ErrConfigNil | ErrInitLogging | ErrMatcher "string list" | ErrConnectRedis | ErrOpenPostgres
  | ErrBuildRiskEngine risk_error | ErrBuildAuthService new_error

text \<open>\<^verbatim>\<open>logging.New\<close> fails for a level that the logging library does not know and for other formats.\<close>

definition logging_New :: "AppEnv \<Rightarrow> LoggingConfig \<Rightarrow> bool" where
  "logging_New env lc \<longleftrightarrow> env_levelOk env (lg_Level lc) \<and> lg_Format lc \<in> {''console'', ''json'', []}"

section \<open>Storage (buildStorage)\<close>

record Storage =
  stg_usage :: "string option"
  stg_counter :: "string option"
  stg_redis :: bool
  stg_pg :: bool

definition usage_driver :: "StorageConfig \<Rightarrow> string option" where
  "usage_driver sc = (if st_Driver sc \<in> {''memory'', ''postgres'', ''redis''} then Some (st_Driver sc) else None)"

definition counter_driver :: "StorageConfig \<Rightarrow> bool \<Rightarrow> string option" where
  "counter_driver sc haveRedis =
     (if st_CounterDriver sc = ''memory'' then Some ''memory''
      else if st_CounterDriver sc = ''redis'' then Some (if haveRedis then ''redis'' else ''memory'')
      else None)"

definition buildStorage :: "StorageConfig \<Rightarrow> AppEnv \<Rightarrow> (app_error + Storage) \<times> AppAction list" where
  "buildStorage sc env =
     (let needRedis = (st_Driver sc = ''redis'' \<or> st_CounterDriver sc = ''redis'');
          haveRedis = (needRedis \<and> env_redisPing env);
          redisActs = (if needRedis then Opened RedisConn # (if haveRedis then [] else [Closed RedisConn]) else []);
          counter = counter_driver sc haveRedis;
          storeActs = (case usage_driver sc of Some d \<Rightarrow> [Opened (UsageStoreRes d)] | None \<Rightarrow> []) @
            (case counter of Some d \<Rightarrow> [Opened (CounterStoreRes d)] | None \<Rightarrow> []) in
      if needRedis \<and> \<not> haveRedis \<and> st_Driver sc = ''redis'' then (Inl ErrConnectRedis, redisActs)
      else if st_Driver sc = ''postgres'' \<and> \<not> env_pgOpen env then
        (Inl ErrOpenPostgres, redisActs @ (if haveRedis then [Closed RedisConn] else []))
      else
        (Inr \<lparr>stg_usage = usage_driver sc, stg_counter = counter, stg_redis = haveRedis, stg_pg = (st_Driver sc = ''postgres'')\<rparr>,
         redisActs @ (if st_Driver sc = ''postgres'' then [Opened PgConn] else []) @ storeActs))"

definition storageCloser :: "Storage \<Rightarrow> AppAction list" where
  "storageCloser st =
     (case stg_usage st of Some d \<Rightarrow> [Closed (UsageStoreRes d)] | None \<Rightarrow> []) @
     (case stg_counter st of Some d \<Rightarrow> [Closed (CounterStoreRes d)] | None \<Rightarrow> []) @
     (if stg_pg st then [Closed PgConn] else [])"

section \<open>Construction (build)\<close>

record ('u, 'c) App =
  app_cfg :: Config
  app_powFlags :: "(string \<times> bool) list"
  app_authSvc :: "('u, 'c) Service"
  app_mainSrv :: Server
  app_storage :: Storage
  app_pendingBlocker :: "IPPendingBlocker option"
  app_cleanup :: bool

definition pow_flags :: "PowConfig \<Rightarrow> (string \<times> bool) list" where
  "pow_flags pc = [(''enabled'', pc_Enabled pc = None \<or> pc_Enabled pc = Some True), (''dry_run'', pc_DryRun pc),
     (''bypass_all'', pc_BypassAll pc)]"

definition pending_blocker :: "Config \<Rightarrow> IPPendingBlocker option" where
  "pending_blocker cfg =
     (if rk_Enabled (cfg_RiskControl cfg) \<and> pendingEnabled cfg
      then Some (NewIPPendingBlocker (pnd_MaxPerIP (rk_Pending (cfg_RiskControl cfg))) (pnd_BlockTTL (rk_Pending (cfg_RiskControl cfg))))
      else None)"

text \<open>The options handed to \<^verbatim>\<open>auth.New\<close>.\<close>

definition service_options ::
  "(string \<Rightarrow> 'u UsageOps) \<Rightarrow> (string \<Rightarrow> 'c CounterOps) \<Rightarrow> Config \<Rightarrow> Matcher \<Rightarrow> Storage \<Rightarrow> ChainMap option \<Rightarrow> ('u, 'c) Options" where
  "service_options uops cops cfg m st engine =
     \<lparr>op_Config = Some cfg, op_Matcher = Some m, op_UsageStore = map_option uops (stg_usage st), op_RiskEngine = engine,
      op_CounterReg = (if rk_Enabled (cfg_RiskControl cfg)
        then Some \<lparr>reg_defs = rk_Counters (cfg_RiskControl cfg), reg_store = map_option cops (stg_counter st)\<rparr> else None),
      op_PendingBlocker = (pending_blocker cfg \<noteq> None)\<rparr>"

definition cleanup_on :: "Config \<Rightarrow> Storage \<Rightarrow> bool" where
  "cleanup_on cfg st \<longleftrightarrow> (cl_Enabled (cfg_Cleanup cfg) = None \<or> cl_Enabled (cfg_Cleanup cfg) = Some True) \<and> stg_usage st \<noteq> None"

definition build ::
  "golib \<Rightarrow> (string \<Rightarrow> 'u UsageOps) \<Rightarrow> (string \<Rightarrow> 'c CounterOps) \<Rightarrow> AppEnv \<Rightarrow> Config option \<Rightarrow>
   (app_error + ('u, 'c) App) \<times> AppAction list" where
  "build L uops cops env config =
     (case config of
        None \<Rightarrow> (Inl ErrConfigNil, [])
      | Some cfg \<Rightarrow>
          if \<not> logging_New env (cfg_Logging cfg) then (Inl ErrInitLogging, [])
          else case app_matcher L cfg of
            Inl e \<Rightarrow> (Inl (ErrMatcher e), [])
          | Inr m \<Rightarrow>
              (case buildStorage (cfg_Storage cfg) env of
                 (Inl e, acts) \<Rightarrow> (Inl e, acts)
               | (Inr st, acts) \<Rightarrow>
                   (let pb = pending_blocker cfg;
                        pbActs = (if pb \<noteq> None then [Opened PendingBlockerRes] else []);
                        undo = (if pb \<noteq> None then [Closed PendingBlockerRes] else []) @ storageCloser st in
                    case (if rk_Enabled (cfg_RiskControl cfg)
                          then map_sum id Some (FromConfig L (cfg_RiskControl cfg)) else Inr None) of
                      Inl e \<Rightarrow> (Inl (ErrBuildRiskEngine e), acts @ pbActs @ undo)
                    | Inr engine \<Rightarrow>
                        (case New (service_options uops cops cfg m st engine) of
                           Inl e \<Rightarrow> (Inl (ErrBuildAuthService e), acts @ pbActs @ undo)
                         | Inr sv \<Rightarrow>
                             (Inr \<lparr>app_cfg = cfg, app_powFlags = pow_flags (cfg_Pow cfg), app_authSvc = sv,
                                app_mainSrv = NewMain cfg True True, app_storage = st, app_pendingBlocker = pb,
                                app_cleanup = cleanup_on cfg st\<rparr>,
                              acts @ pbActs @ (if cleanup_on cfg st then [CleanupStarted] else []))))))"

definition Shutdown :: "bool \<Rightarrow> ('u, 'c) App \<Rightarrow> string list \<times> AppAction list" where
  "Shutdown serverOk a =
     (if serverOk then [] else [''main server shutdown''],
      (if app_cleanup a then [CleanupStopped] else []) @ [ServerShutdown] @
      (if app_pendingBlocker a \<noteq> None then [Closed PendingBlockerRes] else []) @
      storageCloser (app_storage a) @ (if stg_redis (app_storage a) then [Closed RedisConn] else []))"

section \<open>The cleanup loop\<close>

definition refreshActiveGauge :: "bool \<Rightarrow> ('e, 's) UsageStoreOps \<Rightarrow> 's \<times> int \<Rightarrow> 's \<times> int" where
  "refreshActiveGauge hasMetrics ops sg =
     (case sg of (s, gauge) \<Rightarrow>
        if \<not> hasMetrics then (s, gauge)
        else case uso_CountActive ops of
          None \<Rightarrow> (s, gauge)
        | Some count \<Rightarrow>
            (case count s of (Inl err, s') \<Rightarrow> (s', gauge) | (Inr n, s') \<Rightarrow> (s', n)))"

text \<open>A tick at an instant in nanoseconds removes what expired before the grace period.\<close>

definition cleanup_threshold :: "CleanupConfig \<Rightarrow> int \<Rightarrow> int" where
  "cleanup_threshold cc nowNanos = (nowNanos - cl_ExpiredGracePeriod cc) div Second"

definition cleanup_tick :: "bool \<Rightarrow> CleanupConfig \<Rightarrow> ('e, 's) UsageStoreOps \<Rightarrow> int \<Rightarrow> 's \<times> int \<Rightarrow> 's \<times> int" where
  "cleanup_tick hasMetrics cc ops nowNanos sg =
     (case sg of (s, gauge) \<Rightarrow>
        (case uso_CleanupExpired ops (cleanup_threshold cc nowNanos) s of
           (Inl err, s') \<Rightarrow> (s', gauge)
         | (Inr removed, s') \<Rightarrow> refreshActiveGauge hasMetrics ops (s', gauge)))"

definition cleanupLoop :: "bool \<Rightarrow> CleanupConfig \<Rightarrow> ('e, 's) UsageStoreOps \<Rightarrow> int list \<Rightarrow> 's \<times> int \<Rightarrow> 's \<times> int" where
  "cleanupLoop hasMetrics cc ops ticks sg = fold (cleanup_tick hasMetrics cc ops) ticks (refreshActiveGauge hasMetrics ops sg)"

section \<open>Facts\<close>

lemma open_after_simps [simp]:
  "open_after [] S = S" "open_after (a # as) S = open_after as (act a S)"
  "open_after (as @ bs) S = open_after bs (open_after as S)"
  "act (Opened r) S = insert r S" "act (Closed r) S = S - {r}" "act CleanupStarted S = S" "act CleanupStopped S = S"
  "act ServerShutdown S = S"
  by (simp_all add: open_after_def act_def)

definition storage_resources :: "Storage \<Rightarrow> Resource set" where
  "storage_resources st = (case stg_usage st of Some d \<Rightarrow> {UsageStoreRes d} | None \<Rightarrow> {}) \<union>
     (case stg_counter st of Some d \<Rightarrow> {CounterStoreRes d} | None \<Rightarrow> {}) \<union> (if stg_pg st then {PgConn} else {})"

lemma storageCloser_closes: "open_after (storageCloser st) S = S - storage_resources st"
  by (auto simp: storageCloser_def storage_resources_def split: option.split)

definition have_redis :: "StorageConfig \<Rightarrow> AppEnv \<Rightarrow> bool" where
  "have_redis sc env \<longleftrightarrow> (st_Driver sc = ''redis'' \<or> st_CounterDriver sc = ''redis'') \<and> env_redisPing env"

lemma buildStorage_result:
  assumes "buildStorage sc env = (Inr st, acts)"
  shows "st = \<lparr>stg_usage = usage_driver sc, stg_counter = counter_driver sc (have_redis sc env), stg_redis = have_redis sc env,
      stg_pg = (st_Driver sc = ''postgres'')\<rparr>"
  using assms by (simp add: buildStorage_def have_redis_def Let_def split: if_splits)

lemma buildStorage_ok:
  assumes "buildStorage sc env = (Inr st, acts)"
  shows "open_after acts {} = storage_resources st \<union> (if stg_redis st then {RedisConn} else {})"
proof -
  let ?store = "(case stg_usage st of Some d \<Rightarrow> [Opened (UsageStoreRes d)] | None \<Rightarrow> []) @
      (case stg_counter st of Some d \<Rightarrow> [Opened (CounterStoreRes d)] | None \<Rightarrow> [])"
  have store: "open_after ?store S = S \<union> (storage_resources st - {PgConn})" for S
    by (auto simp: storage_resources_def split: option.split)
  have pg: "PgConn \<in> storage_resources st \<longleftrightarrow> stg_pg st" by (auto simp: storage_resources_def split: option.split)
  have "open_after acts {} = open_after ?store ((if stg_redis st then {RedisConn} else {}) \<union> (if stg_pg st then {PgConn} else {}))"
    using assms unfolding buildStorage_result [OF assms]
    by (simp add: buildStorage_def have_redis_def Let_def split: if_splits) auto
  with store pg show ?thesis by auto
qed

lemma buildStorage_failed:
  assumes "buildStorage sc env = (Inl e, acts)"
  shows "open_after acts {} = {}" and "e \<in> {ErrConnectRedis, ErrOpenPostgres}"
  using assms by (auto simp: buildStorage_def Let_def split: if_splits)


lemma New_service_options:
  assumes "rk_Enabled (cfg_RiskControl cfg) \<Longrightarrow> engine \<noteq> None"
  shows "New (service_options uops cops cfg m st engine) = Inl e \<Longrightarrow>
      e = ErrUsageStoreRequired \<and> stg_usage st = None \<and> mc_Enabled (pc_Generic (cfg_Pow cfg))"
    and "stg_usage st \<noteq> None \<Longrightarrow> \<exists>sv. New (service_options uops cops cfg m st engine) = Inr sv"
  using assms
  by (auto simp: New_def service_options_def pending_blocker_def split: if_splits)

text \<open>The outcomes of \<^verbatim>\<open>build\<close> once the matcher is compiled and the storage is open.\<close>

lemma build_cases [consumes 1, case_names early engine service started]:
  assumes "build L uops cops env (Some cfg) = (r, acts)"
  obtains e where "r = Inl e" "\<And>x. e \<noteq> ErrBuildRiskEngine x" "open_after acts {} = {}"
  | st sacts e where "buildStorage (cfg_Storage cfg) env = (Inr st, sacts)" "r = Inl (ErrBuildRiskEngine e)"
      "acts = sacts @ (if pending_blocker cfg \<noteq> None then [Opened PendingBlockerRes, Closed PendingBlockerRes] else []) @ storageCloser st"
  | st sacts e where "buildStorage (cfg_Storage cfg) env = (Inr st, sacts)" "r = Inl (ErrBuildAuthService e)"
      "acts = sacts @ (if pending_blocker cfg \<noteq> None then [Opened PendingBlockerRes, Closed PendingBlockerRes] else []) @ storageCloser st"
  | st sacts a where "buildStorage (cfg_Storage cfg) env = (Inr st, sacts)" "r = Inr a" "app_storage a = st"
      "app_pendingBlocker a = pending_blocker cfg" "app_cleanup a = cleanup_on cfg st"
      "acts = sacts @ (if pending_blocker cfg \<noteq> None then [Opened PendingBlockerRes] else []) @
        (if cleanup_on cfg st then [CleanupStarted] else [])"
proof (cases "logging_New env (cfg_Logging cfg) \<and> (\<exists>m. app_matcher L cfg = Inr m)")
  case False
  then obtain e where "r = Inl e" "\<And>x. e \<noteq> ErrBuildRiskEngine x" "acts = []"
    using assms by (auto simp: build_def split: if_splits sum.splits)
  then show ?thesis using that(1) by simp
next
  case True
  then obtain m where lm: "logging_New env (cfg_Logging cfg)" "app_matcher L cfg = Inr m" by blast
  obtain sr sacts where bs: "buildStorage (cfg_Storage cfg) env = (sr, sacts)" by (metis prod.collapse)
  show ?thesis
  proof (cases sr)
    case (Inl e)
    with buildStorage_failed [of "cfg_Storage cfg" env e sacts] bs assms lm show ?thesis
      by (intro that(1) [of e]) (auto simp: build_def)
  next
    case (Inr st)
    note b = bs [unfolded Inr]
    show ?thesis
    proof (cases "if rk_Enabled (cfg_RiskControl cfg) then map_sum id Some (FromConfig L (cfg_RiskControl cfg)) else Inr None")
      case (Inl e)
      then show ?thesis using assms lm b by (intro that(2) [OF b, of e]) (auto simp: build_def Let_def)
    next
      case en: (Inr engine)
      show ?thesis
      proof (cases "New (service_options uops cops cfg m st engine)")
        case (Inl e)
        then show ?thesis using assms lm b en by (intro that(3) [OF b, of e]) (auto simp: build_def Let_def)
      next
        case (Inr sv)
        with assms lm b en obtain a where "r = Inr a" "app_storage a = st" "app_pendingBlocker a = pending_blocker cfg"
          "app_cleanup a = cleanup_on cfg st" "acts = sacts @ (if pending_blocker cfg \<noteq> None then [Opened PendingBlockerRes] else []) @
            (if cleanup_on cfg st then [CleanupStarted] else [])"
          by (auto simp: build_def Let_def)
        then show ?thesis by (rule that(4) [OF b])
      qed
    qed
  qed
qed

text \<open>
  A failure after the storage was opened leaves the Redis client open: the storage closer does not
  close it, and only \<^verbatim>\<open>Shutdown\<close>, which a failed start never reaches, does.
\<close>

lemma failed_start_leaks_redis:
  assumes "build L uops cops env (Some cfg) = (Inl (ErrBuildRiskEngine e), acts)"
    and "have_redis (cfg_Storage cfg) env"
  shows "open_after acts {} = {RedisConn}"
  using assms(1)
proof (cases rule: build_cases)
  case (engine st sacts e)
  with buildStorage_ok [OF engine(1)] buildStorage_result [OF engine(1)] assms(2) show ?thesis
    by (auto simp: storageCloser_closes storage_resources_def split: option.split)
qed auto

lemma built_then_shut:
  assumes "build L uops cops env (Some cfg) = (Inr a, acts)"
  shows "open_after (acts @ snd (Shutdown ok a)) {} = {}"
  using assms
proof (cases rule: build_cases)
  case (started st sacts a')
  with buildStorage_ok [OF started(1)] show ?thesis by (auto simp: Shutdown_def storageCloser_closes)
qed simp_all

definition holds_record :: "string \<Rightarrow> UsageRecord \<Rightarrow> MemUsageStore \<Rightarrow> bool" where
  "holds_record sid rec s \<longleftrightarrow> wf_map (us_records s) \<and> \<not> us_closed s \<and> map_of (us_records s) sid = Some rec"

lemma refresh_mem_store: "fst (refreshActiveGauge hasMetrics mem_usage_store sg) = fst sg"
  by (simp add: refreshActiveGauge_def mem_usage_store_def split: prod.split sum.split)

lemma cleanup_tick_keeps:
  assumes "holds_record sid rec (fst sg)" and "0 \<le> cl_ExpiredGracePeriod cc" and "t div Second \<le> ur_ExpiresAt rec"
  shows "holds_record sid rec (fst (cleanup_tick hasMetrics cc mem_usage_store t sg))"
proof -
  have "cleanup_threshold cc t \<le> t div Second"
    using assms(2) by (simp add: cleanup_threshold_def Second_def zdiv_mono1)
  with assms(1,3) have "\<not> ur_ExpiresAt rec < cleanup_threshold cc t" by simp
  with assms(1) show ?thesis
    by (auto simp: cleanup_tick_def holds_record_def mem_usage_store_def CleanupExpired_def refreshActiveGauge_def Let_def
        map_of_filter split: prod.split sum.split)
qed

section \<open>Properties\<close>

text \<open>
  C14: Start and stop leave nothing open. When the application was built, shutting it down closes
  every connection, store and limiter that was opened. When building fails, everything is
  closed again except possibly the Redis client, and everything if it was the storage that
  failed.
\<close>

theorem resources_are_released:
  assumes "build L uops cops env (Some cfg) = (r, acts)"
  shows "(case r of
      Inr a \<Rightarrow> open_after (acts @ snd (Shutdown serverOk a)) {} = {}
    | Inl e \<Rightarrow> open_after acts {} \<subseteq> {RedisConn} \<and> (e \<in> {ErrConnectRedis, ErrOpenPostgres} \<longrightarrow> open_after acts {} = {}))"
  using assms
proof (cases rule: build_cases)
  case (early e)
  then show ?thesis by simp
next
  case (engine st sacts e)
  with buildStorage_ok [OF engine(1)] show ?thesis by (auto simp: storageCloser_closes)
next
  case (service st sacts e)
  with buildStorage_ok [OF service(1)] show ?thesis by (auto simp: storageCloser_closes)
next
  case (started st sacts a)
  from built_then_shut [OF assms [unfolded started(2)]] show ?thesis unfolding started(2) by (simp only: sum.case)
qed

text \<open>
  C13: A validated configuration starts. If validation reports no problem, the logger accepts its
  settings, the backends answer and every address block of a rule parses, the application is
  built: with exactly the configured drivers, a rule engine if and only if risk control is on,
  and a limiter if and only if it is on as well.
\<close>

theorem validated_service_starts:
  assumes "Validate L cfg = Some []" and "logging_New env (cfg_Logging cfg)" and "env_redisPing env" and "env_pgOpen env"
    and "\<forall>(k, cc) \<in> set (rk_Chains (cfg_RiskControl cfg)). \<forall>r \<in> set (chc_Rules cc).
      \<forall>b \<in> set (mt_IPCIDRIn (rc_Match r)). ParseCIDR b \<noteq> None"
  shows "\<exists>a acts. build L uops cops env (Some cfg) = (Inr a, acts) \<and>
    stg_usage (app_storage a) = Some (st_Driver (cfg_Storage cfg)) \<and>
    stg_counter (app_storage a) = Some (st_CounterDriver (cfg_Storage cfg)) \<and>
    (rk_Enabled (cfg_RiskControl cfg) \<longleftrightarrow> sv_riskEngine (app_authSvc a) \<noteq> None) \<and>
    (app_pendingBlocker a \<noteq> None \<longleftrightarrow> rk_Enabled (cfg_RiskControl cfg) \<and> pendingEnabled cfg)"
proof -
  let ?sc = "cfg_Storage cfg" and ?rc = "cfg_RiskControl cfg"
  obtain m where m: "app_matcher L cfg = Inr m" using validated_parts_build [OF assms(1)] by blast
  have drivers: "st_Driver ?sc \<in> {''memory'', ''postgres'', ''redis''}" "st_CounterDriver ?sc \<in> {''memory'', ''redis''}"
    using assms(1) by (auto simp: Validate_def check_storage_def)
  obtain st sacts where b: "buildStorage ?sc env = (Inr st, sacts)"
  proof (cases "fst (buildStorage ?sc env)")
    case (Inl e)
    then have False using assms(3,4) by (simp add: buildStorage_def Let_def split: if_splits)
    then show ?thesis ..
  qed (metis prod.collapse that)
  have st: "stg_usage st = Some (st_Driver ?sc)" "stg_counter st = Some (st_CounterDriver ?sc)"
    using drivers assms(3) unfolding buildStorage_result [OF b]
    by (auto simp: usage_driver_def counter_driver_def have_redis_def)
  obtain engine where en: "(if rk_Enabled ?rc then map_sum id Some (FromConfig L ?rc) else Inr None) = Inr engine"
    "rk_Enabled ?rc \<longleftrightarrow> engine \<noteq> None"
    using validated_parts_build [OF assms(1)] assms(5) by (cases "rk_Enabled ?rc") force+
  then obtain sv where sv: "New (service_options uops cops cfg m st engine) = Inr sv"
    using New_service_options(2) [of cfg engine st uops cops m] st by auto
  have "sv_riskEngine sv = engine" using sv by (auto simp: New_def service_options_def split: if_splits)
  with assms(2) m b st en sv show ?thesis
    by (simp add: build_def pending_blocker_def Let_def)
qed

text \<open>
  Cleanup never forgets a live token. With a grace period that is not negative, any number of
  ticks of the cleanup loop over the in-memory store keep the record of a token, unchanged, as
  long as no tick comes after the token's expiry.
\<close>

theorem cleanup_keeps_live_records:
  assumes "holds_record sid rec s" and "0 \<le> cl_ExpiredGracePeriod cc" and "\<forall>t \<in> set ticks. t div Second \<le> ur_ExpiresAt rec"
  shows "holds_record sid rec (fst (cleanupLoop hasMetrics cc mem_usage_store ticks (s, gauge)))"
proof -
  have "holds_record sid rec (fst (fold (cleanup_tick hasMetrics cc mem_usage_store) ticks sg))" if "holds_record sid rec (fst sg)" for sg
    using that assms(3) by (induction ticks arbitrary: sg) (simp_all add: cleanup_tick_keeps assms(2))
  with assms(1) show ?thesis by (simp add: cleanupLoop_def refresh_mem_store)
qed


definition demo_env :: AppEnv where
  "demo_env = \<lparr>env_levelOk = (\<lambda>l. True), env_redisPing = True, env_pgOpen = True\<rparr>"

definition mem_counter_ops :: "MemCounterStore CounterOps" where
  "mem_counter_ops = \<lparr>co_Incr = (\<lambda>(t, t'). Incr t t'), co_Get = (\<lambda>(t, t'). counter_Get t)\<rparr>"

lemma demo_builds: "\<exists>a acts. build demo_lib (\<lambda>d. mem_usage_ops) (\<lambda>d. mem_counter_ops) demo_env (Some demo_config) = (Inr a, acts)"
proof -
  have "case fst (build demo_lib (\<lambda>d. mem_usage_ops) (\<lambda>d. mem_counter_ops) demo_env (Some demo_config)) of Inr a \<Rightarrow> True | Inl e \<Rightarrow> False"
    by code_simp
  then show ?thesis by (metis (no_types, lifting) old.sum.exhaust prod.collapse sum.simps(5))
qed

definition redis_down_cfg :: Config where
  "redis_down_cfg = demo_cfg\<lparr>cfg_Storage := (cfg_Storage demo_cfg)\<lparr>st_Driver := ''redis''\<rparr>\<rparr>"

theorem resources_are_released_witness:
  "fst (build demo_lib (\<lambda>d. mem_usage_ops) (\<lambda>d. mem_counter_ops) (demo_env\<lparr>env_redisPing := False\<rparr>) (Some redis_down_cfg)) = Inl ErrConnectRedis \<and>
   open_after (snd (build demo_lib (\<lambda>d. mem_usage_ops) (\<lambda>d. mem_counter_ops) (demo_env\<lparr>env_redisPing := False\<rparr>) (Some redis_down_cfg))) {} = {}"
proof -
  let ?b = "build demo_lib (\<lambda>d. mem_usage_ops) (\<lambda>d. mem_counter_ops) (demo_env\<lparr>env_redisPing := False\<rparr>) (Some redis_down_cfg)"
  have "fst ?b = Inl ErrConnectRedis"
    by (simp add: build_def logging_New_def app_matcher_def buildProtectedMatcher_def buildExcludedMatcher_def buildStorage_def
        redis_down_cfg_def demo_cfg_def demo_env_def applyDefaults_def zero_config_def default_logging_def or_string_def Let_def)
  with resources_are_released [where serverOk = True, OF prod.collapse [symmetric, of ?b]] show ?thesis by simp
qed

theorem validated_service_starts_witness:
  "\<exists>a acts. build demo_lib (\<lambda>d. mem_usage_ops) (\<lambda>d. mem_counter_ops) demo_env (Some demo_config) = (Inr a, acts) \<and>
    stg_usage (app_storage a) = Some ''memory''"
proof -
  have "logging_New demo_env (cfg_Logging demo_config)" "st_Driver (cfg_Storage demo_config) = ''memory''" 
    "\<forall>(k, cc) \<in> set (rk_Chains (cfg_RiskControl demo_config)). \<forall>r \<in> set (chc_Rules cc).
      \<forall>b \<in> set (mt_IPCIDRIn (rc_Match r)). ParseCIDR b \<noteq> None"
    by code_simp+
  moreover have "env_redisPing demo_env" "env_pgOpen demo_env" by (simp_all add: demo_env_def)
  ultimately show ?thesis
    using validated_service_starts [OF demo_config_valid, of demo_env "\<lambda>d. mem_usage_ops" "\<lambda>d. mem_counter_ops"] by fastforce
qed

theorem cleanup_keeps_live_records_witness:
  "holds_record ''a1'' (fresh_record demo_consume 1500)
     (fst (cleanupLoop True \<lparr>cl_Enabled = None, cl_Interval = Minute, cl_ExpiredGracePeriod = Minute\<rparr> mem_usage_store
        [1600 * Second, 1990 * Second] (\<lparr>us_records = [(''a1'', fresh_record demo_consume 1500)], us_closed = False\<rparr>, 0)))"
  by (rule cleanup_keeps_live_records)
    (simp_all add: holds_record_def wf_map_def fresh_record_def demo_consume_def Minute_def Second_def)

end
