(* ===== verification/ConfigStore.thy ===== *)
theory ConfigStore
  imports Pow "HOL-Library.Char_ord" "HOL-Library.List_Lexorder"
begin

text \<open>
  The configuration store (\<^verbatim>\<open>internal/configstore\<close>): one configuration file, the history of its
  revisions next to it, and a draft.

  The disk is a map from paths to contents. \<open>HostOS\<close> collects what one operation learns from
  outside: the clock, the entropy, the name that \<^verbatim>\<open>os.CreateTemp\<close> picks, which system calls fail,
  and the JSON text of a revision's metadata; \<open>host_law\<close> states what their documentation promises.
  The mutex of the store makes every operation one step. Revisions are 64-bit unsigned words.

  The lemmas give the effect of each operation on the disk and the invariant \<open>history_ok\<close> of the
  history directory; theory \<^verbatim>\<open>ConfigHistory\<close> has the properties.
\<close>

section \<open>The disk\<close>

record RevisionMeta =
  rm_Revision :: "64 word"
  rm_ParentRevision :: "64 word"
  rm_Action :: string
  rm_Actor :: string
  rm_Reason :: string
  rm_RollbackTarget :: "64 word"
  rm_Changed :: int
  rm_Danger :: string
  rm_RestartRequired :: bool
  rm_CreatedAt :: int

type_synonym files = "(string, string) gomap"

datatype atomic_step = MkdirStep | CreateTempStep | ChmodStep | WriteStep | SyncStep | CloseStep | RenameStep

text \<open>
  \<open>os_Fail\<close> names the system call that fails in a replacement of the given file, \<open>os_Torn\<close> what a
  failed write leaves in the temporary file, \<open>os_Now\<close> the readings of the clock in their order,
  \<open>os_Entropy\<close> the bytes of the random source, or none when it fails.
\<close>

record HostOS =
  os_TempName :: "string \<Rightarrow> string"
  os_Fail :: "string \<Rightarrow> atomic_step option"
  os_Torn :: "string \<Rightarrow> string"
  os_RemoveOk :: "string \<Rightarrow> bool"
  os_ReadOk :: "string \<Rightarrow> bool"
  os_MkdirOk :: bool
  os_OpenOk :: bool
  os_Abs :: "string \<Rightarrow> string option"
  os_Now :: "nat \<Rightarrow> int"
  os_Entropy :: "byte list option"
  meta_Marshal :: "RevisionMeta \<Rightarrow> string option"
  meta_Unmarshal :: "string \<Rightarrow> RevisionMeta option"

datatype cstore_error = ErrUnmanaged | ErrConflict | ErrDraftNotFound | ErrDraftExpired | ErrDraftConflict
  | ErrRevisionNotFound | ErrTooLarge | ErrIO

text \<open>\<^verbatim>\<open>filepath.Dir\<close> and \<^verbatim>\<open>filepath.Join\<close> on clean absolute paths and plain names.\<close>

definition filepath_Dir :: "string \<Rightarrow> string" where
  "filepath_Dir p =
     (case LastIndexByte p (CHR ''/'') of
        None \<Rightarrow> ''.''
      | Some i \<Rightarrow> if i = 0 then ''/'' else take i p)"

definition filepath_Join :: "string \<Rightarrow> string \<Rightarrow> string" where
  "filepath_Join dir name = (if dir = ''/'' then ''/'' @ name else dir @ ''/'' @ name)"

definition os_ReadFile :: "HostOS \<Rightarrow> string \<Rightarrow> files \<Rightarrow> string option" where
  "os_ReadFile os p fs = (if os_ReadOk os p then map_of fs p else None)"

definition os_Remove :: "HostOS \<Rightarrow> string \<Rightarrow> files \<Rightarrow> files" where
  "os_Remove os p fs = (if os_RemoveOk os p then AList.delete p fs else fs)"

definition replaceFile :: "string \<Rightarrow> string \<Rightarrow> string \<Rightarrow> files \<Rightarrow> files" where
  "replaceFile from to data fs = AList.update to data (AList.delete from fs)"

definition atomicReplace :: "HostOS \<Rightarrow> string \<Rightarrow> string \<Rightarrow> files \<Rightarrow> bool \<times> files" where
  "atomicReplace os path data fs =
     (let tmp = os_TempName os path; failed = os_Fail os path in
      if failed = Some MkdirStep \<or> failed = Some CreateTempStep then (False, fs)
      else
        let fs1 = AList.update tmp [] fs in
        if failed = Some ChmodStep then (False, os_Remove os tmp fs1)
        else if failed = Some WriteStep then (False, os_Remove os tmp (AList.update tmp (os_Torn os path) fs1))
        else
          let fs2 = AList.update tmp data fs1 in
          if failed = Some SyncStep \<or> failed = Some CloseStep \<or> failed = Some RenameStep then (False, os_Remove os tmp fs2)
          else (True, os_Remove os tmp (replaceFile tmp path data fs2)))"

section \<open>The store\<close>

definition maxDraftBytes :: nat where "maxDraftBytes = 131072"

definition historyDirName :: string where "historyDirName = ''.mirrors-waf-history''"

record Draft =
  dr_ID :: string
  dr_Revision :: "64 word"
  dr_BaseRevision :: "64 word"
  dr_Raw :: string
  dr_UpdatedAt :: int
  dr_Validated :: bool
  dr_DiffRevision :: "64 word"

record DraftSummary =
  ds_ID :: string
  ds_Revision :: "64 word"
  ds_BaseRevision :: "64 word"
  ds_UpdatedAt :: int
  ds_Validated :: bool
  ds_DiffRevision :: "64 word"

record Store =
  st_path :: string
  st_managed :: bool
  st_history :: string
  st_raw :: string
  st_revision :: "64 word"
  st_updated :: int
  st_draft :: "Draft option"
  st_pendingRestart :: bool

record Status =
  ss_Managed :: bool
  ss_Path :: string
  ss_CurrentRevision :: "64 word"
  ss_CurrentUpdatedAt :: int
  ss_PendingRestart :: bool
  ss_Draft :: "DraftSummary option"

record ApplyRequest =
  aq_Raw :: string
  aq_ExpectedRevision :: "64 word"
  aq_Actor :: string
  aq_Reason :: string
  aq_Changed :: int
  aq_Danger :: string
  aq_RestartRequired :: bool
  aq_Action :: string
  aq_RollbackTarget :: "64 word"

record ApplyResult =
  al_Revision :: "64 word"
  al_Previous :: "64 word"
  al_Meta :: RevisionMeta
  al_RestartRequired :: bool

subsection \<open>Revisions on disk\<close>

definition revisionName :: "64 word \<Rightarrow> string" where
  "revisionName revision =
     (let digits = show_nat (unat revision) in ''revision-'' @ replicate (6 - length digits) (CHR ''0'') @ digits)"

definition yaml_file :: "string \<Rightarrow> 64 word \<Rightarrow> string" where
  "yaml_file hist revision = filepath_Join hist (revisionName revision) @ ''.yaml''"

definition json_file :: "string \<Rightarrow> 64 word \<Rightarrow> string" where
  "json_file hist revision = filepath_Join hist (revisionName revision) @ ''.json''"

definition readMeta :: "HostOS \<Rightarrow> string \<Rightarrow> files \<Rightarrow> RevisionMeta option" where
  "readMeta os p fs = (case os_ReadFile os p fs of None \<Rightarrow> None | Some data \<Rightarrow> meta_Unmarshal os data)"

definition removeRevisionLocked :: "HostOS \<Rightarrow> string \<Rightarrow> 64 word \<Rightarrow> files \<Rightarrow> files" where
  "removeRevisionLocked os hist revision fs =
     os_Remove os (json_file hist revision) (os_Remove os (yaml_file hist revision) fs)"

definition writeRevisionLocked :: "HostOS \<Rightarrow> string \<Rightarrow> RevisionMeta \<Rightarrow> string \<Rightarrow> files \<Rightarrow> bool \<times> files" where
  "writeRevisionLocked os hist meta raw fs =
     (if \<not> os_MkdirOk os then (False, fs)
      else case atomicReplace os (yaml_file hist (rm_Revision meta)) raw fs of
        (False, fs1) \<Rightarrow> (False, fs1)
      | (True, fs1) \<Rightarrow>
          (case meta_Marshal os meta of
             None \<Rightarrow> (False, removeRevisionLocked os hist (rm_Revision meta) fs1)
           | Some data \<Rightarrow>
               (case atomicReplace os (json_file hist (rm_Revision meta)) data fs1 of
                  (False, fs2) \<Rightarrow> (False, removeRevisionLocked os hist (rm_Revision meta) fs2)
                | (True, fs2) \<Rightarrow> (True, fs2))))"

text \<open>The names of the JSON files in the history directory, in the order of \<^verbatim>\<open>os.ReadDir\<close>.\<close>

definition json_entries :: "string \<Rightarrow> files \<Rightarrow> string list" where
  "json_entries hist fs =
     sort (filter (\<lambda>name. CHR ''/'' \<notin> set name \<and> HasSuffix name ''.json'')
       (map (\<lambda>p. drop (length (filepath_Join hist [])) p) (filter (\<lambda>p. HasPrefix p (filepath_Join hist [])) (map fst fs))))"

fun read_metas :: "HostOS \<Rightarrow> string \<Rightarrow> files \<Rightarrow> string list \<Rightarrow> RevisionMeta list option" where
  "read_metas os hist fs [] = Some []"
| "read_metas os hist fs (name # names) =
     (case readMeta os (filepath_Join hist name) fs of
        None \<Rightarrow> None
      | Some meta \<Rightarrow> map_option (Cons meta) (read_metas os hist fs names))"

definition readMetasLocked :: "HostOS \<Rightarrow> string \<Rightarrow> files \<Rightarrow> RevisionMeta list option" where
  "readMetasLocked os hist fs = (if os_ReadOk os hist then read_metas os hist fs (json_entries hist fs) else None)"

subsection \<open>Opening\<close>

fun load_items :: "RevisionMeta list \<Rightarrow> Store \<Rightarrow> Store" where
  "load_items [] s = s"
| "load_items (item # items) s =
     load_items items
       (if st_revision s < rm_Revision item then s\<lparr>st_revision := rm_Revision item, st_updated := rm_CreatedAt item\<rparr> else s)"

definition loadHistory :: "HostOS \<Rightarrow> files \<Rightarrow> Store \<Rightarrow> Store option" where
  "loadHistory os fs s =
     (case readMetasLocked os (st_history s) fs of None \<Rightarrow> None | Some items \<Rightarrow> Some (load_items items s))"

definition zero_meta :: RevisionMeta where
  "zero_meta = \<lparr>rm_Revision = 0, rm_ParentRevision = 0, rm_Action = [], rm_Actor = [], rm_Reason = [], rm_RollbackTarget = 0,
     rm_Changed = 0, rm_Danger = [], rm_RestartRequired = False, rm_CreatedAt = 0\<rparr>"

definition empty_store :: "string \<Rightarrow> string \<Rightarrow> bool \<Rightarrow> Store" where
  "empty_store path raw managed =
     \<lparr>st_path = path, st_managed = managed, st_history = [], st_raw = raw, st_revision = 0, st_updated = 0,
      st_draft = None, st_pendingRestart = False\<rparr>"

text \<open>The end of \<^verbatim>\<open>New\<close>: the first revision, or one for an edit made while no store was open.\<close>

definition reconcile :: "HostOS \<Rightarrow> Store \<Rightarrow> files \<Rightarrow> (cstore_error + Store) \<times> files" where
  "reconcile os s fs =
     (if st_revision s = 0 then
        case writeRevisionLocked os (st_history s)
            (zero_meta\<lparr>rm_Revision := 1, rm_Action := ''bootstrap'', rm_CreatedAt := os_Now os 0\<rparr>) (st_raw s) fs of
          (False, fs') \<Rightarrow> (Inl ErrIO, fs')
        | (True, fs') \<Rightarrow> (Inr (s\<lparr>st_revision := 1, st_updated := os_Now os 1\<rparr>), fs')
      else
        case os_ReadFile os (yaml_file (st_history s) (st_revision s)) fs of
          None \<Rightarrow> (Inl ErrIO, fs)
        | Some latest \<Rightarrow>
            if latest = st_raw s then (Inr s, fs)
            else
              let next = st_revision s + 1;
                  meta = zero_meta\<lparr>rm_Revision := next, rm_ParentRevision := st_revision s, rm_Action := ''external'',
                    rm_CreatedAt := os_Now os 0\<rparr>
              in case writeRevisionLocked os (st_history s) meta (st_raw s) fs of
                   (False, fs') \<Rightarrow> (Inl ErrIO, fs')
                 | (True, fs') \<Rightarrow> (Inr (s\<lparr>st_revision := next, st_updated := rm_CreatedAt meta\<rparr>), fs'))"

definition New_store :: "golib \<Rightarrow> HostOS \<Rightarrow> string \<Rightarrow> string \<Rightarrow> bool \<Rightarrow> files \<Rightarrow> (cstore_error + Store) \<times> files" where
  "New_store L os path raw managed fs =
     (if \<not> managed then (Inr (empty_store path raw managed), fs)
      else if TrimSpace L path = [] then (Inl ErrUnmanaged, fs)
      else case os_Abs os path of
        None \<Rightarrow> (Inl ErrIO, fs)
      | Some full \<Rightarrow>
          if \<not> os_OpenOk os \<or> map_of fs full = None then (Inl ErrIO, fs)
          else
            let s = (empty_store full raw managed)\<lparr>st_history := filepath_Join (filepath_Dir full) historyDirName\<rparr> in
            if \<not> os_MkdirOk os then (Inl ErrIO, fs)
            else case loadHistory os fs s of
              None \<Rightarrow> (Inl ErrIO, fs)
            | Some s' \<Rightarrow> reconcile os s' fs)"

subsection \<open>Status and drafts\<close>

definition draftSummary :: "Draft \<Rightarrow> DraftSummary" where
  "draftSummary d = \<lparr>ds_ID = dr_ID d, ds_Revision = dr_Revision d, ds_BaseRevision = dr_BaseRevision d,
     ds_UpdatedAt = dr_UpdatedAt d, ds_Validated = dr_Validated d, ds_DiffRevision = dr_DiffRevision d\<rparr>"

definition store_Status :: "Store \<Rightarrow> Status" where
  "store_Status s = \<lparr>ss_Managed = st_managed s, ss_Path = st_path s, ss_CurrentRevision = st_revision s,
     ss_CurrentUpdatedAt = st_updated s, ss_PendingRestart = st_pendingRestart s, ss_Draft = map_option draftSummary (st_draft s)\<rparr>"

definition Current :: "Store \<Rightarrow> 64 word \<times> string" where
  "Current s = (st_revision s, st_raw s)"

text \<open>\<^verbatim>\<open>strconv.FormatInt(n, 36)\<close> on the readings of the clock.\<close>

fun show_base36 :: "nat \<Rightarrow> string" where
  "show_base36 n = (if n < 36 then [''0123456789abcdefghijklmnopqrstuvwxyz'' ! n]
     else show_base36 (n div 36) @ [''0123456789abcdefghijklmnopqrstuvwxyz'' ! (n mod 36)])"

definition randomID :: "HostOS \<Rightarrow> string" where
  "randomID os =
     (case os_Entropy os of
        Some b \<Rightarrow> hex_EncodeToString (take 16 b)
      | None \<Rightarrow> (if os_Now os 0 < 0 then ''-'' else []) @ show_base36 (nat (abs (os_Now os 0))))"

definition SaveDraft :: "HostOS \<Rightarrow> 64 word \<Rightarrow> string \<Rightarrow> 64 word \<Rightarrow> string \<Rightarrow> Store \<Rightarrow> (cstore_error + Draft) \<times> Store" where
  "SaveDraft os base sid expectedRevision raw s =
     (let baseRevision = (if base = 0 then st_revision s else base) in
      if \<not> st_managed s then (Inl ErrUnmanaged, s)
      else if length raw > maxDraftBytes then (Inl ErrTooLarge, s)
      else if baseRevision \<noteq> st_revision s then (Inl ErrConflict, s)
      else
        let refused = (case st_draft s of
              Some d \<Rightarrow> if sid = [] \<or> sid \<noteq> dr_ID d \<or> expectedRevision \<noteq> dr_Revision d then Some ErrDraftConflict else None
            | None \<Rightarrow> if sid \<noteq> [] then Some ErrDraftNotFound else None)
        in case refused of
             Some e \<Rightarrow> (Inl e, s)
           | None \<Rightarrow>
               let d = \<lparr>dr_ID = (if sid = [] then randomID os else sid),
                     dr_Revision = (case st_draft s of Some d \<Rightarrow> dr_Revision d + 1 | None \<Rightarrow> 1),
                     dr_BaseRevision = baseRevision, dr_Raw = raw, dr_UpdatedAt = os_Now os 1,
                     dr_Validated = False, dr_DiffRevision = 0\<rparr>
               in (Inr d, s\<lparr>st_draft := Some d\<rparr>))"

definition GetDraft :: "HostOS \<Rightarrow> string \<Rightarrow> Store \<Rightarrow> (cstore_error + Draft) \<times> Store" where
  "GetDraft os sid s =
     (case st_draft s of
        None \<Rightarrow> (Inl ErrDraftNotFound, s)
      | Some d \<Rightarrow>
          if sid \<noteq> [] \<and> dr_ID d \<noteq> sid then (Inl ErrDraftNotFound, s)
          else if os_Now os 0 - dr_UpdatedAt d > 24 * 3600 * 10 ^ 9 then (Inl ErrDraftExpired, s\<lparr>st_draft := None\<rparr>)
          else (Inr d, s))"

definition MarkDraftValidated :: "string \<Rightarrow> 64 word \<Rightarrow> 64 word \<Rightarrow> Store \<Rightarrow> cstore_error option \<times> Store" where
  "MarkDraftValidated sid revision diffRevision s =
     (case st_draft s of
        None \<Rightarrow> (Some ErrDraftNotFound, s)
      | Some d \<Rightarrow>
          if dr_ID d \<noteq> sid then (Some ErrDraftNotFound, s)
          else if dr_Revision d \<noteq> revision then (Some ErrDraftConflict, s)
          else (None, s\<lparr>st_draft := Some (d\<lparr>dr_Validated := True, dr_DiffRevision := diffRevision\<rparr>)\<rparr>))"

definition DiscardDraft :: "string \<Rightarrow> 64 word \<Rightarrow> Store \<Rightarrow> cstore_error option \<times> Store" where
  "DiscardDraft sid expectedRevision s =
     (if \<not> st_managed s then (Some ErrUnmanaged, s)
      else case st_draft s of
        None \<Rightarrow> (Some ErrDraftNotFound, s)
      | Some d \<Rightarrow>
          if dr_ID d \<noteq> sid then (Some ErrDraftNotFound, s)
          else if expectedRevision \<noteq> 0 \<and> dr_Revision d \<noteq> expectedRevision then (Some ErrDraftConflict, s)
          else (None, s\<lparr>st_draft := None\<rparr>))"

subsection \<open>Applying a candidate, and the history\<close>

definition checkExternalLocked :: "HostOS \<Rightarrow> Store \<Rightarrow> files \<Rightarrow> cstore_error option" where
  "checkExternalLocked os s fs =
     (if \<not> st_managed s then Some ErrUnmanaged
      else case os_ReadFile os (st_path s) fs of
        None \<Rightarrow> Some ErrIO
      | Some raw \<Rightarrow> if raw \<noteq> st_raw s then Some ErrConflict else None)"

definition apply_meta :: "HostOS \<Rightarrow> ApplyRequest \<Rightarrow> Store \<Rightarrow> RevisionMeta" where
  "apply_meta os req s =
     \<lparr>rm_Revision = st_revision s + 1, rm_ParentRevision = st_revision s,
      rm_Action = (if aq_Action req = [] then ''apply'' else aq_Action req), rm_Actor = aq_Actor req, rm_Reason = aq_Reason req,
      rm_RollbackTarget = aq_RollbackTarget req, rm_Changed = aq_Changed req, rm_Danger = aq_Danger req,
      rm_RestartRequired = aq_RestartRequired req, rm_CreatedAt = os_Now os 0\<rparr>"

definition applied :: "ApplyRequest \<Rightarrow> RevisionMeta \<Rightarrow> Store \<Rightarrow> Store" where
  "applied req meta s =
     s\<lparr>st_raw := aq_Raw req, st_revision := rm_Revision meta, st_updated := rm_CreatedAt meta, st_pendingRestart := True,
       st_draft := None\<rparr>"

definition Apply :: "HostOS \<Rightarrow> ApplyRequest \<Rightarrow> Store \<Rightarrow> files \<Rightarrow> (cstore_error + ApplyResult) \<times> Store \<times> files" where
  "Apply os req s fs =
     (if \<not> st_managed s then (Inl ErrUnmanaged, s, fs)
      else case checkExternalLocked os s fs of
        Some e \<Rightarrow> (Inl e, s, fs)
      | None \<Rightarrow>
          if aq_ExpectedRevision req \<noteq> 0 \<and> aq_ExpectedRevision req \<noteq> st_revision s then (Inl ErrConflict, s, fs)
          else if length (aq_Raw req) > maxDraftBytes then (Inl ErrTooLarge, s, fs)
          else
            let meta = apply_meta os req s in
            case writeRevisionLocked os (st_history s) meta (aq_Raw req) fs of
              (False, fs1) \<Rightarrow> (Inl ErrIO, s, fs1)
            | (True, fs1) \<Rightarrow>
                (case atomicReplace os (st_path s) (aq_Raw req) fs1 of
                   (False, fs2) \<Rightarrow> (Inl ErrIO, s, removeRevisionLocked os (st_history s) (rm_Revision meta) fs2)
                 | (True, fs2) \<Rightarrow>
                     (Inr \<lparr>al_Revision = rm_Revision meta, al_Previous = st_revision s, al_Meta = meta,
                        al_RestartRequired = aq_RestartRequired req\<rparr>,
                      applied req meta s, fs2)))"

definition History :: "HostOS \<Rightarrow> int \<Rightarrow> Store \<Rightarrow> files \<Rightarrow> cstore_error + RevisionMeta list" where
  "History os limit s fs =
     (if \<not> st_managed s then Inl ErrUnmanaged
      else case readMetasLocked os (st_history s) fs of
        None \<Rightarrow> Inl ErrIO
      | Some items \<Rightarrow>
          Inr (take (nat (if limit \<le> 0 \<or> limit > 200 then 50 else limit)) (rev (sort_key rm_Revision items))))"

definition HistoryGet :: "HostOS \<Rightarrow> 64 word \<Rightarrow> Store \<Rightarrow> files \<Rightarrow> cstore_error + RevisionMeta \<times> string" where
  "HistoryGet os revision s fs =
     (if \<not> st_managed s \<or> revision = 0 then Inl ErrRevisionNotFound
      else if map_of fs (json_file (st_history s) revision) = None then Inl ErrRevisionNotFound
      else case readMeta os (json_file (st_history s) revision) fs of
        None \<Rightarrow> Inl ErrIO
      | Some meta \<Rightarrow>
          (case os_ReadFile os (yaml_file (st_history s) revision) fs of
             None \<Rightarrow> Inl ErrIO
           | Some raw \<Rightarrow> Inr (meta, raw)))"

declare show_base36.simps [simp del]

section \<open>Names of files\<close>

lemma read_nat_zeros: "read_nat (replicate k (CHR ''0'') @ ds) = read_nat ds"
  unfolding read_nat_def by (induction k) (auto simp: digit_val_def)

lemma revisionName_inject [simp]: "revisionName a = revisionName b \<longleftrightarrow> a = b"
proof
  assume "revisionName a = revisionName b"
  then have "read_nat (drop 9 (revisionName a)) = read_nat (drop 9 (revisionName b))" by simp
  then show "a = b" by (simp add: revisionName_def Let_def read_nat_zeros unsigned_word_eqI)
qed simp

lemma slash_notin_revisionName [simp]: "CHR ''/'' \<notin> set (revisionName r)"
proof -
  have "CHR ''/'' \<notin> set (show_nat n)" for n
    using show_nat_hd [of "CHR ''/''" n] by (auto simp: is_digit_def)
  then show ?thesis by (auto simp: revisionName_def Let_def)
qed

definition dir_prefix :: "string \<Rightarrow> string" where
  "dir_prefix dir = (if dir = ''/'' then [] else dir)"

lemma filepath_Join_eq: "filepath_Join dir name = dir_prefix dir @ CHR ''/'' # name"
  by (simp add: filepath_Join_def dir_prefix_def)

lemma filepath_Join_inject [simp]: "filepath_Join dir a = filepath_Join dir b \<longleftrightarrow> a = b"
  by (simp add: filepath_Join_eq)

lemma filepath_Dir_Join:
  assumes "CHR ''/'' \<notin> set name" and "dir \<noteq> []"
  shows "filepath_Dir (filepath_Join dir name) = dir"
  using assms LastIndexByte_append [of "CHR ''/''" name "dir_prefix dir"]
  by (auto simp: filepath_Dir_def filepath_Join_eq dir_prefix_def)

text \<open>What \<^verbatim>\<open>filepath.Abs\<close> returns: an absolute path without empty components.\<close>

definition clean_path :: "string \<Rightarrow> bool" where
  "clean_path p \<longleftrightarrow> HasPrefix p ''/'' \<and> \<not> Contains p ''//''"

lemma filepath_split:
  assumes "clean_path p"
  obtains name where "p = filepath_Join (filepath_Dir p) name" and "CHR ''/'' \<notin> set name" and "filepath_Dir p \<noteq> []"
proof -
  from assms have "CHR ''/'' \<in> set p" by (auto simp: clean_path_def HasPrefix_def prefix_def)
  then obtain a name where p: "p = a @ CHR ''/'' # name" and n: "CHR ''/'' \<notin> set name"
    by (metis split_list_last)
  have d: "filepath_Dir p = (if a = [] then ''/'' else a)"
    using LastIndexByte_append [OF n, of a] p by (auto simp: filepath_Dir_def)
  have "a \<noteq> ''/''"
  proof
    assume "a = ''/''"
    with p have "sublist ''//'' p" by (simp add: sublist_Cons_right)
    with assms show False by (simp add: clean_path_def Contains_def)
  qed
  with p d have "p = filepath_Join (filepath_Dir p) name" by (simp add: filepath_Join_eq dir_prefix_def)
  with n d that show thesis by auto
qed

definition layout :: "Store \<Rightarrow> bool" where
  "layout s \<longleftrightarrow> st_managed s \<and> clean_path (st_path s) \<and> st_history s = filepath_Join (filepath_Dir (st_path s)) historyDirName"

lemma layout_history:
  assumes "layout s"
  shows "filepath_Join (st_history s) x = dir_prefix (filepath_Dir (st_path s)) @ CHR ''/'' # historyDirName @ CHR ''/'' # x"
proof -
  have "st_history s = dir_prefix (filepath_Dir (st_path s)) @ CHR ''/'' # historyDirName"
    using assms by (simp add: layout_def filepath_Join_eq)
  moreover have "d @ CHR ''/'' # historyDirName \<noteq> ''/''" for d
    by (cases d) (simp_all add: historyDirName_def)
  ultimately have "dir_prefix (st_history s) = dir_prefix (filepath_Dir (st_path s)) @ CHR ''/'' # historyDirName"
    by (metis dir_prefix_def)
  then show ?thesis by (simp add: filepath_Join_eq)
qed

lemma yaml_file_inject [simp]: "yaml_file h a = yaml_file h b \<longleftrightarrow> a = b"
  by (simp add: yaml_file_def)

lemma json_file_inject [simp]: "json_file h a = json_file h b \<longleftrightarrow> a = b"
  by (simp add: json_file_def)

lemma yaml_json_distinct [simp]: "yaml_file h a \<noteq> json_file h b" "json_file h b \<noteq> yaml_file h a"
proof -
  have "last (yaml_file h a) \<noteq> last (json_file h b)" by (simp add: yaml_file_def json_file_def)
  then show "yaml_file h a \<noteq> json_file h b" "json_file h b \<noteq> yaml_file h a" by metis+
qed

lemma path_not_history_name:
  assumes "layout s"
  shows "st_path s \<noteq> filepath_Join (st_history s) x" and "filepath_Join (st_history s) x \<noteq> st_path s"
proof -
  from assms have "clean_path (st_path s)" by (simp add: layout_def)
  then obtain name where p: "st_path s = filepath_Join (filepath_Dir (st_path s)) name" and n: "CHR ''/'' \<notin> set name"
    by (rule filepath_split)
  show "st_path s \<noteq> filepath_Join (st_history s) x"
  proof
    assume "st_path s = filepath_Join (st_history s) x"
    with p have "filepath_Join (filepath_Dir (st_path s)) name = filepath_Join (st_history s) x" by simp
    then have "name = historyDirName @ CHR ''/'' # x"
      using layout_history [OF assms, of x] by (simp add: filepath_Join_eq [of "filepath_Dir (st_path s)"])
    with n show False by simp
  qed
  then show "filepath_Join (st_history s) x \<noteq> st_path s" by metis
qed

lemma path_not_revision [simp]:
  assumes "layout s"
  shows "st_path s \<noteq> yaml_file (st_history s) r" and "st_path s \<noteq> json_file (st_history s) r"
    and "yaml_file (st_history s) r \<noteq> st_path s" and "json_file (st_history s) r \<noteq> st_path s"
  using path_not_history_name [OF assms, of "revisionName r @ ''.yaml''"] path_not_history_name [OF assms, of "revisionName r @ ''.json''"]
  by (simp_all add: yaml_file_def json_file_def filepath_Join_eq)

section \<open>What the host promises\<close>

text \<open>
  \<^verbatim>\<open>os.CreateTemp\<close> picks a new name with the given prefix in the given directory, and the text that
  \<^verbatim>\<open>json.MarshalIndent\<close> writes is read back by \<^verbatim>\<open>json.Unmarshal\<close> (so the metadata is valid UTF-8; the
  encoder replaces other bytes). Two more are assumptions and not promises of the system: that
  \<^verbatim>\<open>os.Remove\<close>, whose error the code drops, succeeds, and that files can be read. Everything else
  may fail, at any step.
\<close>

definition temp_law :: "HostOS \<Rightarrow> files \<Rightarrow> bool" where
  "temp_law os fs \<longleftrightarrow>
     (\<forall>p. map_of fs (os_TempName os p) = None \<and>
       (\<exists>r. os_TempName os p = filepath_Join (filepath_Dir p) (''.mirrors-waf-tmp-'' @ r)))"

definition host_law :: "(string \<Rightarrow> RevisionMeta option) \<Rightarrow> HostOS \<Rightarrow> files \<Rightarrow> bool" where
  "host_law U os fs \<longleftrightarrow>
     temp_law os fs \<and> meta_Unmarshal os = U \<and> (\<forall>m d. meta_Marshal os m = Some d \<longrightarrow> U d = Some m) \<and>
     (\<forall>p. os_RemoveOk os p \<and> os_ReadOk os p)"

lemma layout_history_nonempty: "layout s \<Longrightarrow> st_history s \<noteq> []"
  by (simp add: layout_def filepath_Join_eq)

lemma dir_of_revision_files [simp]:
  assumes "layout s"
  shows "filepath_Dir (yaml_file (st_history s) r) = st_history s" and "filepath_Dir (json_file (st_history s) r) = st_history s"
  using filepath_Dir_Join [of "revisionName r @ ''.yaml''" "st_history s"] filepath_Dir_Join [of "revisionName r @ ''.json''" "st_history s"]
    layout_history_nonempty [OF assms]
  by (simp_all add: yaml_file_def json_file_def filepath_Join_eq)

lemma temp_not_revision:
  assumes "layout s" and "temp_law os fs" and "filepath_Dir p = st_history s \<or> p = st_path s"
  shows "os_TempName os p \<noteq> yaml_file (st_history s) r" and "os_TempName os p \<noteq> json_file (st_history s) r"
proof -
  from assms(2) obtain r0 where t: "os_TempName os p = filepath_Join (filepath_Dir p) (''.mirrors-waf-tmp-'' @ r0)"
    unfolding temp_law_def by blast
  have rn: "revisionName r = CHR ''r'' # tl (revisionName r)" for r
    by (simp add: revisionName_def Let_def)
  have other: "os_TempName os p \<noteq> filepath_Join (st_history s) (revisionName r) @ e" for r e
  proof (cases "filepath_Dir p = st_history s")
    case True
    then show ?thesis using t by (simp add: filepath_Join_eq) (subst rn, simp)
  next
    case False
    with assms(3) t have "os_TempName os p = dir_prefix (filepath_Dir (st_path s)) @ CHR ''/'' # ''.mirrors-waf-tmp-'' @ r0"
      by (simp add: filepath_Join_eq)
    then show ?thesis by (simp add: layout_history [OF assms(1)] historyDirName_def)
  qed
  from other show "os_TempName os p \<noteq> yaml_file (st_history s) r" "os_TempName os p \<noteq> json_file (st_history s) r"
    by (simp_all add: yaml_file_def json_file_def)
qed

section \<open>Effects on the disk\<close>

lemma atomicReplace_effect:
  assumes "map_of fs (os_TempName os p) = None" and "os_RemoveOk os (os_TempName os p)" and "os_TempName os p \<noteq> p"
    and "atomicReplace os p data fs = (ok, fs')"
  shows "map_of fs' = (if ok then (map_of fs)(p \<mapsto> data) else map_of fs)"
proof -
  have "(map_of fs)(os_TempName os p := None) = map_of fs"
    using assms(1) by auto
  then show ?thesis
    using assms by (auto simp: atomicReplace_def Let_def os_Remove_def replaceFile_def fun_upd_twist split: if_splits)
qed

lemma temp_law_grow:
  assumes "temp_law os fs" and "dom (map_of fs') \<subseteq> dom (map_of fs) \<union> S" and "\<And>p. p \<in> P \<Longrightarrow> os_TempName os p \<notin> S" and "p \<in> P"
  shows "map_of fs' (os_TempName os p) = None"
  using assms unfolding temp_law_def by blast

text \<open>No file of this revision is on disk.\<close>

definition revision_free :: "string \<Rightarrow> 64 word \<Rightarrow> files \<Rightarrow> bool" where
  "revision_free h r fs \<longleftrightarrow> map_of fs (yaml_file h r) = None \<and> map_of fs (json_file h r) = None"

lemma host_lawD:
  assumes "host_law U os fs"
  shows "temp_law os fs" and "os_RemoveOk os p" and "os_ReadOk os p" and "meta_Unmarshal os = U"
    and "meta_Marshal os m = Some d \<Longrightarrow> U d = Some m" and "map_of fs (os_TempName os p) = None"
  using assms unfolding host_law_def temp_law_def by blast+

lemma removeRevision_effect:
  assumes "host_law U os fs0"
  shows "map_of (removeRevisionLocked os h r fs) = (map_of fs)(yaml_file h r := None, json_file h r := None)"
  using host_lawD(2) [OF assms] by (simp add: removeRevisionLocked_def os_Remove_def)

lemma remove_written:
  assumes "revision_free h r fs"
  shows "(map_of fs)(yaml_file h r := x, yaml_file h r := None, json_file h r := None) = map_of fs"
    and "(map_of fs)(yaml_file h r := x, json_file h r := y, yaml_file h r := None, json_file h r := None) = map_of fs"
  using assms by (auto simp: revision_free_def fun_eq_iff)

lemma writeRevision_effect:
  assumes l: "layout s" and h: "host_law U os fs" and f: "revision_free (st_history s) (rm_Revision meta) fs"
    and w: "writeRevisionLocked os (st_history s) meta raw fs = (ok, fs')"
  shows "(\<not> ok \<longrightarrow> map_of fs' = map_of fs) \<and>
    (ok \<longrightarrow> (\<exists>d. meta_Marshal os meta = Some d \<and>
      map_of fs' = (map_of fs)(yaml_file (st_history s) (rm_Revision meta) \<mapsto> raw, json_file (st_history s) (rm_Revision meta) \<mapsto> d)))"
proof -
  let ?y = "yaml_file (st_history s) (rm_Revision meta)" and ?j = "json_file (st_history s) (rm_Revision meta)"
  note t = temp_not_revision [OF l host_lawD(1) [OF h]]
  obtain ok1 fs1 where a1: "atomicReplace os ?y raw fs = (ok1, fs1)" by fastforce
  have e1: "map_of fs1 = (if ok1 then (map_of fs)(?y \<mapsto> raw) else map_of fs)"
    by (rule atomicReplace_effect [OF _ _ _ a1]) (simp_all add: host_lawD [OF h] t l)
  have e2: "map_of fs2 = (if ok2 then (map_of fs1)(?j \<mapsto> d) else map_of fs1)" if "atomicReplace os ?j d fs1 = (ok2, fs2)" for d ok2 fs2
    by (rule atomicReplace_effect [OF _ _ _ that]) (simp_all add: e1 host_lawD [OF h] t l)
  show ?thesis
    using w a1 e1 e2 remove_written [OF f] removeRevision_effect [OF h]
    by (auto simp: writeRevisionLocked_def split: if_splits bool.splits option.splits prod.splits)
qed

text \<open>The files after a candidate has been installed.\<close>

definition installed :: "Store \<Rightarrow> RevisionMeta \<Rightarrow> string \<Rightarrow> string \<Rightarrow> (string \<Rightarrow> string option) \<Rightarrow> string \<Rightarrow> string option" where
  "installed s meta d raw m =
     m(yaml_file (st_history s) (rm_Revision meta) \<mapsto> raw, json_file (st_history s) (rm_Revision meta) \<mapsto> d, st_path s \<mapsto> raw)"

definition accepts :: "HostOS \<Rightarrow> ApplyRequest \<Rightarrow> Store \<Rightarrow> files \<Rightarrow> bool" where
  "accepts os req s fs \<longleftrightarrow>
     st_managed s \<and> map_of fs (st_path s) = Some (st_raw s) \<and>
     (aq_ExpectedRevision req = 0 \<or> aq_ExpectedRevision req = st_revision s) \<and> length (aq_Raw req) \<le> maxDraftBytes"

lemma Apply_meta: "Apply os req s fs = (Inr res, s', fs') \<Longrightarrow> al_Meta res = apply_meta os req s"
  by (auto simp: Apply_def Let_def split: if_splits option.splits prod.splits bool.splits)

lemma Apply_effect:
  assumes l: "layout s" and h: "host_law U os fs" and f: "revision_free (st_history s) (st_revision s + 1) fs"
    and w: "Apply os req s fs = (r, s', fs')"
  shows "(\<forall>e. r = Inl e \<longrightarrow> s' = s \<and> map_of fs' = map_of fs) \<and>
    (\<forall>res. r = Inr res \<longrightarrow> accepts os req s fs \<and> al_Meta res = apply_meta os req s \<and> al_Revision res = st_revision s + 1 \<and>
      s' = applied req (apply_meta os req s) s \<and>
      (\<exists>d. meta_Marshal os (apply_meta os req s) = Some d \<and> map_of fs' = installed s (apply_meta os req s) d (aq_Raw req) (map_of fs)))"
proof (cases "checkExternalLocked os s fs = None \<and> accepts os req s fs")
  case False
  then show ?thesis
    using w host_lawD(3) [OF h] by (auto simp: Apply_def accepts_def checkExternalLocked_def os_ReadFile_def split: option.splits if_splits)
next
  case True
  let ?m = "apply_meta os req s"
  have rm: "rm_Revision ?m = st_revision s + 1" by (simp add: apply_meta_def)
  obtain ok1 fs1 where w1: "writeRevisionLocked os (st_history s) ?m (aq_Raw req) fs = (ok1, fs1)" by fastforce
  note e1 = writeRevision_effect [OF l h _ w1, unfolded rm, OF f]
  obtain ok2 fs2 where w2: "atomicReplace os (st_path s) (aq_Raw req) fs1 = (ok2, fs2)" by fastforce
  have "os_TempName os (st_path s) \<noteq> st_path s"
    using True host_lawD(6) [OF h, of "st_path s"] by (auto simp: accepts_def)
  moreover have "map_of fs1 (os_TempName os (st_path s)) = None"
    using e1 temp_not_revision [OF l host_lawD(1) [OF h], of "st_path s"] host_lawD(6) [OF h, of "st_path s"]
    by (cases ok1) auto
  ultimately have e2: "map_of fs2 = (if ok2 then (map_of fs1)(st_path s \<mapsto> aq_Raw req) else map_of fs1)"
    using atomicReplace_effect [OF _ _ _ w2] host_lawD(2) [OF h] by blast
  show ?thesis
    using True w w1 w2 e1 e2 remove_written [OF f] removeRevision_effect [OF h] rm
    by (auto simp: Apply_def accepts_def installed_def Let_def split: if_splits bool.splits)
qed

section \<open>The history as an invariant\<close>

text \<open>
  The revision in the store is the newest one on disk and holds the text of the store; every
  metadata file is named after the revision it describes, and none is newer.
\<close>

definition names_revision :: "(string \<Rightarrow> RevisionMeta option) \<Rightarrow> 64 word \<Rightarrow> string \<Rightarrow> string \<Rightarrow> bool" where
  "names_revision U top_rev name d \<longleftrightarrow>
     (\<exists>m. U d = Some m \<and> name = revisionName (rm_Revision m) @ ''.json'' \<and> rm_Revision m \<le> top_rev)"

definition history_ok :: "(string \<Rightarrow> RevisionMeta option) \<Rightarrow> Store \<Rightarrow> (string \<Rightarrow> string option) \<Rightarrow> bool" where
  "history_ok U s m \<longleftrightarrow>
     layout s \<and> st_revision s \<noteq> 0 \<and>
     m (yaml_file (st_history s) (st_revision s)) = Some (st_raw s) \<and> m (json_file (st_history s) (st_revision s)) \<noteq> None \<and>
     (\<forall>r. m (yaml_file (st_history s) r) \<noteq> None \<longrightarrow> r \<le> st_revision s) \<and>
     (\<forall>name d. CHR ''/'' \<notin> set name \<longrightarrow> HasSuffix name ''.json'' \<longrightarrow> m (filepath_Join (st_history s) name) = Some d \<longrightarrow>
        names_revision U (st_revision s) name d)"

lemma json_entries_iff:
  "name \<in> set (json_entries h fs) \<longleftrightarrow>
     CHR ''/'' \<notin> set name \<and> HasSuffix name ''.json'' \<and> map_of fs (filepath_Join h name) \<noteq> None"
proof -
  have j: "filepath_Join h name = filepath_Join h [] @ name" for name by (simp add: filepath_Join_eq)
  have "(\<exists>p \<in> fst ` set fs. HasPrefix p (filepath_Join h []) \<and> name = drop (length (filepath_Join h [])) p) \<longleftrightarrow>
      filepath_Join h name \<in> fst ` set fs"
    unfolding j [of name] HasPrefix_def prefix_def by (metis (no_types) append_eq_conv_conj)
  then show ?thesis
    by (simp add: json_entries_def map_of_eq_None_iff) (auto simp: image_iff)
qed

lemma json_file_Join: "json_file h r = filepath_Join h (revisionName r @ ''.json'')"
  by (simp add: json_file_def filepath_Join_eq)

lemma yaml_not_json_name: "HasSuffix name ''.json'' \<Longrightarrow> filepath_Join h name \<noteq> yaml_file h r"
proof
  assume "HasSuffix name ''.json''" and "filepath_Join h name = yaml_file h r"
  then have "last (filepath_Join h name) \<noteq> last (yaml_file h r)"
    by (auto simp: HasSuffix_def suffix_def filepath_Join_eq yaml_file_def)
  with \<open>filepath_Join h name = yaml_file h r\<close> show False by simp
qed

lemma history_okD:
  assumes "history_ok U s m"
  shows "layout s" and "st_managed s" and "st_revision s \<noteq> 0" and "m (yaml_file (st_history s) (st_revision s)) = Some (st_raw s)"
    and "m (yaml_file (st_history s) r) \<noteq> None \<Longrightarrow> r \<le> st_revision s"
    and "m (json_file (st_history s) (st_revision s)) \<noteq> None"
    and "CHR ''/'' \<notin> set name \<Longrightarrow> HasSuffix name ''.json'' \<Longrightarrow> m (filepath_Join (st_history s) name) = Some d \<Longrightarrow>
      names_revision U (st_revision s) name d"
  using assms unfolding history_ok_def layout_def by blast+

lemma json_revision_bound:
  assumes "history_ok U s m" and "m (json_file (st_history s) r) \<noteq> None"
  shows "r \<le> st_revision s"
proof -
  from assms(2) obtain d where "m (filepath_Join (st_history s) (revisionName r @ ''.json'')) = Some d"
    by (auto simp: json_file_Join)
  with history_okD(7) [OF assms(1), of "revisionName r @ ''.json''" d] show ?thesis
    by (auto simp: names_revision_def HasSuffix_def suffix_def)
qed

lemma word_next: "x < - 1 \<Longrightarrow> x < x + 1" for x :: "64 word"
proof -
  assume "x < - 1"
  moreover have "unat (- 1 :: 64 word) = 2 ^ 64 - 1" by (simp add: unsigned_minus_1_eq_mask mask_eq_exp_minus_1)
  ultimately have "unat x + 1 < 2 ^ 64" by (simp only: word_less_nat_alt)
  then have "unat (x + 1) = unat x + 1" by (simp add: unat_word_ariths)
  then show ?thesis by (simp add: word_less_nat_alt)
qed

lemma next_revision_free:
  assumes ok: "history_ok U s (map_of fs)" and lim: "st_revision s < - 1"
  shows "revision_free (st_history s) (st_revision s + 1) fs"
proof -
  have "\<not> st_revision s + 1 \<le> st_revision s" using word_next [OF lim] by simp
  then have "map_of fs (yaml_file (st_history s) (st_revision s + 1)) = None" "map_of fs (json_file (st_history s) (st_revision s + 1)) = None"
    using history_okD(5) [OF ok, of "st_revision s + 1"] json_revision_bound [OF ok, of "st_revision s + 1"] by blast+
  then show ?thesis by (simp add: revision_free_def)
qed

text \<open>Adding the next revision keeps the invariant.\<close>

lemma history_ok_step:
  assumes ok: "history_ok U s m" and lim: "st_revision s < - 1"
    and s': "st_path s' = st_path s" "st_managed s' = st_managed s" "st_history s' = st_history s"
      "st_revision s' = st_revision s + 1"
    and d: "U d = Some meta" "rm_Revision meta = st_revision s + 1"
    and y: "m' (yaml_file (st_history s) (st_revision s + 1)) = Some (st_raw s')"
    and j: "m' (json_file (st_history s) (st_revision s + 1)) = Some d"
    and same: "\<And>q. q \<noteq> yaml_file (st_history s) (st_revision s + 1) \<Longrightarrow> q \<noteq> json_file (st_history s) (st_revision s + 1) \<Longrightarrow>
      q \<noteq> st_path s \<Longrightarrow> m' q = m q"
  shows "history_ok U s' m'"
proof -
  let ?h = "st_history s" and ?n = "st_revision s + 1"
  note l = history_okD(1) [OF ok]
  have lt: "st_revision s < ?n" by (rule word_next [OF lim])
  have l': "layout s'" using l s' by (simp add: layout_def)
  have "?n \<noteq> 0" using lt by (metis word_not_simps(1))
  moreover have "r \<le> ?n" if "m' (yaml_file ?h r) \<noteq> None" for r
    using that same [of "yaml_file ?h r"] history_okD(5) [OF ok, of r] lt l by (cases "r = ?n") auto
  moreover have "names_revision U ?n name e"
    if "CHR ''/'' \<notin> set name" "HasSuffix name ''.json''" "m' (filepath_Join ?h name) = Some e" for name e
  proof (cases "name = revisionName ?n @ ''.json''")
    case True
    then show ?thesis using that j d by (auto simp: names_revision_def json_file_Join)
  next
    case False
    then have "filepath_Join ?h name \<noteq> json_file ?h ?n" by (simp add: json_file_Join)
    moreover have "filepath_Join ?h name \<noteq> st_path s"
      using path_not_history_name [OF l] by simp
    ultimately have "m (filepath_Join ?h name) = Some e"
      using same [of "filepath_Join ?h name"] yaml_not_json_name [OF that(2)] that(3) by simp
    from history_okD(7) [OF ok that(1,2) this] lt show ?thesis by (auto simp: names_revision_def)
  qed
  ultimately show ?thesis using y j s' l' unfolding history_ok_def by auto
qed

section \<open>Opening the store\<close>

lemma read_metas_all:
  assumes "\<And>name. name \<in> set names \<Longrightarrow> readMeta os (filepath_Join h name) fs = Some (f name)"
  shows "read_metas os h fs names = Some (map f names)"
  using assms by (induction names) auto

lemma load_items_frame [simp]:
  "st_path (load_items items s) = st_path s" "st_managed (load_items items s) = st_managed s"
  "st_history (load_items items s) = st_history s" "st_raw (load_items items s) = st_raw s"
  by (induction items arbitrary: s) auto

lemma load_items_max:
  assumes "\<forall>m \<in> set items. rm_Revision m \<le> R" and "st_revision s = R \<or> R \<in> rm_Revision ` set items" and "st_revision s \<le> R"
  shows "st_revision (load_items items s) = R"
  using assms
proof (induction items arbitrary: s)
  case (Cons m ms)
  let ?s = "if st_revision s < rm_Revision m then s\<lparr>st_revision := rm_Revision m, st_updated := rm_CreatedAt m\<rparr> else s"
  have "st_revision ?s = R \<or> R \<in> rm_Revision ` set ms" and "st_revision ?s \<le> R"
    using Cons.prems by auto
  with Cons show ?case by simp
qed simp

definition opened_at :: "string \<Rightarrow> string \<Rightarrow> Store" where
  "opened_at full raw = (empty_store full raw True)\<lparr>st_history := filepath_Join (filepath_Dir full) historyDirName\<rparr>"

lemma New_store_eq:
  assumes "os_Abs os path = Some full"
  shows "New_store L os path raw True fs =
    (if TrimSpace L path = [] then (Inl ErrUnmanaged, fs)
     else if \<not> os_OpenOk os \<or> map_of fs full = None \<or> \<not> os_MkdirOk os then (Inl ErrIO, fs)
     else case loadHistory os fs (opened_at full raw) of None \<Rightarrow> (Inl ErrIO, fs) | Some s \<Rightarrow> reconcile os s fs)"
  using assms by (auto simp: New_store_def opened_at_def Let_def)

lemma opened_at_simps [simp]:
  "st_path (opened_at full raw) = full" "st_managed (opened_at full raw)" "st_raw (opened_at full raw) = raw"
  "st_revision (opened_at full raw) = 0" "st_history (opened_at full raw) = filepath_Join (filepath_Dir full) historyDirName"
  by (simp_all add: opened_at_def empty_store_def)

lemma loadHistory_ok:
  assumes ok: "history_ok U s (map_of fs)" and h: "host_law U os fs"
  shows "\<exists>s1. loadHistory os fs (opened_at (st_path s) raw) = Some s1 \<and> st_revision s1 = st_revision s \<and> st_raw s1 = raw \<and>
    st_path s1 = st_path s \<and> st_history s1 = st_history s \<and> st_managed s1"
proof -
  let ?h = "st_history s"
  let ?meta = "\<lambda>name. the (readMeta os (filepath_Join ?h name) fs)"
  have hist: "st_history (opened_at (st_path s) raw) = ?h"
    using history_okD(1) [OF ok] by (simp add: layout_def)
  have read: "\<exists>m. readMeta os (filepath_Join ?h name) fs = Some m \<and> name = revisionName (rm_Revision m) @ ''.json'' \<and> rm_Revision m \<le> st_revision s"
    if "name \<in> set (json_entries ?h fs)" for name
  proof -
    from that obtain d where "CHR ''/'' \<notin> set name" "HasSuffix name ''.json''" and d: "map_of fs (filepath_Join ?h name) = Some d"
      by (auto simp: json_entries_iff)
    then have "names_revision U (st_revision s) name d" by (rule history_okD(7) [OF ok])
    with d host_lawD(3,4) [OF h] show ?thesis
      by (auto simp: names_revision_def readMeta_def os_ReadFile_def)
  qed
  have "readMeta os (filepath_Join ?h name) fs = Some (?meta name)" if "name \<in> set (json_entries ?h fs)" for name
    using read [OF that] by auto
  then have "readMetasLocked os ?h fs = Some (map ?meta (json_entries ?h fs))"
    using host_lawD(3) [OF h] by (simp add: readMetasLocked_def read_metas_all [of "json_entries ?h fs" os ?h fs ?meta])
  then have "loadHistory os fs (opened_at (st_path s) raw) = Some (load_items (map ?meta (json_entries ?h fs)) (opened_at (st_path s) raw))"
    by (simp add: loadHistory_def hist del: opened_at_simps(5))
  moreover have "st_revision (load_items (map ?meta (json_entries ?h fs)) (opened_at (st_path s) raw)) = st_revision s"
  proof (rule load_items_max)
    show "\<forall>m \<in> set (map ?meta (json_entries ?h fs)). rm_Revision m \<le> st_revision s"
      using read by fastforce
    let ?n = "revisionName (st_revision s) @ ''.json''"
    have n: "?n \<in> set (json_entries ?h fs)"
      using history_okD(6) [OF ok] by (auto simp: json_entries_iff json_file_Join HasSuffix_def suffix_def)
    with read [OF n] have "rm_Revision (?meta ?n) = st_revision s" by auto
    with n show "st_revision (opened_at (st_path s) raw) = st_revision s \<or> st_revision s \<in> rm_Revision ` set (map ?meta (json_entries ?h fs))"
      by force
  qed simp
  ultimately show ?thesis using hist by (auto simp del: opened_at_simps(5))
qed

lemma New_same_text:
  assumes ok: "history_ok U s (map_of fs)" and h: "host_law U os fs" and "os_Abs os path = Some (st_path s)"
    and "TrimSpace L path \<noteq> []" and "os_OpenOk os" and "os_MkdirOk os" and "map_of fs (st_path s) \<noteq> None"
  shows "\<exists>s'. New_store L os path (st_raw s) True fs = (Inr s', fs) \<and> st_revision s' = st_revision s \<and> st_raw s' = st_raw s"
proof -
  obtain s1 where s1: "loadHistory os fs (opened_at (st_path s) (st_raw s)) = Some s1" "st_revision s1 = st_revision s"
      "st_raw s1 = st_raw s" "st_history s1 = st_history s"
    using loadHistory_ok [OF ok h] by blast
  have "os_ReadFile os (yaml_file (st_history s) (st_revision s)) fs = Some (st_raw s)"
    using history_okD(4) [OF ok] host_lawD(3) [OF h] by (simp add: os_ReadFile_def)
  with s1 history_okD(3) [OF ok] have "reconcile os s1 fs = (Inr s1, fs)" by (simp add: reconcile_def)
  with assms s1 show ?thesis by (simp add: New_store_eq)
qed

lemma reconcile_step:
  assumes ok: "history_ok U s (map_of fs)" and h: "host_law U os fs" and lim: "st_revision s < - 1"
    and s1: "st_revision s1 = st_revision s" "st_path s1 = st_path s" "st_history s1 = st_history s" "st_managed s1"
    and w: "reconcile os s1 fs = (Inr s', fs')"
  shows "history_ok U s' (map_of fs') \<and> st_raw s' = st_raw s1 \<and> st_path s' = st_path s \<and>
    st_history s' = st_history s \<and>
    (\<forall>q. q \<noteq> yaml_file (st_history s) (st_revision s + 1) \<longrightarrow> q \<noteq> json_file (st_history s) (st_revision s + 1) \<longrightarrow>
      map_of fs' q = map_of fs q) \<and>
    st_revision s' = (if st_raw s1 = st_raw s then st_revision s else st_revision s + 1)"
proof (cases "st_raw s1 = st_raw s")
  case True
  with w s1 history_okD(3,4) [OF ok] host_lawD(3) [OF h] have "s' = s1" "fs' = fs"
    by (auto simp: reconcile_def os_ReadFile_def)
  moreover have "history_ok U s1 (map_of fs)"
    using ok True s1 by (auto simp: history_ok_def layout_def)
  ultimately show ?thesis using True s1 by simp
next
  case False
  let ?m = "zero_meta\<lparr>rm_Revision := st_revision s + 1, rm_ParentRevision := st_revision s, rm_Action := ''external'', rm_CreatedAt := os_Now os 0\<rparr>"
  obtain o1 fs1 where w1: "writeRevisionLocked os (st_history s) ?m (st_raw s1) fs = (o1, fs1)" by fastforce
  from False w w1 s1 history_okD(3,4) [OF ok] host_lawD(3) [OF h]
  have o1 and fs': "fs' = fs1" and s': "s' = s1\<lparr>st_revision := st_revision s + 1, st_updated := os_Now os 0\<rparr>"
    by (auto simp: reconcile_def os_ReadFile_def Let_def split: bool.splits)
  obtain d where d: "meta_Marshal os ?m = Some d" and
    m: "map_of fs1 = (map_of fs)(yaml_file (st_history s) (st_revision s + 1) \<mapsto> st_raw s1, json_file (st_history s) (st_revision s + 1) \<mapsto> d)"
    using writeRevision_effect [OF history_okD(1) [OF ok] h _ w1] next_revision_free [OF ok lim] \<open>o1\<close> by auto
  have "history_ok U s' (map_of fs')"
    by (rule history_ok_step [OF ok lim, of s' d ?m]) (use s' s1 m fs' host_lawD(5) [OF h d] history_okD(2) [OF ok] in auto)
  with False s' s1 m fs' show ?thesis by simp
qed

end
