(* ===== verification/ConfigHistory.thy ===== *)
theory ConfigHistory
  imports ConfigStore
begin

text \<open>
  Properties of the configuration store over whole sessions. \<open>store_step\<close> is one operation of a
  process on the store, an edit of the file from outside, or the opening of the store by another
  process; \<open>session\<close> collects the states that such steps reach from a first opening. The locale
  \<open>revision_log\<close> states what a client of the history relies on, and is interpreted on the store.

  An opening by itself changes nothing on disk but may record the text of the file as a revision.
  Theorems: applying a candidate either changes nothing or installs the candidate and its revision;
  opening the store again finds the revision and the text it left; a revision once recorded is
  never changed.
\<close>

section \<open>Sessions\<close>

text \<open>
  The life of a managed configuration file: opened with an empty history, then candidates are
  applied, drafts edited, the file edited behind the store's back, and the store opened again by
  another process. Each step has its own host.
\<close>

inductive store_step ::
  "golib \<Rightarrow> (string \<Rightarrow> RevisionMeta option) \<Rightarrow> Store \<times> files \<Rightarrow> Store \<times> files \<Rightarrow> bool" for L U where
  commit: "host_law U os fs \<Longrightarrow> st_revision s < - 1 \<Longrightarrow> Apply os req s fs = (r, s', fs') \<Longrightarrow> store_step L U (s, fs) (s', fs')"
| edit: "store_step L U (s, fs) (s, AList.update (st_path s) raw fs)"
| save: "store_step L U (s, fs) (snd (SaveDraft os b i e raw s), fs)"
| load: "store_step L U (s, fs) (snd (GetDraft os i s), fs)"
| mark: "store_step L U (s, fs) (snd (MarkDraftValidated i r dr s), fs)"
| discard: "store_step L U (s, fs) (snd (DiscardDraft i e s), fs)"
| reopen: "host_law U os fs \<Longrightarrow> st_revision s < - 1 \<Longrightarrow> os_Abs os path = Some (st_path s) \<Longrightarrow>
    New_store L os path raw True fs = (Inr s', fs') \<Longrightarrow> store_step L U (s, fs) (s', fs')"

inductive session :: "golib \<Rightarrow> (string \<Rightarrow> RevisionMeta option) \<Rightarrow> Store \<Rightarrow> files \<Rightarrow> bool" for L U where
  first: "host_law U os fs \<Longrightarrow> os_Abs os path = Some full \<Longrightarrow> clean_path full \<Longrightarrow>
    (\<And>name. map_of fs (filepath_Join (filepath_Join (filepath_Dir full) historyDirName) name) = None) \<Longrightarrow>
    New_store L os path raw True fs = (Inr s, fs') \<Longrightarrow> session L U s fs'"
| further: "session L U s fs \<Longrightarrow> store_step L U (s, fs) (s', fs') \<Longrightarrow> session L U s' fs'"

lemma history_ok_frame:
  assumes "history_ok U s m" and same: "\<And>name. m' (filepath_Join (st_history s) name) = m (filepath_Join (st_history s) name)"
  shows "history_ok U s m'"
proof -
  have "m' (yaml_file (st_history s) r) = m (yaml_file (st_history s) r)" for r
    using same [of "revisionName r @ ''.yaml''"] by (simp add: yaml_file_def filepath_Join_eq)
  with assms show ?thesis by (simp add: history_ok_def json_file_Join)
qed

lemma history_ok_draft: "history_ok U (s\<lparr>st_draft := d\<rparr>) m = history_ok U s m"
  by (simp add: history_ok_def layout_def)

lemma drafts_only:
  "\<exists>d. snd (SaveDraft os b i e raw s) = s\<lparr>st_draft := d\<rparr>" "\<exists>d. snd (GetDraft os i s) = s\<lparr>st_draft := d\<rparr>"
  "\<exists>d. snd (MarkDraftValidated i r dr s) = s\<lparr>st_draft := d\<rparr>" "\<exists>d. snd (DiscardDraft i e s) = s\<lparr>st_draft := d\<rparr>"
proof -
  have "\<exists>d. s = s\<lparr>st_draft := d\<rparr>" by (rule exI [of _ "st_draft s"]) simp
  then show "\<exists>d. snd (SaveDraft os b i e raw s) = s\<lparr>st_draft := d\<rparr>" "\<exists>d. snd (GetDraft os i s) = s\<lparr>st_draft := d\<rparr>"
    "\<exists>d. snd (MarkDraftValidated i r dr s) = s\<lparr>st_draft := d\<rparr>" "\<exists>d. snd (DiscardDraft i e s) = s\<lparr>st_draft := d\<rparr>"
    by (auto simp: SaveDraft_def GetDraft_def MarkDraftValidated_def DiscardDraft_def Let_def split: option.split)
qed

lemma first_history_ok:
  assumes h: "host_law U os fs" and p: "os_Abs os path = Some full" "clean_path full"
    and free: "\<And>name. map_of fs (filepath_Join (filepath_Join (filepath_Dir full) historyDirName) name) = None"
    and n: "New_store L os path raw True fs = (Inr s, fs')"
  shows "history_ok U s (map_of fs')"
proof -
  let ?s = "opened_at full raw"
  let ?h = "st_history ?s"
  let ?m = "zero_meta\<lparr>rm_Revision := 1, rm_Action := ''bootstrap'', rm_CreatedAt := os_Now os 0\<rparr>"
  have l: "layout ?s" using p by (simp add: layout_def)
  have none: "json_entries ?h fs = []"
    using json_entries_iff [of _ ?h fs] free by (metis all_not_in_conv opened_at_simps(5) set_empty)
  then have "loadHistory os fs ?s = Some ?s"
    using host_lawD(3) [OF h] by (simp add: loadHistory_def readMetasLocked_def)
  with n p have r: "reconcile os ?s fs = (Inr s, fs')" by (auto simp: New_store_eq split: if_splits)
  obtain o1 fs1 where w: "writeRevisionLocked os ?h ?m raw fs = (o1, fs1)" by fastforce
  have fr: "revision_free ?h 1 fs"
    using free by (simp add: revision_free_def json_file_Join) (simp add: yaml_file_def filepath_Join_eq)
  from r w have o1 and fs': "fs' = fs1" and s: "s = ?s\<lparr>st_revision := 1, st_updated := os_Now os 1\<rparr>"
    by (auto simp: reconcile_def split: bool.splits)
  with writeRevision_effect [OF l h _ w] fr obtain d where d: "meta_Marshal os ?m = Some d"
    and m: "map_of fs' = (map_of fs)(yaml_file ?h 1 \<mapsto> raw, json_file ?h 1 \<mapsto> d)" by auto
  have fr2: "map_of fs (yaml_file ?h r) = None" for r
    using free by (simp add: yaml_file_def filepath_Join_eq)
  have "names_revision U 1 name e" if "HasSuffix name ''.json''" "map_of fs' (filepath_Join ?h name) = Some e" for name e
    using that m free yaml_not_json_name [OF that(1), of ?h 1] host_lawD(5) [OF h d]
    by (auto simp: json_file_Join names_revision_def split: if_splits)
  moreover have "st_path s = full" "st_managed s" "st_history s = ?h" "st_revision s = 1" "st_raw s = raw" and "layout s"
    using s l by (simp_all add: layout_def)
  moreover have "map_of fs' (yaml_file ?h r) \<noteq> None \<Longrightarrow> r \<le> 1" for r
    using m fr2 [of r] by (auto split: if_splits)
  ultimately show ?thesis unfolding history_ok_def using m by simp
qed

lemma apply_history_ok:
  assumes ok: "history_ok U s (map_of fs)" and h: "host_law U os fs" and lim: "st_revision s < - 1"
    and a: "Apply os req s fs = (r, s', fs')"
  shows "history_ok U s' (map_of fs')"
proof (cases r)
  case (Inl e)
  with Apply_effect [OF history_okD(1) [OF ok] h next_revision_free [OF ok lim] a] ok show ?thesis by simp
next
  case (Inr res)
  let ?m = "apply_meta os req s"
  from Apply_effect [OF history_okD(1) [OF ok] h next_revision_free [OF ok lim] a] Inr obtain d where s': "s' = applied req ?m s"
    and d: "meta_Marshal os ?m = Some d" and m: "map_of fs' = installed s ?m d (aq_Raw req) (map_of fs)" by blast
  have rm: "rm_Revision ?m = st_revision s + 1" by (simp add: apply_meta_def)
  show ?thesis
    by (rule history_ok_step [OF ok lim, of s' d ?m])
      (use s' m rm host_lawD(5) [OF h d] history_okD(1) [OF ok] in \<open>auto simp: applied_def installed_def\<close>)
qed

text \<open>A step keeps the invariant and touches at most the files of the next revision and the configuration file.\<close>

definition history_kept :: "Store \<times> files \<Rightarrow> Store \<times> files \<Rightarrow> bool" where
  "history_kept st st' \<longleftrightarrow>
     (case (st, st') of ((s, fs), (s', fs')) \<Rightarrow>
        st_history s' = st_history s \<and>
        (\<forall>r. r \<noteq> st_revision s + 1 \<or> st_revision s = - 1 \<longrightarrow>
          map_of fs' (yaml_file (st_history s) r) = map_of fs (yaml_file (st_history s) r) \<and>
          map_of fs' (json_file (st_history s) r) = map_of fs (json_file (st_history s) r)))"

lemma draft_step:
  assumes "\<exists>d. s' = s\<lparr>st_draft := d\<rparr>" and "history_ok U s (map_of fs)"
  shows "history_ok U s' (map_of fs) \<and> history_kept (s, fs) (s', fs)"
  using assms history_ok_draft by (auto simp: history_kept_def)

lemma store_step_keeps:
  assumes "store_step L U (s, fs) (s', fs')" and ok: "history_ok U s (map_of fs)"
  shows "history_ok U s' (map_of fs') \<and> history_kept (s, fs) (s', fs')"
  using assms(1)
proof (cases rule: store_step.cases)
  case (commit os req r)
  note l = history_okD(1) [OF ok]
  from Apply_effect [OF l commit(1) next_revision_free [OF ok commit(2)] commit(3)]
  have "history_kept (s, fs) (s', fs')"
    using l commit(2) by (cases r) (auto simp: history_kept_def installed_def applied_def apply_meta_def)
  with apply_history_ok [OF ok commit] show ?thesis by blast
next
  case (edit raw)
  note l = history_okD(1) [OF ok]
  have "history_ok U s (map_of fs')"
    by (rule history_ok_frame [OF ok]) (simp add: edit path_not_history_name [OF l])
  with edit l show ?thesis by (simp add: history_kept_def)
next
  case (reopen os path raw)
  obtain s1 where s1: "loadHistory os fs (opened_at (st_path s) raw) = Some s1" "st_revision s1 = st_revision s" "st_path s1 = st_path s"
      "st_history s1 = st_history s" "st_managed s1"
    using loadHistory_ok [OF ok reopen(1)] by blast
  with reopen have "reconcile os s1 fs = (Inr s', fs')" by (auto simp: New_store_eq split: if_splits)
  from reconcile_step [OF ok reopen(1,2) s1(2,3,4,5) this] reopen(2) show ?thesis
    by (auto simp: history_kept_def)
next
  case (save os b i e raw)
  then show ?thesis using draft_step [OF drafts_only(1) ok] by simp
next
  case (load os i)
  then show ?thesis using draft_step [OF drafts_only(2) ok] by simp
next
  case (mark i r dr)
  then show ?thesis using draft_step [OF drafts_only(3) ok] by simp
next
  case (discard i e)
  then show ?thesis using draft_step [OF drafts_only(4) ok] by simp
qed

lemma session_history_ok: "session L U s fs \<Longrightarrow> history_ok U s (map_of fs)"
  by (induction rule: session.induct) (blast intro: first_history_ok, blast dest: store_step_keeps)

section \<open>What an opening leaves on disk\<close>

text \<open>
  A configuration file whose history is empty, or was left by earlier sessions; the revision
  numbers are far from wrapping round.
\<close>

definition managed_at :: "golib \<Rightarrow> (string \<Rightarrow> RevisionMeta option) \<Rightarrow> string \<Rightarrow> files \<Rightarrow> bool" where
  "managed_at L U full fs \<longleftrightarrow>
     (\<forall>name. map_of fs (filepath_Join (filepath_Join (filepath_Dir full) historyDirName) name) = None) \<or>
     (\<exists>s. session L U s fs \<and> st_path s = full \<and> st_revision s < - 2)"

text \<open>Nothing has changed, except that the text of the file may be on record as a new revision.\<close>

definition only_recorded :: "string \<Rightarrow> files \<Rightarrow> files \<Rightarrow> bool" where
  "only_recorded full fs fs' \<longleftrightarrow> map_of fs' = map_of fs \<or>
     (\<exists>r raw d. let h = filepath_Join (filepath_Dir full) historyDirName in
        map_of fs full = Some raw \<and> revision_free h r fs \<and>
        map_of fs' = (map_of fs)(yaml_file h r \<mapsto> raw, json_file h r \<mapsto> d))"

lemma only_recorded_keeps:
  assumes "only_recorded full fs fs'" and "map_of fs q = Some x"
  shows "map_of fs' q = Some x"
  using assms by (auto simp: only_recorded_def revision_free_def Let_def)

lemma word_room: "x < - 2 \<Longrightarrow> x < - 1 \<and> x + 1 < - 1" for x :: "64 word"
proof -
  assume "x < - 2"
  moreover have m: "- 2 = (18446744073709551614 :: 64 word)" "- 1 = (18446744073709551615 :: 64 word)" by simp_all
  ultimately have u: "unat x < 18446744073709551614" by (simp only: m word_less_nat_alt) simp
  then have "unat (x + 1) = unat x + 1" by (simp add: unat_word_ariths)
  with u show "x < - 1 \<and> x + 1 < - 1" unfolding m word_less_nat_alt by simp
qed

lemma reconcile_effect:
  assumes l: "layout s" and h: "host_law U os fs" and f: "revision_free (st_history s) (st_revision s + 1) fs"
    and r: "reconcile os s fs = (r, fs')"
  shows "map_of fs' = map_of fs \<or> (\<exists>d. map_of fs' = (map_of fs)(yaml_file (st_history s) (st_revision s + 1) \<mapsto> st_raw s,
      json_file (st_history s) (st_revision s + 1) \<mapsto> d))"
    and "r = Inr s' \<Longrightarrow> st_path s' = st_path s \<and> st_revision s' \<in> {st_revision s, st_revision s + 1}"
proof -
  have written: "map_of fs1 = map_of fs \<or> (\<exists>d. map_of fs1 = (map_of fs)(yaml_file (st_history s) (st_revision s + 1) \<mapsto> st_raw s,
      json_file (st_history s) (st_revision s + 1) \<mapsto> d))"
    if "writeRevisionLocked os (st_history s) meta (st_raw s) fs = (b, fs1)" "rm_Revision meta = st_revision s + 1" for meta b fs1
    using writeRevision_effect [OF l h _ that(1)] f that(2) by (cases b) auto
  show "map_of fs' = map_of fs \<or> (\<exists>d. map_of fs' = (map_of fs)(yaml_file (st_history s) (st_revision s + 1) \<mapsto> st_raw s,
      json_file (st_history s) (st_revision s + 1) \<mapsto> d))"
    using r by (fastforce simp: reconcile_def Let_def split: if_splits prod.splits bool.splits option.splits dest: written)
  show "r = Inr s' \<Longrightarrow> st_path s' = st_path s \<and> st_revision s' \<in> {st_revision s, st_revision s + 1}"
    using r by (auto simp: reconcile_def Let_def split: if_splits prod.splits bool.splits option.splits)
qed

lemma loadHistory_managed:
  assumes h: "host_law U os fs" and "clean_path full" and "managed_at L U full fs"
  obtains s where "loadHistory os fs (opened_at full raw) = Some s" and "layout s" and "st_path s = full" and "st_raw s = raw"
    and "st_history s = filepath_Join (filepath_Dir full) historyDirName"
    and "revision_free (st_history s) (st_revision s + 1) fs" and "st_revision s < - 2"
  using assms(3) unfolding managed_at_def
proof (elim disjE exE conjE)
  let ?s = "opened_at full raw"
  let ?h = "filepath_Join (filepath_Dir full) historyDirName"
  assume "\<forall>name. map_of fs (filepath_Join ?h name) = None"
  then have free: "map_of fs (filepath_Join ?h name) = None" for name by blast
  have "json_entries ?h fs = []"
    using json_entries_iff [of _ ?h fs] free by (metis all_not_in_conv set_empty)
  then have "loadHistory os fs ?s = Some ?s"
    using host_lawD(3) [OF h] by (simp add: loadHistory_def readMetasLocked_def)
  moreover have "revision_free ?h (st_revision ?s + 1) fs"
    using free by (simp add: revision_free_def json_file_Join) (simp add: yaml_file_def filepath_Join_eq)
  moreover have "0 < (- 2 :: 64 word)" by (simp only: word_less_nat_alt) simp
  ultimately show thesis using assms(2) by (intro that [of ?s]) (simp_all add: layout_def)
next
  fix s assume s: "session L U s fs" "st_path s = full" "st_revision s < - 2"
  note ok = session_history_ok [OF s(1)]
  obtain s1 where s1: "loadHistory os fs (opened_at full raw) = Some s1" "st_revision s1 = st_revision s" "st_raw s1 = raw"
      "st_path s1 = full" "st_history s1 = st_history s" "st_managed s1"
    using loadHistory_ok [OF ok h, of raw] s(2) by auto
  moreover have "layout s1" "st_history s1 = filepath_Join (filepath_Dir full) historyDirName"
    using history_okD(1) [OF ok] s1 s(2) by (simp_all add: layout_def)
  ultimately show thesis
    using that next_revision_free [OF ok] word_room [OF s(3)] s(3) by simp
qed

lemma New_outcome:
  assumes h: "host_law U os fs" and p: "os_Abs os path = Some full" "clean_path full" and m: "managed_at L U full fs"
    and raw: "map_of fs full = Some raw" and n: "New_store L os path raw True fs = (r, fs')"
  shows "only_recorded full fs fs'"
    and "r = Inr s' \<Longrightarrow> session L U s' fs' \<and> st_path s' = full \<and> st_revision s' < - 1"
proof -
  obtain s where s: "loadHistory os fs (opened_at full raw) = Some s" "layout s" "st_path s = full" "st_raw s = raw"
      "st_history s = filepath_Join (filepath_Dir full) historyDirName"
      "revision_free (st_history s) (st_revision s + 1) fs" "st_revision s < - 2"
    by (rule loadHistory_managed [OF h p(2) m])
  have N: "(r, fs') = (if TrimSpace L path = [] then (Inl ErrUnmanaged, fs)
     else if \<not> os_OpenOk os \<or> map_of fs full = None \<or> \<not> os_MkdirOk os then (Inl ErrIO, fs) else reconcile os s fs)"
    using n [symmetric] s(1) by (simp only: New_store_eq [OF p(1)] option.case)
  show "only_recorded full fs fs'"
  proof (cases "TrimSpace L path = [] \<or> \<not> os_OpenOk os \<or> \<not> os_MkdirOk os")
    case True
    with N show ?thesis by (auto simp: only_recorded_def split: if_splits)
  next
    case False
    with N raw have "reconcile os s fs = (r, fs')" by simp
    from reconcile_effect(1) [OF s(2) h s(6) this] s(4,5,6) raw show ?thesis
      unfolding only_recorded_def Let_def by auto
  qed
  assume r: "r = Inr s'"
  with N have rec: "reconcile os s fs = (r, fs')" by (auto split: if_splits)
  note e = reconcile_effect(2) [OF s(2) h s(6) rec r]
  have n': "New_store L os path raw True fs = (Inr s', fs')" using n r by simp
  have "session L U s' fs'"
    using m unfolding managed_at_def
  proof (elim disjE exE conjE)
    fix s0 assume s0: "session L U s0 fs" "st_path s0 = full" "st_revision s0 < - 2"
    have "os_Abs os path = Some (st_path s0)" using p(1) s0(2) by simp
    then have "store_step L U (s0, fs) (s', fs')"
      using word_room [OF s0(3)] n' by (intro store_step.reopen [OF h]) blast+
    then show ?thesis by (rule session.further [OF s0(1)])
  qed (rule session.first [OF h p _ n'], blast)
  with e s(3) word_room [OF s(7)] show "session L U s' fs' \<and> st_path s' = full \<and> st_revision s' < - 1" by auto
qed

section \<open>The history as a log\<close>

text \<open>
  What a client relies on: in a state that is in order, a step keeps it in order and changes no
  revision that is there.
\<close>

locale revision_log =
  fixes in_order :: "'st \<Rightarrow> bool" and advance :: "'st \<Rightarrow> 'st \<Rightarrow> bool" and recorded :: "'st \<Rightarrow> 'r \<Rightarrow> 'x option"
  assumes advance_in_order: "in_order st \<Longrightarrow> advance st st' \<Longrightarrow> in_order st'"
    and advance_keeps: "in_order st \<Longrightarrow> advance st st' \<Longrightarrow> recorded st r = Some x \<Longrightarrow> recorded st' r = Some x"
begin

lemma run_keeps:
  assumes "advance\<^sup>*\<^sup>* st st'" and "in_order st" and "recorded st r = Some x"
  shows "in_order st' \<and> recorded st' r = Some x"
  using assms by (induction rule: rtranclp_induct) (auto intro: advance_in_order advance_keeps)

end

definition revision_of :: "(string \<Rightarrow> RevisionMeta option) \<Rightarrow> Store \<times> files \<Rightarrow> 64 word \<Rightarrow> (RevisionMeta \<times> string) option" where
  "revision_of U st r =
     (case st of (s, fs) \<Rightarrow>
        (case (map_of fs (json_file (st_history s) r), map_of fs (yaml_file (st_history s) r)) of
           (Some d, Some raw) \<Rightarrow> map_option (\<lambda>meta. (meta, raw)) (U d)
         | _ \<Rightarrow> None))"

lemma kept_revision:
  assumes "history_ok U s (map_of fs)" and "history_kept (s, fs) (s', fs')" and "revision_of U (s, fs) r = Some x"
  shows "revision_of U (s', fs') r = Some x"
proof -
  from assms(3) have "map_of fs (json_file (st_history s) r) \<noteq> None"
    by (auto simp: revision_of_def split: option.splits)
  from json_revision_bound [OF assms(1) this] have "r \<noteq> st_revision s + 1 \<or> st_revision s = - 1"
    using word_next [of "st_revision s"] max_word_max [of "st_revision s"] by (metis leD order_less_le)
  with assms(2) have "st_history s' = st_history s" "map_of fs' (yaml_file (st_history s) r) = map_of fs (yaml_file (st_history s) r)"
    "map_of fs' (json_file (st_history s) r) = map_of fs (json_file (st_history s) r)"
    by (simp_all add: history_kept_def)
  with assms(3) show ?thesis by (simp add: revision_of_def cong: option.case_cong)
qed

interpretation cfg: revision_log "\<lambda>(s, fs). history_ok U s (map_of fs)" "store_step L U" "revision_of U" for L U
proof
  fix st st' :: "Store \<times> files" and r x
  assume ok: "case st of (s, fs) \<Rightarrow> history_ok U s (map_of fs)" and "store_step L U st st'"
  obtain s fs s' fs' where st: "st = (s, fs)" "st' = (s', fs')" by fastforce
  have keeps: "history_ok U s' (map_of fs') \<and> history_kept (s, fs) (s', fs')"
    by (rule store_step_keeps) (use ok \<open>store_step L U st st'\<close> st in simp_all)
  then show "case st' of (s, fs) \<Rightarrow> history_ok U s (map_of fs)" by (simp add: st)
  assume "revision_of U st r = Some x"
  with keeps ok st kept_revision show "revision_of U st' r = Some x" by simp
qed

section \<open>Properties\<close>

lemma HistoryGet_read:
  assumes "host_law U os fs0" and "st_managed s"
  shows "HistoryGet os r s fs =
    (if r = 0 then Inl ErrRevisionNotFound
     else case map_of fs (json_file (st_history s) r) of
       None \<Rightarrow> Inl ErrRevisionNotFound
     | Some d \<Rightarrow>
         (case (U d, map_of fs (yaml_file (st_history s) r)) of (Some meta, Some raw) \<Rightarrow> Inr (meta, raw) | _ \<Rightarrow> Inl ErrIO))"
  using host_lawD(3,4) [OF assms(1)] assms(2)
  by (auto simp: HistoryGet_def readMeta_def os_ReadFile_def split: option.split)

lemma HistoryGet_current:
  assumes ok: "history_ok U s (map_of fs)" and h: "host_law U os fs0"
  shows "\<exists>meta. HistoryGet os (st_revision s) s fs = Inr (meta, st_raw s)"
proof -
  obtain d where d: "map_of fs (json_file (st_history s) (st_revision s)) = Some d"
    using history_okD(6) [OF ok] by blast
  with history_okD(7) [OF ok, of "revisionName (st_revision s) @ ''.json''" d] obtain meta where "U d = Some meta"
    by (auto simp: json_file_Join names_revision_def HasSuffix_def suffix_def)
  with d history_okD(2,3,4) [OF ok] show ?thesis by (simp add: HistoryGet_read [OF h])
qed

lemma HistoryGet_installed:
  assumes h: "host_law U os fs" and l: "layout s" and d: "U d = Some meta" "rm_Revision meta \<noteq> 0"
    and s': "st_managed s'" "st_history s' = st_history s" and m: "map_of fs' = installed s meta d raw (map_of fs)"
  shows "HistoryGet os r s' fs' = (if r = rm_Revision meta then Inr (meta, raw) else HistoryGet os r s fs)"
  using assms l unfolding HistoryGet_read [OF h s'(1)] HistoryGet_read [OF h conjunct1 [OF l [unfolded layout_def]]]
  by (simp add: installed_def split: option.split)

lemma apply_outcome:
  assumes "session L U s fs" and "host_law U os fs" and "st_revision s < - 1"
    and "Apply os req s fs = (r, s', fs')"
  shows "case r of
      Inl e \<Rightarrow> s' = s \<and> map_of fs' = map_of fs
    | Inr res \<Rightarrow> al_Meta res = apply_meta os req s \<and> al_Revision res = st_revision s + 1 \<and> st_revision s' = st_revision s + 1 \<and> st_raw s' = aq_Raw req \<and>
        map_of fs' (st_path s) = Some (aq_Raw req) \<and>
        (\<forall>q. HistoryGet os q s' fs' =
          (if q = st_revision s + 1 then Inr (al_Meta res, aq_Raw req) else HistoryGet os q s fs))"
proof -
  note ok = session_history_ok [OF assms(1)]
  note e = Apply_effect [OF history_okD(1) [OF ok] assms(2) next_revision_free [OF ok assms(3)] assms(4)]
  show ?thesis
  proof (cases r)
    case (Inl e)
    with e show ?thesis by simp
  next
    case (Inr res)
    let ?m = "apply_meta os req s"
    from e Inr obtain d where d: "meta_Marshal os ?m = Some d" and s': "s' = applied req ?m s" and res: "al_Meta res = ?m"
        "al_Revision res = st_revision s + 1" and m: "map_of fs' = installed s ?m d (aq_Raw req) (map_of fs)"
      by blast
    have rm: "rm_Revision ?m = st_revision s + 1" by (simp add: apply_meta_def)
    moreover have "st_revision s + 1 \<noteq> 0" using word_next [OF assms(3)] by (metis word_not_simps(1))
    ultimately have "HistoryGet os q s' fs' = (if q = st_revision s + 1 then Inr (?m, aq_Raw req) else HistoryGet os q s fs)" for q
      using HistoryGet_installed [OF assms(2) history_okD(1) [OF ok] host_lawD(5) [OF assms(2) d] _ _ _ m] s' history_okD(2) [OF ok]
      by (simp add: applied_def)
    with Inr res s' m rm show ?thesis by (simp add: applied_def installed_def)
  qed
qed

text \<open>
  C29: Applying a candidate is all or nothing. A refused or failed application leaves the store and
  every file as they were. A successful one puts the candidate in the configuration file, and the
  history then holds it under the next revision number, with every earlier revision unchanged.
\<close>

theorem apply_is_atomic:
  assumes "session L U s fs" and "host_law U os fs" and "st_revision s < - 1"
    and "Apply os req s fs = (r, s', fs')"
  shows "case r of
      Inl e \<Rightarrow> s' = s \<and> map_of fs' = map_of fs
    | Inr res \<Rightarrow> al_Revision res = st_revision s + 1 \<and> st_revision s' = st_revision s + 1 \<and> st_raw s' = aq_Raw req \<and>
        map_of fs' (st_path s) = Some (aq_Raw req) \<and>
        (\<forall>q. HistoryGet os q s' fs' =
          (if q = st_revision s + 1 then Inr (al_Meta res, aq_Raw req) else HistoryGet os q s fs))"
  using apply_outcome [OF assms] by (auto split: sum.split)

text \<open>
  C30: Opening a configuration file again finds what was left. When the file is as the last store
  left it, the new store has the same revision and text and nothing is written; when it was edited
  in between, a successful opening records the edited text as the next revision.
\<close>

theorem reopen_recovers:
  assumes "session L U s fs" and "host_law U os fs" and "os_Abs os path = Some (st_path s)" and "TrimSpace L path \<noteq> []"
    and "os_OpenOk os" and "os_MkdirOk os" and "map_of fs (st_path s) = Some raw" and "st_revision s < - 1"
  shows "if raw = st_raw s
    then \<exists>s'. New_store L os path raw True fs = (Inr s', fs) \<and> Current s' = Current s
    else \<forall>s' fs'. New_store L os path raw True fs = (Inr s', fs') \<longrightarrow>
      Current s' = (st_revision s + 1, raw) \<and> map_of fs' (st_path s) = Some raw \<and>
      (\<exists>meta. HistoryGet os (st_revision s + 1) s' fs' = Inr (meta, raw))"
proof (cases "raw = st_raw s")
  case True
  with New_same_text [OF session_history_ok [OF assms(1)] assms(2-6)] assms(7) show ?thesis
    by (auto simp: Current_def)
next
  case False
  note ok = session_history_ok [OF assms(1)]
  obtain s1 where s1: "loadHistory os fs (opened_at (st_path s) raw) = Some s1" "st_revision s1 = st_revision s" "st_path s1 = st_path s"
      "st_history s1 = st_history s" "st_managed s1" "st_raw s1 = raw"
    using loadHistory_ok [OF ok assms(2)] by blast
  have "Current s' = (st_revision s + 1, raw) \<and> map_of fs' (st_path s) = Some raw \<and>
      (\<exists>meta. HistoryGet os (st_revision s + 1) s' fs' = Inr (meta, raw))"
    if n: "New_store L os path raw True fs = (Inr s', fs')" for s' fs'
  proof -
    from n assms(3-7) s1 have "reconcile os s1 fs = (Inr s', fs')" by (auto simp: New_store_eq split: if_splits)
    from reconcile_step [OF ok assms(2,8) s1(2,3,4,5) this] False s1(6)
    have ok': "history_ok U s' (map_of fs')" and s': "st_raw s' = raw" "st_revision s' = st_revision s + 1"
      and same: "map_of fs' (st_path s) = map_of fs (st_path s)"
      using history_okD(1) [OF ok] by auto
    from HistoryGet_current [OF ok' assms(2)] s' obtain meta where "HistoryGet os (st_revision s') s' fs' = Inr (meta, raw)" by auto
    with s' same assms(7) show ?thesis by (auto simp: Current_def)
  qed
  with False show ?thesis by simp
qed


section \<open>A concrete session\<close>

definition demo_meta :: "64 word \<Rightarrow> RevisionMeta" where
  "demo_meta r =
     (if r = 1 then zero_meta\<lparr>rm_Revision := 1, rm_Action := ''bootstrap'', rm_CreatedAt := 7\<rparr>
      else zero_meta\<lparr>rm_Revision := 2, rm_ParentRevision := 1, rm_Action := ''apply'', rm_CreatedAt := 7\<rparr>)"

definition demo_unmarshal :: "RevisionMeta \<Rightarrow> string \<Rightarrow> RevisionMeta option" where
  "demo_unmarshal m2 d = (if d = ''1'' then Some (demo_meta 1) else if d = ''2'' then Some m2 else None)"

definition demo_host :: "RevisionMeta \<Rightarrow> HostOS" where
  "demo_host m2 =
     \<lparr>os_TempName = (\<lambda>p. filepath_Join (filepath_Dir p) ''.mirrors-waf-tmp-1''), os_Fail = (\<lambda>p. None), os_Torn = (\<lambda>p. []),
      os_RemoveOk = (\<lambda>p. True), os_ReadOk = (\<lambda>p. True), os_MkdirOk = True, os_OpenOk = True, os_Abs = Some, os_Now = (\<lambda>n. 7),
      os_Entropy = None,
      meta_Marshal = (\<lambda>m. if m = demo_meta 1 then Some ''1'' else if m = m2 then Some ''2'' else None),
      meta_Unmarshal = demo_unmarshal m2\<rparr>"

definition demo_apply :: ApplyRequest where
  "demo_apply = \<lparr>aq_Raw = ''b'', aq_ExpectedRevision = 1, aq_Actor = [], aq_Reason = [], aq_Changed = 0, aq_Danger = [],
     aq_RestartRequired = False, aq_Action = [], aq_RollbackTarget = 0\<rparr>"

definition demo_open :: "RevisionMeta \<Rightarrow> (cstore_error + Store) \<times> files" where
  "demo_open m2 = New_store demo_lib (demo_host m2) ''/c'' ''a'' True [(''/c'', ''a'')]"

lemma demo_temp:
  assumes "\<And>q. q \<in> dom (map_of fs) \<Longrightarrow> last q \<noteq> CHR ''1''"
  shows "host_law (demo_unmarshal m2) (demo_host m2) fs"
proof -
  have "last (filepath_Join (filepath_Dir p) ''.mirrors-waf-tmp-1'') = CHR ''1''" for p
    by (simp add: filepath_Join_eq)
  with assms have "map_of fs (filepath_Join (filepath_Dir p) ''.mirrors-waf-tmp-1'') = None" for p
    by blast
  then have "temp_law (demo_host m2) fs"
    unfolding temp_law_def by (auto simp: demo_host_def filepath_Join_eq)
  moreover have "(demo_unmarshal m2) d = Some m" if "meta_Marshal (demo_host m2) m = Some d" for m d
    using that by (auto simp: demo_host_def demo_unmarshal_def split: if_splits)
  ultimately show ?thesis by (simp add: host_law_def demo_host_def)
qed

lemma demo_flags: "os_Abs (demo_host m2) p = Some p" "os_OpenOk (demo_host m2)" "os_MkdirOk (demo_host m2)" "(1 :: 64 word) < - 1"
  by (simp_all add: demo_host_def) code_simp

lemma demo_replace: "\<exists>fs'. atomicReplace (demo_host m2) p data fs = (True, fs')"
  by (simp add: atomicReplace_def demo_host_def Let_def)

lemma demo_write: "meta_Marshal (demo_host m2) meta = Some d \<Longrightarrow> \<exists>fs'. writeRevisionLocked (demo_host m2) h meta raw fs = (True, fs')"
proof -
  assume d: "meta_Marshal (demo_host m2) meta = Some d"
  obtain fs1 where 1: "atomicReplace (demo_host m2) (yaml_file h (rm_Revision meta)) raw fs = (True, fs1)" using demo_replace by blast
  obtain fs2 where "atomicReplace (demo_host m2) (json_file h (rm_Revision meta)) d fs1 = (True, fs2)" using demo_replace by blast
  with 1 d show ?thesis by (simp add: writeRevisionLocked_def demo_flags)
qed

lemma demo_opened:
  "\<exists>s fs. (demo_open m2) = (Inr s, fs) \<and> session demo_lib (demo_unmarshal m2) s fs \<and> host_law (demo_unmarshal m2) (demo_host m2) fs \<and>
     st_revision s = 1 \<and> st_raw s = ''a'' \<and> st_path s = ''/c'' \<and> st_managed s \<and> map_of fs ''/c'' = Some ''a''"
proof -
  let ?fs = "[(''/c'', ''a'')]" and ?s = "opened_at ''/c'' ''a''"
  have h: "host_law (demo_unmarshal m2) (demo_host m2) ?fs" by (rule demo_temp) (auto split: if_splits)
  have a: "os_Abs (demo_host m2) ''/c'' = Some ''/c''" by (simp add: demo_host_def)
  have c: "clean_path ''/c''" by (simp add: clean_path_def HasPrefix_def Contains_def sublist_Cons_right)
  have dir: "filepath_Dir ''/c'' = ''/''" by (simp add: filepath_Dir_def)
  have free: "map_of ?fs (filepath_Join (filepath_Join (filepath_Dir ''/c'') historyDirName) name) = None" for name
    by (simp add: dir filepath_Join_def historyDirName_def)
  have "json_entries (st_history ?s) ?fs = []"
    using json_entries_iff [of _ "st_history ?s" ?fs] free by (metis all_not_in_conv opened_at_simps(5) set_empty)
  then have ld: "loadHistory (demo_host m2) ?fs ?s = Some ?s"
    using host_lawD(3) [OF h] by (simp add: loadHistory_def readMetasLocked_def)
  have "TrimSpace demo_lib ''/c'' \<noteq> []" by code_simp
  with ld a have n: "(demo_open m2) = reconcile (demo_host m2) ?s ?fs"
    by (simp add: demo_open_def New_store_eq) (simp add: demo_host_def)
  let ?m = "zero_meta\<lparr>rm_Revision := 1, rm_Action := ''bootstrap'', rm_CreatedAt := 7\<rparr>"
  obtain o1 fs1 where w: "writeRevisionLocked (demo_host m2) (st_history ?s) ?m ''a'' ?fs = (o1, fs1)" by fastforce
  have "meta_Marshal (demo_host m2) ?m = Some ''1''" by (simp add: demo_host_def demo_meta_def)
  from demo_write [OF this, of "st_history ?s" "''a''" ?fs] w have o1 by auto
  have l: "layout ?s" using c by (simp add: layout_def)
  have "revision_free (st_history ?s) 1 ?fs"
    using free by (simp add: revision_free_def json_file_Join) (simp add: yaml_file_def filepath_Join_eq)
  with writeRevision_effect [OF l h _ w] \<open>o1\<close> obtain d
    where m: "map_of fs1 = (map_of ?fs)(yaml_file (st_history ?s) 1 \<mapsto> ''a'', json_file (st_history ?s) 1 \<mapsto> d)" by auto
  have now: "os_Now (demo_host m2) k = 7" for k by (simp add: demo_host_def)
  from n w \<open>o1\<close> have op: "(demo_open m2) = (Inr (?s\<lparr>st_revision := 1, st_updated := 7\<rparr>), fs1)"
    by (simp add: reconcile_def now del: opened_at_simps(5))
  have "host_law (demo_unmarshal m2) (demo_host m2) fs1"
    by (rule demo_temp) (auto simp: m yaml_file_def json_file_def split: if_splits)
  moreover have "session demo_lib (demo_unmarshal m2) (?s\<lparr>st_revision := 1, st_updated := 7\<rparr>) fs1"
    by (rule session.first [OF h a c free op [unfolded demo_open_def]])
  moreover have "map_of fs1 ''/c'' = Some ''a''"
    using m path_not_revision(1,2) [OF l, of 1] by simp
  ultimately show ?thesis
    using op by (intro exI [of _ "?s\<lparr>st_revision := 1, st_updated := 7\<rparr>"] exI [of _ fs1]) simp
qed

text \<open>The next step of the session: any request whose metadata the host can write.\<close>

lemma demo_applies:
  assumes o: "demo_open m2 = (Inr s, fs)" "host_law (demo_unmarshal m2) (demo_host m2) fs" "st_revision s = 1" "st_raw s = ''a''"
      "st_path s = ''/c''" "st_managed s" "map_of fs ''/c'' = Some ''a''"
    and q: "apply_meta (demo_host m2) req s = m2" "aq_ExpectedRevision req = 1" "length (aq_Raw req) \<le> maxDraftBytes"
  shows "\<exists>res s' fs'. Apply (demo_host m2) req s fs = (Inr res, s', fs')"
proof -
  have "\<exists>d. meta_Marshal (demo_host m2) m2 = Some d" by (simp add: demo_host_def)
  then obtain fs1 where w: "writeRevisionLocked (demo_host m2) (st_history s) m2 (aq_Raw req) fs = (True, fs1)" using demo_write by blast
  obtain fs2 where "atomicReplace (demo_host m2) ''/c'' (aq_Raw req) fs1 = (True, fs2)" using demo_replace by blast
  moreover have "checkExternalLocked (demo_host m2) s fs = None"
    by (simp add: checkExternalLocked_def os_ReadFile_def host_lawD(3) [OF o(2)] o)
  ultimately show ?thesis using w q o by (simp add: Apply_def Let_def)
qed

theorem apply_is_atomic_witness:
  "case (demo_open (demo_meta 2)) of (Inr s, fs) \<Rightarrow>
     (case Apply (demo_host (demo_meta 2)) demo_apply s fs of
        (Inr res, s', fs') \<Rightarrow>
          al_Revision res = 2 \<and> map_of fs' ''/c'' = Some ''b'' \<and> HistoryGet (demo_host (demo_meta 2)) 2 s' fs' = Inr (demo_meta 2, ''b'') \<and>
          HistoryGet (demo_host (demo_meta 2)) 1 s' fs' = HistoryGet (demo_host (demo_meta 2)) 1 s fs
      | (Inl e, s', fs') \<Rightarrow> False)
   | (Inl e, fs) \<Rightarrow> False"
proof -
  obtain s fs where o: "(demo_open (demo_meta 2)) = (Inr s, fs)" "session demo_lib (demo_unmarshal (demo_meta 2)) s fs" "host_law (demo_unmarshal (demo_meta 2)) (demo_host (demo_meta 2)) fs"
      "st_revision s = 1" "st_raw s = ''a''" "st_path s = ''/c''" "st_managed s" "map_of fs ''/c'' = Some ''a''"
    using demo_opened by blast
  have meta: "apply_meta (demo_host (demo_meta 2)) demo_apply s = demo_meta 2"
    by (simp add: apply_meta_def demo_apply_def demo_meta_def zero_meta_def o) (simp add: demo_host_def)
  have "aq_ExpectedRevision demo_apply = 1" "length (aq_Raw demo_apply) \<le> maxDraftBytes"
    by (simp_all add: demo_apply_def maxDraftBytes_def)
  from demo_applies [OF o(1,3-8) meta this] obtain res s' fs2 where a: "Apply (demo_host (demo_meta 2)) demo_apply s fs = (Inr res, s', fs2)"
    by blast
  from apply_is_atomic [OF o(2,3) _ a] meta Apply_meta [OF a] o demo_flags(4) have "al_Revision res = 2 \<and> map_of fs2 ''/c'' = Some ''b'' \<and>
      HistoryGet (demo_host (demo_meta 2)) 2 s' fs2 = Inr (demo_meta 2, ''b'') \<and> HistoryGet (demo_host (demo_meta 2)) 1 s' fs2 = HistoryGet (demo_host (demo_meta 2)) 1 s fs"
    by (simp add: demo_apply_def)
  then show ?thesis unfolding o(1) by (simp add: a)
qed

theorem reopen_recovers_witness:
  "case (demo_open (demo_meta 2)) of (Inr s, fs) \<Rightarrow> \<exists>s'. New_store demo_lib (demo_host (demo_meta 2)) ''/c'' ''a'' True fs = (Inr s', fs) \<and> Current s' = (1, ''a'')
   | (Inl e, fs) \<Rightarrow> False"
proof -
  obtain s fs where o: "(demo_open (demo_meta 2)) = (Inr s, fs)" "session demo_lib (demo_unmarshal (demo_meta 2)) s fs" "host_law (demo_unmarshal (demo_meta 2)) (demo_host (demo_meta 2)) fs"
      "st_revision s = 1" "st_raw s = ''a''" "st_path s = ''/c''" "map_of fs ''/c'' = Some ''a''"
    using demo_opened by blast
  have "TrimSpace demo_lib ''/c'' \<noteq> []" by code_simp
  with reopen_recovers [OF o(2,3), of "''/c''" "''a''"] o(4-7) demo_flags show ?thesis
    unfolding o(1) by (auto simp: Current_def)
qed


end
