(* ===== verification/ConfigSecret.thy ===== *)
theory ConfigSecret
  imports Pow "HOL-Library.Char_ord" "HOL-Library.List_Lexorder"
begin

text \<open>
  Secrets in configuration texts (\<^verbatim>\<open>internal/configctl/secret.go\<close>): redaction before a text is shown,
  and the merge that puts the live secrets back into an edited text.

  The YAML library is an argument \<open>Y\<close>: \<open>ynode\<close> is its tree of nodes with the fields the code reads
  and writes, \<open>yvalue\<close> a decoded document. The code changes nodes in place; here each function
  returns the changed tree, and an alias node carries the anchored node as it was parsed.

  Theorems: every secret is replaced by the placeholder and nothing else changes, merging an unedited
  redacted tree restores the original, and a merged text brings no secret of its own.
\<close>

section \<open>The YAML library\<close>

datatype ykind = ZeroNode | DocumentNode | SequenceNode | MappingNode | ScalarNode | AliasNode

datatype ynode = YNode (y_Kind: ykind) (y_Style: nat) (y_Tag: string) (y_Value: string) (y_Anchor: string)
  (y_Alias: "ynode option") (y_Content: "ynode list") (y_Comments: "string \<times> string \<times> string")

text \<open>A \<^verbatim>\<open>float64\<close>: a finite value is the mantissa times two to the exponent.\<close>

datatype f64 = Finite int int | PosInf | NegInf | NaN

text \<open>
  The values a document decodes to, by their Go types. A map is a list of entries with distinct
  keys; \<open>VAnyMap\<close> is \<^verbatim>\<open>map[interface{}]interface{}\<close>. A time is its instant and its zone.
\<close>

datatype yvalue = VNil | VBool bool | VInt int | VInt64 int | VUint64 int | VFloat f64 | VString string | VTime int int
  | VList "yvalue list" | VMap "(string \<times> yvalue) list" | VAnyMap "(yvalue \<times> yvalue) list"

record yamllib =
  yaml_Node :: "string \<Rightarrow> ynode option"
  yaml_Encode :: "ynode \<Rightarrow> nat \<Rightarrow> string option"
  yaml_Value :: "string \<Rightarrow> yvalue"
  node_Decode :: "ynode \<Rightarrow> yvalue option"
  fmt_Sprint :: "yvalue \<Rightarrow> string"

definition f64_less :: "f64 \<Rightarrow> f64 \<Rightarrow> bool" where
  "f64_less x y =
     (case (x, y) of
        (NaN, _) \<Rightarrow> False | (_, NaN) \<Rightarrow> False
      | (PosInf, _) \<Rightarrow> False | (_, NegInf) \<Rightarrow> False
      | (NegInf, _) \<Rightarrow> True | (_, PosInf) \<Rightarrow> True
      | (Finite a e, Finite b f) \<Rightarrow> if e \<le> f then a < b * 2 ^ nat (f - e) else a * 2 ^ nat (e - f) < b)"

definition f64_eq :: "f64 \<Rightarrow> f64 \<Rightarrow> bool" where
  "f64_eq x y = (x \<noteq> NaN \<and> y \<noteq> NaN \<and> \<not> f64_less x y \<and> \<not> f64_less y x)"

section \<open>Paths and nodes\<close>

definition sensitiveConfigPaths :: "string list" where
  "sensitiveConfigPaths = [''pow.public_salt'', ''pow.allowed_previous_salts'', ''storage.postgres.dsn'', ''storage.redis.password'',
     ''logging.log_salt'']"

definition isSensitivePath :: "golib \<Rightarrow> string \<Rightarrow> bool" where
  "isSensitivePath L path \<longleftrightarrow> ToLower L path \<in> set sensitiveConfigPaths"

definition joinPath :: "string \<Rightarrow> string \<Rightarrow> string" where
  "joinPath pfx key = (if pfx = [] then key else pfx @ ''.'' @ key)"

definition keepText :: string where "keepText = ''${SECRET:KEEP}''"

definition clearText :: string where "clearText = ''${SECRET:CLEAR}''"

definition setPlaceholder :: "ynode \<Rightarrow> string \<Rightarrow> ynode" where
  "setPlaceholder n text = YNode ScalarNode 0 ''!!str'' text (y_Anchor n) None [] (y_Comments n)"

fun deepCopyNode :: "ynode \<Rightarrow> ynode" where
  "deepCopyNode (YNode k st tg v an al cs cm) = YNode k st tg v an None (map deepCopyNode cs) cm"

definition docRoot :: "ynode \<Rightarrow> ynode" where
  "docRoot n = (if y_Kind n = DocumentNode then case y_Content n of [c] \<Rightarrow> c | _ \<Rightarrow> n else n)"

text \<open>A node whose root has been changed in place.\<close>

definition withRoot :: "ynode \<Rightarrow> ynode \<Rightarrow> ynode" where
  "withRoot n root =
     (if y_Kind n = DocumentNode \<and> length (y_Content n) = 1
      then YNode DocumentNode (y_Style n) (y_Tag n) (y_Value n) (y_Anchor n) (y_Alias n) [root] (y_Comments n)
      else root)"

definition withContent :: "ynode \<Rightarrow> ynode list \<Rightarrow> ynode" where
  "withContent n cs = YNode (y_Kind n) (y_Style n) (y_Tag n) (y_Value n) (y_Anchor n) (y_Alias n) cs (y_Comments n)"

definition emptyNode :: "ynode \<Rightarrow> ynode" where
  "emptyNode baseVal =
     (if y_Kind (docRoot baseVal) = SequenceNode then YNode SequenceNode 0 ''!!seq'' [] [] None [] ([], [], [])
      else YNode ScalarNode 2 ''!!str'' [] [] None [] ([], [], []))"

fun content_pairs :: "ynode list \<Rightarrow> (string \<times> ynode) list" where
  "content_pairs (k # v # rest) = (y_Value k, v) # content_pairs rest"
| "content_pairs _ = []"

text \<open>Later entries of a duplicated key win, as the assignments of the loop do.\<close>

definition mappingEntries :: "ynode \<Rightarrow> string \<Rightarrow> ynode option" where
  "mappingEntries n = (if y_Kind n = MappingNode then map_of (rev (content_pairs (y_Content n))) else Map.empty)"

definition scalarText :: "ynode \<Rightarrow> string option" where
  "scalarText n =
     (let r = docRoot n in if y_Kind r = ScalarNode \<and> (y_Tag r = ''!!str'' \<or> y_Tag r = []) then Some (y_Value r) else None)"

definition carriesPlaceholder :: "ynode \<Rightarrow> bool" where
  "carriesPlaceholder n = (case scalarText n of Some text \<Rightarrow> HasPrefix text ''${SECRET:'' | None \<Rightarrow> False)"

section \<open>Redaction\<close>

fun redactNode :: "golib \<Rightarrow> string \<Rightarrow> ynode \<Rightarrow> ynode"
  and redactAll :: "golib \<Rightarrow> string \<Rightarrow> ynode list \<Rightarrow> ynode list"
  and redactPairs :: "golib \<Rightarrow> string \<Rightarrow> ynode list \<Rightarrow> ynode list" where
  "redactNode L pfx (YNode k st tg v an al cs cm) =
     YNode k st tg v an al
       (case k of
          DocumentNode \<Rightarrow> redactAll L pfx cs
        | MappingNode \<Rightarrow> redactPairs L pfx cs
        | SequenceNode \<Rightarrow> redactAll L pfx cs
        | _ \<Rightarrow> cs) cm"
| "redactAll L pfx [] = []"
| "redactAll L pfx (c # cs) = redactNode L pfx c # redactAll L pfx cs"
| "redactPairs L pfx (key # val # rest) =
     key # (if isSensitivePath L (joinPath pfx (y_Value key)) then setPlaceholder val keepText
            else redactNode L (joinPath pfx (y_Value key)) val) # redactPairs L pfx rest"
| "redactPairs L pfx cs = cs"

fun crlf_to_lf :: "string \<Rightarrow> string" where
  "crlf_to_lf (a # b # rest) =
     (if a = CHR 0x0D \<and> b = newline then newline # crlf_to_lf rest else a # crlf_to_lf (b # rest))"
| "crlf_to_lf s = s"

definition normalizeCRLF :: "string \<Rightarrow> string" where
  "normalizeCRLF raw = (if CHR 0x0D \<in> set raw then crlf_to_lf raw else raw)"

definition line_indent :: "string \<Rightarrow> nat \<Rightarrow> nat" where
  "line_indent line width =
     (let trimmed = dropWhile (\<lambda>c. c = CHR '' '') line; n = length line - length trimmed in
      if trimmed = [] \<or> length trimmed = length line then width else if width = 0 \<or> n < width then n else width)"

primrec indent_lines :: "string list \<Rightarrow> nat \<Rightarrow> nat" where
  "indent_lines [] width = width"
| "indent_lines (line # lines) width = indent_lines lines (line_indent line width)"

definition detectIndent :: "string \<Rightarrow> nat" where
  "detectIndent raw = (let width = indent_lines (split_on newline raw) 0 in if width < 1 \<or> width > 8 then 2 else width)"

definition unavailableText :: string where "unavailableText = ''# redacted configuration unavailable''"

definition RedactYAML :: "golib \<Rightarrow> yamllib \<Rightarrow> string \<Rightarrow> string" where
  "RedactYAML L Y raw0 =
     (if raw0 = [] then []
      else let raw = normalizeCRLF raw0 in
        case yaml_Node Y raw of
          None \<Rightarrow> unavailableText
        | Some doc \<Rightarrow>
            (case yaml_Encode Y (redactNode L [] doc) (detectIndent raw) of None \<Rightarrow> unavailableText | Some out \<Rightarrow> out))"

section \<open>Comparison of values\<close>

text \<open>\<^verbatim>\<open>reflect.DeepEqual\<close> on decoded values.\<close>

function (sequential) equalValue :: "yvalue \<Rightarrow> yvalue \<Rightarrow> bool" where
  "equalValue (VFloat x) (VFloat y) = f64_eq x y"
| "equalValue (VList xs) (VList ys) = (length xs = length ys \<and> list_all (\<lambda>(x, y). equalValue x y) (zip xs ys))"
| "equalValue (VMap xs) (VMap ys) =
     (length xs = length ys \<and>
      list_all (\<lambda>(k, v). case map_of ys k of Some w \<Rightarrow> equalValue v w | None \<Rightarrow> False) xs)"
| "equalValue (VAnyMap xs) (VAnyMap ys) =
     (length xs = length ys \<and>
      list_all (\<lambda>(k, v). case map_of ys k of Some w \<Rightarrow> equalValue v w | None \<Rightarrow> False) xs)"
| "equalValue x y = (x = y)"
  by pat_completeness auto
termination
proof (relation "measure (\<lambda>(x, y). size x)", goal_cases)
  case (2 xs ys p x y)
  then have "x \<in> set xs" by (auto dest: set_zip_leftD)
  then show ?case by (auto intro: size_list_estimation simp: less_Suc_eq_le size_list_estimation')
qed (auto simp: less_Suc_eq_le intro!: size_list_estimation')

definition decodeNode :: "yamllib \<Rightarrow> ynode \<Rightarrow> yvalue" where
  "decodeNode Y n = (case node_Decode Y n of Some v \<Rightarrow> v | None \<Rightarrow> VNil)"

section \<open>Merging\<close>

datatype merge_error = NoBase | BadCandidate | BadBase | WasRemoved string | NoBaseValue string | MustUsePlaceholder string
  | NotSensitive string | WasAdded string | MarshalFailed

fun rejectSecretPlaceholderMap :: "golib \<Rightarrow> string \<Rightarrow> ynode \<Rightarrow> merge_error option"
  and reject_pairs :: "golib \<Rightarrow> string \<Rightarrow> ynode list \<Rightarrow> merge_error option" where
  "rejectSecretPlaceholderMap L pfx (YNode k st tg v an al cs cm) =
     (case k of
        MappingNode \<Rightarrow> reject_pairs L pfx cs
      | DocumentNode \<Rightarrow>
          (case cs of
             [YNode k' st' tg' v' an' al' cs' cm'] \<Rightarrow> if k' = MappingNode then reject_pairs L pfx cs' else None
           | _ \<Rightarrow> None)
      | _ \<Rightarrow> None)"
| "reject_pairs L pfx (key # val # rest) =
     (let path = joinPath pfx (y_Value key) in
      if isSensitivePath L path then Some (WasAdded path)
      else if carriesPlaceholder val then Some (NotSensitive path)
      else case rejectSecretPlaceholderMap L path val of
        Some e \<Rightarrow> Some e
      | None \<Rightarrow> reject_pairs L pfx rest)"
| "reject_pairs L pfx cs = None"

text \<open>Replacing the value of the last entry with a key.\<close>

fun set_pair :: "string \<Rightarrow> ynode \<Rightarrow> ynode list \<Rightarrow> ynode list" where
  "set_pair key new (k # v # rest) =
     (if y_Value k = key \<and> key \<notin> fst ` set (content_pairs rest) then k # new # rest else k # v # set_pair key new rest)"
| "set_pair key new cs = cs"

definition resolve :: "yamllib \<Rightarrow> string \<Rightarrow> ynode \<Rightarrow> ynode option \<Rightarrow> merge_error + ynode" where
  "resolve Y path val base =
     (case base of
        None \<Rightarrow> Inl (NoBaseValue path)
      | Some baseVal \<Rightarrow>
          if scalarText val = Some keepText then Inr (deepCopyNode baseVal)
          else if scalarText val = Some clearText then Inr (deepCopyNode (emptyNode baseVal))
          else if equalValue (decodeNode Y val) (decodeNode Y baseVal) then Inr val
          else Inl (MustUsePlaceholder path))"

text \<open>The loop over the candidate's entries.\<close>

fun merge_candidate :: "golib \<Rightarrow> yamllib \<Rightarrow> string \<Rightarrow> (string \<Rightarrow> ynode option) \<Rightarrow> ynode list \<Rightarrow> merge_error + ynode list" where
  "merge_candidate L Y pfx baseMap (k # val # rest) =
     (let path = joinPath pfx (y_Value k) in
      if isSensitivePath L path then
        case resolve Y path val (baseMap (y_Value k)) of
          Inl e \<Rightarrow> Inl e
        | Inr val' \<Rightarrow>
            (case merge_candidate L Y pfx baseMap rest of Inl e \<Rightarrow> Inl e | Inr rest' \<Rightarrow> Inr (k # val' # rest'))
      else if carriesPlaceholder val then Inl (NotSensitive path)
      else
        case (if baseMap (y_Value k) = None \<and> y_Kind (docRoot val) = MappingNode then rejectSecretPlaceholderMap L path val else None) of
          Some e \<Rightarrow> Inl e
        | None \<Rightarrow> (case merge_candidate L Y pfx baseMap rest of Inl e \<Rightarrow> Inl e | Inr rest' \<Rightarrow> Inr (k # val # rest')))"
| "merge_candidate L Y pfx baseMap cs = Inr cs"

lemma size_content: "size_list size (y_Content n) < size n"
  by (cases n) simp

lemma size_docRoot: "size_list size (y_Content (docRoot n)) < size n"
proof (cases "\<exists>c. y_Kind n = DocumentNode \<and> y_Content n = [c]")
  case True
  then obtain c where c: "docRoot n = c" "y_Content n = [c]" by (auto simp: docRoot_def)
  with size_content [of c] size_content [of n] show ?thesis by simp
next
  case False
  then have "docRoot n = n" by (auto simp: docRoot_def split: list.split)
  with size_content [of n] show ?thesis by simp
qed

text \<open>
  \<open>merge_base\<close> is the loop over the base's entries; its last argument is the content of the
  candidate, empty when the candidate is no mapping.
\<close>

function (sequential) mergeSecretNode :: "golib \<Rightarrow> yamllib \<Rightarrow> string \<Rightarrow> ynode \<Rightarrow> ynode \<Rightarrow> merge_error + ynode"
  and merge_base :: "golib \<Rightarrow> yamllib \<Rightarrow> string \<Rightarrow> ynode list \<Rightarrow> ynode list \<Rightarrow> merge_error + ynode list" where
  "mergeSecretNode L Y pfx cand base =
     (let c = docRoot cand; b = docRoot base in
      if y_Kind b \<noteq> MappingNode then Inr cand
      else
        case merge_base L Y pfx (y_Content b) (if y_Kind c = MappingNode then y_Content c else []) of
          Inl e \<Rightarrow> Inl e
        | Inr content \<Rightarrow>
            if y_Kind c \<noteq> MappingNode then Inr cand
            else
              case merge_candidate L Y pfx (mappingEntries b) content of
                Inl e \<Rightarrow> Inl e
              | Inr content' \<Rightarrow> Inr (withRoot cand (withContent c content')))"
| "merge_base L Y pfx (k # baseVal # rest) content =
     (let key = y_Value k; path = joinPath pfx key; entry = map_of (rev (content_pairs content)) key in
      if isSensitivePath L path then
        if entry = None then Inl (WasRemoved path) else merge_base L Y pfx rest content
      else if y_Kind (docRoot baseVal) = MappingNode then
        case entry of
          None \<Rightarrow> merge_base L Y pfx rest content
        | Some candVal \<Rightarrow>
            (case mergeSecretNode L Y path candVal baseVal of
               Inl e \<Rightarrow> Inl e
             | Inr candVal' \<Rightarrow> merge_base L Y pfx rest (set_pair key candVal' content))
      else merge_base L Y pfx rest content)"
| "merge_base L Y pfx bs content = Inr content"
  by pat_completeness auto
termination
  by (relation "measure (\<lambda>x. case x of Inl (L, Y, p, c, b) \<Rightarrow> size b | Inr (L, Y, p, bs, c) \<Rightarrow> size_list size bs)")
    (auto simp: size_docRoot)

definition mergeSecretPlaceholders :: "golib \<Rightarrow> yamllib \<Rightarrow> string \<Rightarrow> string \<Rightarrow> merge_error + string" where
  "mergeSecretPlaceholders L Y raw current =
     (if current = [] then Inl NoBase
      else let rawBytes = normalizeCRLF raw in
        case yaml_Node Y rawBytes of
          None \<Rightarrow> Inl BadCandidate
        | Some candidate \<Rightarrow>
            (case yaml_Node Y (normalizeCRLF current) of
               None \<Rightarrow> Inl BadBase
             | Some base \<Rightarrow>
                 (case mergeSecretNode L Y [] candidate base of
                    Inl e \<Rightarrow> Inl e
                  | Inr merged \<Rightarrow>
                      (case yaml_Encode Y merged (detectIndent rawBytes) of None \<Rightarrow> Inl MarshalFailed | Some out \<Rightarrow> Inr out))))"

section \<open>What a redacted tree shows\<close>

text \<open>No key on the path is that of a secret.\<close>

fun public_along :: "golib \<Rightarrow> string \<Rightarrow> string list \<Rightarrow> bool" where
  "public_along L pfx [] \<longleftrightarrow> True"
| "public_along L pfx (k # ks) \<longleftrightarrow> \<not> isSensitivePath L (joinPath pfx k) \<and> public_along L (joinPath pfx k) ks"

text \<open>
  The nodes that a path of keys leads to, through documents, lists and every entry of a repeated
  key, as the redaction walks; an alias is not followed.
\<close>

fun nodes_at :: "string list \<Rightarrow> ynode \<Rightarrow> ynode list"
  and all_at :: "string list \<Rightarrow> ynode list \<Rightarrow> ynode list"
  and pairs_at :: "string \<Rightarrow> string list \<Rightarrow> ynode list \<Rightarrow> ynode list" where
  "nodes_at [] n = [n]"
| "nodes_at (k # ks) (YNode kd st tg v an al cs cm) =
     (case kd of
        DocumentNode \<Rightarrow> all_at (k # ks) cs
      | SequenceNode \<Rightarrow> all_at (k # ks) cs
      | MappingNode \<Rightarrow> pairs_at k ks cs
      | _ \<Rightarrow> [])"
| "all_at ks [] = []"
| "all_at ks (c # cs) = nodes_at ks c @ all_at ks cs"
| "pairs_at k ks (key # val # rest) = (if y_Value key = k then nodes_at ks val else []) @ pairs_at k ks rest"
| "pairs_at k ks cs = []"

fun dotted_path :: "string list \<Rightarrow> string" where
  "dotted_path [] = []"
| "dotted_path [k] = k"
| "dotted_path (k # ks) = k @ ''.'' @ dotted_path ks"

definition secret_path :: "golib \<Rightarrow> string list \<Rightarrow> bool" where
  "secret_path L ks \<longleftrightarrow> ToLower L (dotted_path ks) \<in>
     {''pow.public_salt'', ''pow.allowed_previous_salts'', ''storage.postgres.dsn'', ''storage.redis.password'', ''logging.log_salt''}"

definition public_keys :: "golib \<Rightarrow> string list \<Rightarrow> bool" where
  "public_keys L ks \<longleftrightarrow> (\<forall>xs \<in> set (prefixes ks). xs \<noteq> [] \<longrightarrow> \<not> secret_path L xs)"

definition placeholder :: "ynode \<Rightarrow> bool" where
  "placeholder v \<longleftrightarrow> y_Kind v = ScalarNode \<and> y_Value v = ''${SECRET:KEEP}'' \<and> y_Tag v = ''!!str'' \<and> y_Content v = [] \<and> y_Alias v = None"

lemma joinPath_dotted: "[] \<notin> set ks \<Longrightarrow> foldl joinPath p ks = (if ks = [] then p else if p = [] then dotted_path ks else p @ ''.'' @ dotted_path ks)"
proof (induction ks arbitrary: p)
  case (Cons k ks)
  then have "k \<noteq> []" by auto
  with Cons show ?case by (cases ks) (auto simp: joinPath_def)
qed simp

lemma secret_path_iff: "[] \<notin> set ks \<Longrightarrow> secret_path L ks \<longleftrightarrow> isSensitivePath L (foldl joinPath [] ks)"
  by (simp add: joinPath_dotted secret_path_def isSensitivePath_def sensitiveConfigPaths_def)

lemma setPlaceholder_placeholder: "placeholder (setPlaceholder v keepText)"
  by (simp add: placeholder_def setPlaceholder_def keepText_def)

lemma nodes_below_placeholder: "nodes_at (k # ks) (setPlaceholder v t) = []"
  by (simp add: setPlaceholder_def)

text \<open>Below a prefix: the secret nodes of a redacted tree are placeholders.\<close>

lemma redacted_nodes:
  "isSensitivePath L (foldl joinPath p ks) \<Longrightarrow> ks \<noteq> [] \<Longrightarrow> v \<in> set (nodes_at ks (redactNode L p n)) \<Longrightarrow> placeholder v"
  "isSensitivePath L (foldl joinPath p ks) \<Longrightarrow> ks \<noteq> [] \<Longrightarrow> v \<in> set (all_at ks (redactAll L p cs)) \<Longrightarrow> placeholder v"
  "isSensitivePath L (foldl joinPath p (k # ks)) \<Longrightarrow> v \<in> set (pairs_at k ks (redactPairs L p cs)) \<Longrightarrow> placeholder v"
proof (induction ks n and ks cs and k ks cs arbitrary: p and p and p rule: nodes_at_all_at_pairs_at.induct)
  case (2 k ks kd st tg v' an al cs cm)
  then show ?case by (auto split: ykind.splits)
next
  case (4 ks c cs)
  then show ?case by auto
next
  case (5 k ks key val rest)
  show ?case
  proof (cases "v \<in> set (pairs_at k ks (redactPairs L p rest))")
    case True
    with 5(2,3) show ?thesis by blast
  next
    case False
    show ?thesis
    proof (cases "isSensitivePath L (joinPath p k)")
      case True
      with 5(4) False show ?thesis
        by (cases ks) (auto simp: nodes_below_placeholder setPlaceholder_placeholder split: if_splits)
    next
      case public: False
      with 5(3) have "ks \<noteq> []" by auto
      with 5(1) [of "joinPath p k"] 5(3,4) False public show ?thesis by (auto split: if_splits)
    qed
  qed
qed auto

lemma public_nodes:
  "public_along L p ks \<Longrightarrow> nodes_at ks (redactNode L p n) = map (redactNode L (foldl joinPath p ks)) (nodes_at ks n)"
  "public_along L p ks \<Longrightarrow> ks \<noteq> [] \<Longrightarrow> all_at ks (redactAll L p cs) = map (redactNode L (foldl joinPath p ks)) (all_at ks cs)"
  "public_along L p (k # ks) \<Longrightarrow>
     pairs_at k ks (redactPairs L p cs) = map (redactNode L (foldl joinPath p (k # ks))) (pairs_at k ks cs)"
proof (induction ks n and ks cs and k ks cs arbitrary: p and p and p rule: nodes_at_all_at_pairs_at.induct)
  case (2 k ks kd st tg v' an al cs cm)
  then show ?case by (auto split: ykind.splits)
next
  case (5 k ks key val rest)
  then show ?case by auto
qed auto

lemma secret_count:
  "public_along L p (butlast ks) \<Longrightarrow> length (nodes_at ks (redactNode L p n)) = length (nodes_at ks n)"
  "public_along L p (butlast ks) \<Longrightarrow> ks \<noteq> [] \<Longrightarrow> length (all_at ks (redactAll L p cs)) = length (all_at ks cs)"
  "public_along L p (butlast (k # ks)) \<Longrightarrow> length (pairs_at k ks (redactPairs L p cs)) = length (pairs_at k ks cs)"
proof (induction ks n and ks cs and k ks cs arbitrary: p and p and p rule: nodes_at_all_at_pairs_at.induct)
  case (2 k ks kd st tg v' an al cs cm)
  then show ?case by (auto split: ykind.splits)
next
  case (5 k ks key val rest)
  then show ?case by (cases ks) auto
qed auto

lemma public_path_along:
  assumes "[] \<notin> set ks" and "public_keys L ks"
  shows "public_along L [] ks"
proof -
  have "public_along L (foldl joinPath [] xs) ys" if "ks = xs @ ys" for xs ys
    using that
  proof (induction ys arbitrary: xs)
    case (Cons y ys)
    have "\<not> secret_path L (xs @ [y])" using assms(2) Cons.prems by (auto simp: public_keys_def in_set_prefixes)
    then have "\<not> isSensitivePath L (joinPath (foldl joinPath [] xs) y)"
      using secret_path_iff [of "xs @ [y]" L] assms(1) Cons.prems by auto
    with Cons.IH [of "xs @ [y]"] Cons.prems show ?case by simp
  qed simp
  from this [of "[]" ks] show ?thesis by simp
qed

section \<open>Restoring an unedited text\<close>

text \<open>
  The trees for which the merge undoes the redaction: keys are not repeated, no sensitive value
  holds an alias, nothing inside a list is redacted, and no public text looks like a placeholder.
\<close>

fun mergeable :: "golib \<Rightarrow> string \<Rightarrow> ynode \<Rightarrow> bool"
  and mergeablePairs :: "golib \<Rightarrow> string \<Rightarrow> ynode list \<Rightarrow> bool" where
  "mergeable L pfx (YNode k st tg v an al cs cm) \<longleftrightarrow>
     (case k of
        MappingNode \<Rightarrow> distinct (map fst (content_pairs cs)) \<and> mergeablePairs L pfx cs
      | SequenceNode \<Rightarrow> redactAll L pfx cs = cs
      | DocumentNode \<Rightarrow> False
      | _ \<Rightarrow> True)"
| "mergeablePairs L pfx (key # val # rest) \<longleftrightarrow>
     (if isSensitivePath L (joinPath pfx (y_Value key)) then deepCopyNode val = val
      else mergeable L (joinPath pfx (y_Value key)) val \<and> \<not> carriesPlaceholder val) \<and>
     mergeablePairs L pfx rest"
| "mergeablePairs L pfx cs \<longleftrightarrow> cs = []"

definition restorable :: "golib \<Rightarrow> ynode \<Rightarrow> bool" where
  "restorable L n \<longleftrightarrow>
     (case y_Content n of [root] \<Rightarrow> y_Kind n = DocumentNode \<and> y_Kind root = MappingNode \<and> mergeable L [] root | _ \<Rightarrow> False)"

text \<open>The content after the loop over the base: public values are back, placeholders remain.\<close>

fun restoredPairs :: "golib \<Rightarrow> string \<Rightarrow> ynode list \<Rightarrow> ynode list" where
  "restoredPairs L pfx (key # val # rest) =
     key # (if isSensitivePath L (joinPath pfx (y_Value key)) then setPlaceholder val keepText else val) # restoredPairs L pfx rest"
| "restoredPairs L pfx cs = cs"

lemma content_pairs_append: "even (length xs) \<Longrightarrow> content_pairs (xs @ ys) = content_pairs xs @ content_pairs ys"
  by (induction xs rule: content_pairs.induct) auto

lemma keys_redactPairs [simp]: "map fst (content_pairs (redactPairs L p cs)) = map fst (content_pairs cs)"
  by (induction cs rule: content_pairs.induct) auto

lemma set_pair_append:
  assumes "even (length xs)" and "key \<notin> fst ` set (content_pairs xs)"
  shows "set_pair key new (xs @ ys) = xs @ set_pair key new ys"
  using assms by (induction xs rule: content_pairs.induct) auto

lemma map_of_rev_distinct: "distinct (map fst ps) \<Longrightarrow> map_of (rev ps) = map_of ps"
  by (metis distinct_rev map_of_eqI map_of_inject_set rev_map set_rev)

lemma y_Kind_redactNode [simp]: "y_Kind (redactNode L p n) = y_Kind n"
  by (cases n) simp

lemma y_Content_mapping: "y_Kind n = MappingNode \<Longrightarrow> y_Content (redactNode L p n) = redactPairs L p (y_Content n)"
  by (cases n) simp

lemma docRoot_not_document [simp]: "y_Kind n \<noteq> DocumentNode \<Longrightarrow> docRoot n = n"
  by (simp add: docRoot_def)

lemma mergeable_leaf: "mergeable L p n \<Longrightarrow> y_Kind n \<noteq> MappingNode \<Longrightarrow> redactNode L p n = n"
  by (cases n) (auto split: ykind.splits)

lemma mergeable_kind: "mergeable L p n \<Longrightarrow> y_Kind n \<noteq> DocumentNode"
  by (cases n) auto

lemma scalarText_placeholder: "scalarText (setPlaceholder v t) = Some t"
  by (simp add: scalarText_def setPlaceholder_def docRoot_def)

lemma merge_candidate_restores:
  assumes "mergeablePairs L p cs" and "\<And>k v. (k, v) \<in> set (content_pairs cs) \<Longrightarrow> baseMap k = Some v"
  shows "merge_candidate L Y p baseMap (restoredPairs L p cs) = Inr cs"
  using assms
proof (induction cs rule: content_pairs.induct)
  case (1 k v rest)
  then have "merge_candidate L Y p baseMap (restoredPairs L p rest) = Inr rest" and "baseMap (y_Value k) = Some v"
    by auto
  with 1(2) show ?case
    by (simp add: resolve_def scalarText_placeholder split: if_splits)
qed auto

lemma keys_restoredPairs [simp]: "map fst (content_pairs (restoredPairs L p cs)) = map fst (content_pairs cs)"
  by (induction cs rule: content_pairs.induct) auto

lemma withContent_same [simp]: "y_Kind n = MappingNode \<Longrightarrow> withContent (redactNode L p n) (y_Content n) = n"
  by (cases n) (simp add: withContent_def)

lemma withRoot_not_document [simp]: "y_Kind n \<noteq> DocumentNode \<Longrightarrow> withRoot n r = r"
  by (simp add: withRoot_def)

text \<open>One entry of the base, when the loop reaches its redacted image.\<close>

lemma lookup_at:
  assumes "even (length xs)" and "y_Value k \<notin> fst ` set (content_pairs xs)" and "y_Value k \<notin> fst ` set (content_pairs rest)"
  shows "map_of (rev (content_pairs (xs @ k # v # rest))) (y_Value k) = Some v"
    and "set_pair (y_Value k) new (xs @ k # v # rest) = xs @ k # new # rest"
proof -
  have "map_of (rev (content_pairs rest)) (y_Value k) = None" "map_of (rev (content_pairs xs)) (y_Value k) = None"
    using assms by (auto simp: map_of_eq_None_iff)
  then show "map_of (rev (content_pairs (xs @ k # v # rest))) (y_Value k) = Some v"
    using assms by (simp add: content_pairs_append map_add_def)
  show "set_pair (y_Value k) new (xs @ k # v # rest) = xs @ k # new # rest"
    using assms by (simp add: set_pair_append)
qed

lemma merge_redacted:
  "mergeable L pfx n \<Longrightarrow> y_Kind n = MappingNode \<Longrightarrow> mergeSecretNode L Y pfx (redactNode L pfx n) n = Inr n"
  "mergeablePairs L pfx bs \<Longrightarrow> distinct (map fst (content_pairs bs)) \<Longrightarrow> even (length done') \<Longrightarrow>
    fst ` set (content_pairs done') \<inter> fst ` set (content_pairs bs) = {} \<Longrightarrow>
    merge_base L Y pfx bs (done' @ redactPairs L pfx bs) = Inr (done' @ restoredPairs L pfx bs)"
proof (induction L pfx n and L pfx bs arbitrary: and done' rule: mergeable_mergeablePairs.induct)
  case (1 L pfx k st tg v an al cs cm)
  let ?n = "YNode k st tg v an al cs cm"
  from 1 have k: "k = MappingNode" and d: "distinct (map fst (content_pairs cs))" and m: "mergeablePairs L pfx cs" by auto
  have b: "merge_base L Y pfx cs (redactPairs L pfx cs) = Inr (restoredPairs L pfx cs)"
    using 1(1) [OF k m d, of "[]"] by simp
  have "mappingEntries ?n = map_of (content_pairs cs)"
    using k d by (simp add: mappingEntries_def map_of_rev_distinct)
  then have "merge_candidate L Y pfx (mappingEntries ?n) (restoredPairs L pfx cs) = Inr cs"
    using merge_candidate_restores [OF m, of "mappingEntries ?n"] d by simp
  with b k show ?case by (simp add: withContent_def Let_def)
next
  case (2 L pfx key val rest)
  let ?path = "joinPath pfx (y_Value key)"
  have out: "y_Value key \<notin> fst ` set (content_pairs done')" and rest: "y_Value key \<notin> fst ` set (content_pairs rest)"
    using 2(4,6) by auto
  have keys: "y_Value key \<notin> fst ` set (content_pairs (redactPairs L pfx rest))"
    using rest by (metis keys_redactPairs list.set_map)
  have step: "merge_base L Y pfx rest ((done' @ [key, x]) @ redactPairs L pfx rest) = Inr ((done' @ [key, x]) @ restoredPairs L pfx rest)" for x
    by (rule "2.IH"(2)) (use 2(3-6) rest in \<open>auto simp: content_pairs_append\<close>)
  show ?case
  proof (cases "isSensitivePath L ?path")
    case True
    with lookup_at(1) [OF 2(5) out keys] step show ?thesis by (simp add: Let_def)
  next
    case False
    with 2(3) have m: "mergeable L ?path val" by simp
    show ?thesis
    proof (cases "y_Kind val = MappingNode")
      case True
      with False m "2.IH"(1) lookup_at [OF 2(5) out keys] step show ?thesis by (simp add: Let_def)
    next
      case not_map: False
      with False m mergeable_leaf mergeable_kind step show ?thesis by (simp add: Let_def)
    qed
  qed
qed auto

section \<open>Where merged secrets come from\<close>

declare mergeSecretNode.simps [simp del]

abbreviation entry :: "ynode list \<Rightarrow> string \<Rightarrow> ynode option" where
  "entry cs \<equiv> map_of (rev (content_pairs cs))"

lemma keys_set_pair [simp]: "map fst (content_pairs (set_pair key new cs)) = map fst (content_pairs cs)"
  by (induction cs rule: content_pairs.induct) auto

lemma entry_None_iff: "entry cs k = None \<longleftrightarrow> k \<notin> set (map fst (content_pairs cs))"
  by (simp add: map_of_eq_None_iff)

lemma entry_set_pair: "entry (set_pair key new cs) k = (if k = key \<and> entry cs key \<noteq> None then Some new else entry cs k)"
proof (induction cs rule: content_pairs.induct)
  case (1 a v rest)
  have none: "entry (set_pair key new rest) x = None \<longleftrightarrow> entry rest x = None" for x
    by (metis entry_None_iff keys_set_pair)
  have iff: "key \<notin> fst ` set (content_pairs rest) \<longleftrightarrow> entry rest key = None"
    by (simp add: map_of_eq_None_iff)
  show ?case
    using 1 none [of k] none [of key] unfolding set_pair.simps(1) iff
    by (auto simp: map_add_def split: option.split if_splits)
qed auto

text \<open>A value that both sides hold as a mapping has been merged with the base's value.\<close>

lemma merge_base_entry:
  assumes "merge_base L Y pfx bs content = Inr content'" and "distinct (map fst (content_pairs bs))"
    and "(k, b) \<in> set (content_pairs bs)" and "\<not> isSensitivePath L (joinPath pfx k)" and "y_Kind (docRoot b) = MappingNode"
    and "entry content' k = Some v"
  shows "\<exists>cv. mergeSecretNode L Y (joinPath pfx k) cv b = Inr v"
proof -
  have other: "entry content' k = entry content k"
    if "merge_base L Y pfx bs content = Inr content'" "k \<notin> fst ` set (content_pairs bs)" for bs content content' k
    using that
  proof (induction bs arbitrary: content rule: content_pairs.induct)
    case (1 a v rest)
    then show ?case by (auto simp: Let_def entry_set_pair split: if_splits option.splits sum.splits)
  qed auto
  show ?thesis
    using assms
  proof (induction bs arbitrary: content rule: content_pairs.induct)
    case (1 a w rest)
    show ?case
    proof (cases "y_Value a = k")
      case True
      with 1 have "b = w" by force
      have rest: "k \<notin> fst ` set (content_pairs rest)" using 1 True by auto
      show ?thesis
      proof (cases "entry content k")
        case None
        with 1(2,5,6) True \<open>b = w\<close> have "merge_base L Y pfx rest content = Inr content'" by (simp add: Let_def)
        from other [OF this rest] None 1(7) show ?thesis by simp
      next
        case (Some cv)
        with 1(2,5,6) True \<open>b = w\<close> obtain cv' where cv': "mergeSecretNode L Y (joinPath pfx k) cv b = Inr cv'"
            and m: "merge_base L Y pfx rest (set_pair k cv' content) = Inr content'"
          by (auto simp: Let_def split: sum.splits)
        from other [OF m rest] Some have "entry content' k = Some cv'" by (simp add: entry_set_pair)
        with cv' 1(7) show ?thesis by auto
      qed
    next
      case False
      with 1 show ?thesis by (auto simp: Let_def split: if_splits option.splits sum.splits)
    qed
  qed auto
qed

definition from_base :: "yamllib \<Rightarrow> ynode \<Rightarrow> ynode \<Rightarrow> bool" where
  "from_base Y b v \<longleftrightarrow>
     v = deepCopyNode b \<or> v = deepCopyNode (emptyNode b) \<or> equalValue (decodeNode Y v) (decodeNode Y b)"

lemma resolve_from_base: "resolve Y path val bo = Inr v \<Longrightarrow> \<exists>b. bo = Some b \<and> from_base Y b v"
  by (auto simp: resolve_def from_base_def split: option.splits if_splits)

lemma merge_candidate_entry:
  assumes "merge_candidate L Y pfx baseMap cs = Inr cs'" and "entry cs' k = Some v"
  shows "if isSensitivePath L (joinPath pfx k) then \<exists>b. baseMap k = Some b \<and> from_base Y b v else entry cs k = Some v"
proof -
  have same: "map fst (content_pairs cs') = map fst (content_pairs cs)" if "merge_candidate L Y pfx baseMap cs = Inr cs'" for cs cs'
    using that
    by (induction cs arbitrary: cs' rule: content_pairs.induct) (auto simp: Let_def split: if_splits sum.splits option.splits)
  show ?thesis
    using assms
  proof (induction cs arbitrary: cs' rule: content_pairs.induct)
    case (1 a w rest)
    then obtain w' rest' where cs': "cs' = a # w' # rest'" and m: "merge_candidate L Y pfx baseMap rest = Inr rest'"
      and w': "if isSensitivePath L (joinPath pfx (y_Value a)) then resolve Y (joinPath pfx (y_Value a)) w (baseMap (y_Value a)) = Inr w' else w' = w"
      by (auto simp: Let_def split: if_splits sum.splits option.splits)
    show ?case
    proof (cases "entry rest' k")
      case None
      then have "entry rest k = None" using same [OF m] by (metis entry_None_iff)
      with None 1(3) cs' w' resolve_from_base show ?thesis
        by (auto simp: map_add_def split: if_splits dest!: resolve_from_base)
    next
      case (Some u)
      with 1(3) cs' have "u = v" by simp
      with 1(1) [OF m, of ] Some show ?thesis by (auto simp: map_add_def split: if_splits)
    qed
  qed auto
qed

lemma mapping_entry: "y_Kind n = MappingNode \<Longrightarrow> mappingEntries n = entry (y_Content n)"
  by (simp add: mappingEntries_def)

lemma merge_inverts:
  assumes "mergeSecretNode L Y pfx cand base = Inr r" and "y_Kind (docRoot base) = MappingNode" and "y_Kind (docRoot r) = MappingNode"
  shows "\<exists>content content'. merge_base L Y pfx (y_Content (docRoot base)) content = Inr content' \<and>
    merge_candidate L Y pfx (mappingEntries (docRoot base)) content' = Inr (y_Content (docRoot r))"
proof -
  have "y_Kind (docRoot cand) = MappingNode"
    using assms by (auto simp: mergeSecretNode.simps Let_def split: sum.splits if_splits)
  moreover have "docRoot (withRoot cand (withContent (docRoot cand) cs)) = withContent (docRoot cand) cs"
    if "y_Kind (docRoot cand) = MappingNode" for cs
    using that by (cases cand) (auto simp: withRoot_def docRoot_def withContent_def split: list.splits)
  ultimately show ?thesis
    using assms by (fastforce simp: mergeSecretNode.simps Let_def withContent_def split: sum.splits if_splits)
qed

text \<open>The mapping at a path of keys, and the condition on the way to it.\<close>

fun walk :: "string list \<Rightarrow> ynode \<Rightarrow> ynode option" where
  "walk [] n = Some (docRoot n)"
| "walk (k # ks) n = (case mappingEntries (docRoot n) k of None \<Rightarrow> None | Some v \<Rightarrow> walk ks v)"

fun unique_along :: "string list \<Rightarrow> ynode \<Rightarrow> bool" where
  "unique_along [] n \<longleftrightarrow> True"
| "unique_along (k # ks) n \<longleftrightarrow>
     (y_Kind (docRoot n) = MappingNode \<longrightarrow> distinct (map fst (content_pairs (y_Content (docRoot n))))) \<and>
     (case mappingEntries (docRoot n) k of None \<Rightarrow> True | Some v \<Rightarrow> unique_along ks v)"

lemma mappingEntries_kind: "mappingEntries n k = Some v \<Longrightarrow> y_Kind n = MappingNode"
  by (auto simp: mappingEntries_def split: if_splits)

lemma walk_mapping: "walk ks n = Some m \<Longrightarrow> y_Kind m = MappingNode \<Longrightarrow> y_Kind (docRoot n) = MappingNode"
  by (cases ks) (auto split: option.splits dest: mappingEntries_kind)

lemma merged_value:
  assumes "mergeSecretNode L Y pfx cand base = Inr r" and "unique_along ks base" and "public_along L pfx ks"
    and "walk ks base = Some b" and "y_Kind b = MappingNode" and "walk ks r = Some m" and "mappingEntries m k = Some v"
    and "isSensitivePath L (joinPath (foldl joinPath pfx ks) k)"
  shows "\<exists>bv. mappingEntries b k = Some bv \<and> from_base Y bv v"
  using assms
proof (induction ks arbitrary: pfx cand base r)
  case Nil
  then have b: "b = docRoot base" and m: "m = docRoot r" and "y_Kind (docRoot r) = MappingNode"
    by (auto dest: mappingEntries_kind)
  with Nil(1,5) obtain c c' where "merge_candidate L Y pfx (mappingEntries (docRoot base)) c' = Inr (y_Content (docRoot r))"
    using merge_inverts by blast
  from merge_candidate_entry [OF this, of k v] Nil(7,8) m b mapping_entry [OF \<open>y_Kind (docRoot r) = MappingNode\<close>]
  show ?case by simp
next
  case (Cons k1 ks)
  from Cons.prems(6,7) have kr: "y_Kind (docRoot r) = MappingNode"
    by (auto split: option.splits dest: mappingEntries_kind)
  have kb: "y_Kind (docRoot base) = MappingNode" by (rule walk_mapping [OF Cons.prems(4,5)])
  obtain c c' where mb: "merge_base L Y pfx (y_Content (docRoot base)) c = Inr c'"
    and mc: "merge_candidate L Y pfx (mappingEntries (docRoot base)) c' = Inr (y_Content (docRoot r))"
    using merge_inverts [OF Cons.prems(1) kb kr] by blast
  obtain v1 where v1: "entry (y_Content (docRoot r)) k1 = Some v1" "walk ks v1 = Some m"
    using Cons.prems(6) mapping_entry [OF kr] by (auto split: option.splits)
  obtain b1 where b1: "entry (y_Content (docRoot base)) k1 = Some b1" "walk ks b1 = Some b" "unique_along ks b1"
    using Cons.prems(2,4) mapping_entry [OF kb] by (auto split: option.splits)
  have "entry c' k1 = Some v1"
    using merge_candidate_entry [OF mc v1(1)] Cons.prems(3) by simp
  moreover have "(k1, b1) \<in> set (content_pairs (y_Content (docRoot base)))"
    using map_of_SomeD [OF b1(1)] by simp
  moreover have "distinct (map fst (content_pairs (y_Content (docRoot base))))" "\<not> isSensitivePath L (joinPath pfx k1)"
    using Cons.prems(2,3) kb by auto
  ultimately obtain cv where "mergeSecretNode L Y (joinPath pfx k1) cv b1 = Inr v1"
    using merge_base_entry [OF mb, of k1 b1 v1] walk_mapping [OF b1(2) Cons.prems(5)] by blast
  from Cons.IH [OF this b1(3) _ b1(2) Cons.prems(5) v1(2) Cons.prems(7)] Cons.prems(3,8) show ?case by simp
qed

section \<open>Properties\<close>

text \<open>
  C32: Redaction replaces the secrets and nothing else. In the redacted tree every node at one of the five
  secret paths, written in any letter case and reached through mappings, lists and repeated keys,
  is the placeholder, one for each node that was there; at a path that no secret is on, every
  scalar is unchanged. Aliases are not followed: a secret behind one is shown
  (\<open>secret_protection_gaps\<close>).
\<close>

theorem redaction_replaces_secrets:
  assumes "[] \<notin> set ks" and "ks \<noteq> []"
  shows "(secret_path L ks \<longrightarrow> (\<forall>v \<in> set (nodes_at ks (redactNode L [] n)). placeholder v)) \<and>
    (public_keys L (butlast ks) \<longrightarrow> length (nodes_at ks (redactNode L [] n)) = length (nodes_at ks n)) \<and>
    (public_keys L ks \<longrightarrow>
      filter (\<lambda>v. y_Kind v = ScalarNode) (nodes_at ks (redactNode L [] n)) = filter (\<lambda>v. y_Kind v = ScalarNode) (nodes_at ks n))"
proof (intro conjI impI ballI)
  show "placeholder v" if "secret_path L ks" "v \<in> set (nodes_at ks (redactNode L [] n))" for v
    using redacted_nodes(1) [OF _ assms(2) that(2)] that(1) secret_path_iff [OF assms(1)] by blast
  show "length (nodes_at ks (redactNode L [] n)) = length (nodes_at ks n)" if "public_keys L (butlast ks)"
    using public_path_along [OF _ that] assms(1) by (intro secret_count(1)) (meson in_set_butlastD)
  assume "public_keys L ks"
  then have nodes: "nodes_at ks (redactNode L [] n) = map (redactNode L (foldl joinPath [] ks)) (nodes_at ks n)"
    by (intro public_nodes(1) public_path_along assms(1))
  have "redactNode L p v = v" if "y_Kind v = ScalarNode" for p v using that by (cases v) simp
  then have "filter (\<lambda>v. y_Kind v = ScalarNode) (map (redactNode L p) vs) = filter (\<lambda>v. y_Kind v = ScalarNode) vs" for p vs
    by (induction vs) auto
  then show "filter (\<lambda>v. y_Kind v = ScalarNode) (nodes_at ks (redactNode L [] n)) = filter (\<lambda>v. y_Kind v = ScalarNode) (nodes_at ks n)"
    unfolding nodes .
qed

text \<open>
  C33: A redacted text that is saved without an edit restores the configuration: the merge yields
  the encoding of the original tree, every secret included. The tree must be \<open>restorable\<close>: its keys
  are not repeated, no secret holds an alias, no list holds a secret, and no public text looks like a placeholder. The
  library is assumed to parse the redacted text it has written back to the same tree.
\<close>

theorem unedited_text_restores:
  assumes "raw \<noteq> []" and "yaml_Node Y (normalizeCRLF raw) = Some doc" and "restorable L doc"
    and "yaml_Encode Y (redactNode L [] doc) (detectIndent (normalizeCRLF raw)) = Some shown"
    and "yaml_Node Y (normalizeCRLF shown) = Some (redactNode L [] doc)"
    and "yaml_Encode Y doc (detectIndent (normalizeCRLF shown)) = Some out"
  shows "mergeSecretPlaceholders L Y (RedactYAML L Y raw) raw = Inr out"
proof -
  obtain k st tg v an al root cm where doc: "doc = YNode k st tg v an al [root] cm"
    using assms(3) by (cases doc) (auto simp: restorable_def split: list.splits)
  with assms(3) have k: "k = DocumentNode" and root: "y_Kind root = MappingNode" "mergeable L [] root"
    by (auto simp: restorable_def)
  have "redactNode L [] doc = YNode DocumentNode st tg v an al [redactNode L [] root] cm" by (simp add: doc k)
  moreover have "mergeSecretNode L Y [] (YNode DocumentNode st tg v an al [redactNode L [] root] cm) doc = Inr doc"
    using merge_redacted(1) [OF root(2,1), of Y] root
    by (auto simp: mergeSecretNode.simps doc k docRoot_def withRoot_def Let_def split: sum.splits)
  ultimately show ?thesis
    using assms by (simp add: RedactYAML_def mergeSecretPlaceholders_def Let_def)
qed

text \<open>
  C34: An edited text brings no secret of its own. Wherever the base and the merged tree both have a
  mapping, a sensitive value of the merged tree has a counterpart in the base and is its copy, its
  cleared form, or a literal that decodes to the same value.
\<close>

theorem merged_secrets_come_from_base:
  assumes "mergeSecretNode L Y [] cand base = Inr r" and "unique_along ks base" and "public_along L [] ks"
    and "walk ks base = Some b" and "y_Kind b = MappingNode" and "walk ks r = Some m" and "mappingEntries m k = Some v"
    and "isSensitivePath L (joinPath (foldl joinPath [] ks) k)"
  shows "\<exists>bv. mappingEntries b k = Some bv \<and> from_base Y bv v"
  by (rule merged_value [OF assms])

section \<open>Concrete texts\<close>

definition y_scalar :: "string \<Rightarrow> ynode" where
  "y_scalar s = YNode ScalarNode 0 ''!!str'' s [] None [] ([], [], [])"

definition y_null :: ynode where
  "y_null = YNode ScalarNode 0 ''!!null'' [] [] None [] ([], [], [])"

definition y_map :: "(string \<times> ynode) list \<Rightarrow> ynode" where
  "y_map kvs = YNode MappingNode 0 ''!!map'' [] [] None (concat (map (\<lambda>(k, v). [y_scalar k, v]) kvs)) ([], [], [])"

definition y_doc :: "ynode \<Rightarrow> ynode" where
  "y_doc root = YNode DocumentNode 0 [] [] [] None [root] ([], [], [])"

definition salted :: "string \<Rightarrow> ynode" where
  "salted salt = y_doc (y_map [(''pow'', y_map [(''public_salt'', y_scalar salt), (''algorithm'', y_scalar ''sha256'')])])"

definition demo_yaml :: yamllib where
  "demo_yaml =
     \<lparr>yaml_Node = (\<lambda>s. if s = ''live'' then Some (salted ''s1'') else if s = ''shown'' then Some (salted keepText) else None),
      yaml_Encode = (\<lambda>n i. if n = salted ''s1'' then Some ''live'' else if n = salted keepText then Some ''shown'' else None),
      yaml_Value = (\<lambda>s. VNil), node_Decode = (\<lambda>n. Some (VString (y_Value n))), fmt_Sprint = (\<lambda>v. [])\<rparr>"

lemmas demo_nodes = salted_def y_doc_def y_map_def y_scalar_def y_null_def keepText_def

lemma demo_redact: "redactNode demo_lib [] (salted ''s1'') = salted keepText" by code_simp

lemma demo_merge: "mergeSecretNode demo_lib demo_yaml [] (salted keepText) (salted ''s1'') = Inr (salted ''s1'')" by code_simp

theorem redaction_replaces_secrets_witness:
  "map y_Value (nodes_at [''pow'', ''public_salt''] (redactNode demo_lib [] (salted ''s1''))) = [''${SECRET:KEEP}''] \<and>
   map y_Value (nodes_at [''pow'', ''public_salt''] (salted ''s1'')) = [''s1''] \<and>
   filter (\<lambda>v. y_Kind v = ScalarNode) (nodes_at [''pow'', ''algorithm''] (redactNode demo_lib [] (salted ''s1''))) = [y_scalar ''sha256'']"
proof -
  let ?n = "nodes_at [''pow'', ''public_salt''] (redactNode demo_lib [] (salted ''s1''))"
  have "secret_path demo_lib [''pow'', ''public_salt'']" "public_keys demo_lib [''pow'']" "public_keys demo_lib [''pow'', ''algorithm'']"
    by code_simp+
  moreover have one: "map y_Value (nodes_at [''pow'', ''public_salt''] (salted ''s1'')) = [''s1'']"
    and alg: "filter (\<lambda>v. y_Kind v = ScalarNode) (nodes_at [''pow'', ''algorithm''] (salted ''s1'')) = [y_scalar ''sha256'']"
    by code_simp+
  moreover have "length (nodes_at [''pow'', ''public_salt''] (salted ''s1'')) = 1"
    by code_simp
  ultimately have "\<forall>v \<in> set ?n. placeholder v" "length ?n = 1" and
    "filter (\<lambda>v. y_Kind v = ScalarNode) (nodes_at [''pow'', ''algorithm''] (redactNode demo_lib [] (salted ''s1''))) = [y_scalar ''sha256'']"
    using redaction_replaces_secrets [of "[''pow'', ''public_salt'']" demo_lib "salted ''s1''"]
      redaction_replaces_secrets [of "[''pow'', ''algorithm'']" demo_lib "salted ''s1''"] alg by (simp_all del: nodes_at.simps redactNode.simps)
  moreover from this(1,2) have "map y_Value ?n = [''${SECRET:KEEP}'']" by (cases ?n) (auto simp: placeholder_def)
  ultimately show ?thesis using one by blast
qed

theorem unedited_text_restores_witness:
  "mergeSecretPlaceholders demo_lib demo_yaml (RedactYAML demo_lib demo_yaml ''live'') ''live'' = Inr ''live''"
proof -
  have crlf: "normalizeCRLF ''live'' = ''live''" "normalizeCRLF ''shown'' = ''shown''" by code_simp+
  have "restorable demo_lib (salted ''s1'')" by code_simp
  with unedited_text_restores [of "''live''" demo_yaml "salted ''s1''" demo_lib "''shown''" "''live''"] show ?thesis
    unfolding crlf demo_redact by (simp add: demo_yaml_def demo_nodes)
qed

theorem merged_secrets_come_from_base_witness:
  "\<exists>bv. mappingEntries (the (walk [''pow''] (salted ''s1''))) ''public_salt'' = Some bv \<and> from_base demo_yaml bv (y_scalar ''s1'')"
proof (rule merged_secrets_come_from_base [OF demo_merge, of "[''pow'']"])
  show "unique_along [''pow''] (salted ''s1'')" by code_simp
  show "public_along demo_lib [] [''pow'']" by code_simp
  show "walk [''pow''] (salted ''s1'') = Some (the (walk [''pow''] (salted ''s1'')))" by code_simp
  show "y_Kind (the (walk [''pow''] (salted ''s1''))) = MappingNode" by code_simp
  show "walk [''pow''] (salted ''s1'') = Some (the (walk [''pow''] (salted ''s1'')))" by code_simp
  show "mappingEntries (the (walk [''pow''] (salted ''s1''))) ''public_salt'' = Some (y_scalar ''s1'')" by code_simp
  show "isSensitivePath demo_lib (joinPath (foldl joinPath [] [''pow'']) ''public_salt'')" by code_simp
qed

section \<open>Where the protection of secrets ends\<close>

text \<open>A mapping under an anchor, used as the \<^verbatim>\<open>pow\<close> section through an alias.\<close>

definition anchored :: ynode where
  "anchored =
     y_doc (y_map
       [(''defaults'', YNode MappingNode 0 ''!!map'' [] ''p'' None [y_scalar ''public_salt'', y_scalar ''s1''] ([], [], [])),
        (''pow'', YNode AliasNode 0 [] ''p'' [] (Some (y_map [(''public_salt'', y_scalar ''s1'')])) [] ([], [], []))])"

text \<open>
  Three gaps of the protection. A text without the section of a secret passes the merge,
  although a removed secret alone is refused; a section put where the base has none but an empty
  key may carry a secret or an unresolved placeholder; a secret reached through an alias is shown
  by the redaction.
\<close>
theorem secret_protection_gaps:
  shows "mergeSecretNode demo_lib demo_yaml [] (y_doc (y_map [])) (salted ''s1'') = Inr (y_doc (y_map []))"
    and "mergeSecretNode demo_lib demo_yaml [] (y_doc (y_map [(''pow'', y_map [])])) (salted ''s1'') = Inl (WasRemoved ''pow.public_salt'')"
    and "mergeSecretNode demo_lib demo_yaml [] (salted s) (y_doc (y_map [(''pow'', y_null)])) = Inr (salted s)"
    and "redactNode demo_lib [] anchored = anchored"
proof -
  show "mergeSecretNode demo_lib demo_yaml [] (y_doc (y_map [])) (salted ''s1'') = Inr (y_doc (y_map []))" by code_simp
  show "mergeSecretNode demo_lib demo_yaml [] (y_doc (y_map [(''pow'', y_map [])])) (salted ''s1'') = Inl (WasRemoved ''pow.public_salt'')"
    by code_simp
  show "redactNode demo_lib [] anchored = anchored" by code_simp
  have "\<not> isSensitivePath demo_lib ''pow''" by code_simp
  then show "mergeSecretNode demo_lib demo_yaml [] (salted s) (y_doc (y_map [(''pow'', y_null)])) = Inr (salted s)"
    by (simp add: mergeSecretNode.simps demo_nodes docRoot_def joinPath_def mappingEntries_def carriesPlaceholder_def scalarText_def
        withRoot_def withContent_def Let_def)
qed

end
