(* ===== verification/ConfigLoad.thy ===== *)
theory ConfigLoad
  imports ConfigValidate ConfigHistory ConfigSecret
begin

text \<open>
  Loading a configuration (\<^verbatim>\<open>internal/config/loader.go\<close>, \<^verbatim>\<open>structure.go\<close>).

  The configuration library is an argument \<open>V\<close>: how it reads a file it is given or finds, how it
  reads a text, and how it fills the configuration record. The host is the one of the store.
  Documents are finite trees, in which an alias cycle cannot occur; the code's stack of visited
  nodes, whose only use is to detect one, is left out.

  Theorems: the structure check accepts a document exactly when every mapping in it, behind aliases
  too, has distinct string keys; a file that cannot be parsed is taken for a missing one when it was
  found rather than named.
\<close>

section \<open>Structure\<close>

datatype load_error = EmptyPath | ResolveFailed | StatFailed | ReadFailed | UnmarshalFailed | InvalidYAML
  | KeyNotString | DuplicateKey | Invalid "problem list" | SearchExhausted

definition bad_key :: "ynode \<Rightarrow> bool" where
  "bad_key key \<longleftrightarrow> y_Kind key \<noteq> ScalarNode \<or> y_Tag key \<noteq> [] \<and> y_Tag key \<noteq> ''!!str''"

fun validateYAMLNode :: "ynode \<Rightarrow> load_error option"
  and validate_all :: "ynode list \<Rightarrow> load_error option"
  and validate_pairs :: "string list \<Rightarrow> ynode list \<Rightarrow> load_error option"
  and validate_alias :: "ynode option \<Rightarrow> load_error option" where
  "validateYAMLNode (YNode k st tg v an al cs cm) =
     (if k = AliasNode then validate_alias al
      else if k = MappingNode then validate_pairs [] cs
      else validate_all cs)"
| "validate_all [] = None"
| "validate_all (c # cs) = (case validateYAMLNode c of Some e \<Rightarrow> Some e | None \<Rightarrow> validate_all cs)"
| "validate_pairs keys (key # val # rest) =
     (if bad_key key then Some KeyNotString
      else if y_Value key \<in> set keys then Some DuplicateKey
      else case validateYAMLNode val of Some e \<Rightarrow> Some e | None \<Rightarrow> validate_pairs (y_Value key # keys) rest)"
| "validate_pairs keys cs = None"
| "validate_alias None = None"
| "validate_alias (Some n) = validateYAMLNode n"

definition ValidateYAMLStructure :: "yamllib \<Rightarrow> string \<Rightarrow> load_error option" where
  "ValidateYAMLStructure Y raw = (case yaml_Node Y raw of None \<Rightarrow> Some InvalidYAML | Some root \<Rightarrow> validateYAMLNode root)"

section \<open>Loading\<close>

text \<open>
  \<open>vp_ReadInConfig\<close> reads the named file, or searches the well-known places; it yields the message
  of its error or the settings, environment included. \<open>vp_Regular\<close> is what \<^verbatim>\<open>os.Lstat\<close> says of a path.
\<close>

record 't viper =
  vp_ReadInConfig :: "string option \<Rightarrow> string + 't"
  vp_ReadConfig :: "string \<Rightarrow> string + 't"
  vp_UnmarshalExact :: "'t \<Rightarrow> Config option"
  vp_Regular :: "string \<Rightarrow> bool"

definition isConfigFileNotFoundError :: "string \<Rightarrow> bool" where
  "isConfigFileNotFoundError s \<longleftrightarrow>
     Contains s ''no such file'' \<or> Contains s ''While parsing config'' \<or> Contains s ''ConfigFileNotFound''"

definition read_settings :: "'t viper \<Rightarrow> string \<Rightarrow> string option \<Rightarrow> load_error + Config" where
  "read_settings V path file =
     (case vp_ReadInConfig V file of
        Inl msg \<Rightarrow> if path = [] \<and> isConfigFileNotFoundError msg then Inr zero_config else Inl ReadFailed
      | Inr t \<Rightarrow> (case vp_UnmarshalExact V t of None \<Rightarrow> Inl UnmarshalFailed | Some cfg \<Rightarrow> Inr cfg))"

definition LoadRaw :: "HostOS \<Rightarrow> 't viper \<Rightarrow> string \<Rightarrow> files \<Rightarrow> load_error + Config" where
  "LoadRaw os V path fs =
     (if path \<noteq> [] then
        case os_Abs os path of
          None \<Rightarrow> Inl ResolveFailed
        | Some full \<Rightarrow> if map_of fs full = None then Inl StatFailed else read_settings V path (Some full)
      else read_settings V path None)"

text \<open>\<^verbatim>\<open>Validate\<close> always returns; \<open>SearchExhausted\<close> stands for its modelled fuel running out.\<close>

definition validated :: "golib \<Rightarrow> Config \<Rightarrow> load_error + Config" where
  "validated L cfg =
     (case Validate L cfg of None \<Rightarrow> Inl SearchExhausted | Some problems \<Rightarrow> if problems = [] then Inr cfg else Inl (Invalid problems))"

definition Load :: "golib \<Rightarrow> HostOS \<Rightarrow> 't viper \<Rightarrow> string \<Rightarrow> files \<Rightarrow> load_error + Config" where
  "Load L os V path fs = (case LoadRaw os V path fs of Inl e \<Rightarrow> Inl e | Inr cfg \<Rightarrow> validated L (applyDefaults cfg))"

record Loaded =
  ld_Config :: Config
  ld_Path :: string
  ld_Raw :: string
  ld_Explicit :: bool
  ld_Managed :: bool

definition LoadWithSource :: "golib \<Rightarrow> HostOS \<Rightarrow> 't viper \<Rightarrow> string \<Rightarrow> bool \<Rightarrow> files \<Rightarrow> load_error + Loaded" where
  "LoadWithSource L os V path explicit fs =
     (if explicit \<and> TrimSpace L path = [] then Inl EmptyPath
      else case Load L os V path fs of
        Inl e \<Rightarrow> Inl e
      | Inr cfg \<Rightarrow>
          let loaded = \<lparr>ld_Config = cfg, ld_Path = [], ld_Raw = [], ld_Explicit = explicit, ld_Managed = False\<rparr> in
          if TrimSpace L path = [] then Inr loaded
          else case os_Abs os path of
            None \<Rightarrow> Inl ResolveFailed
          | Some full \<Rightarrow>
              if map_of fs full = None then Inl StatFailed
              else case os_ReadFile os full fs of
                None \<Rightarrow> Inl ReadFailed
              | Some raw \<Rightarrow> Inr (loaded\<lparr>ld_Path := full, ld_Raw := raw, ld_Managed := explicit \<and> vp_Regular V full\<rparr>))"

definition LoadRawFromBytes :: "yamllib \<Rightarrow> 't viper \<Rightarrow> string \<Rightarrow> load_error + Config" where
  "LoadRawFromBytes Y V b =
     (case ValidateYAMLStructure Y b of
        Some e \<Rightarrow> Inl e
      | None \<Rightarrow>
          (case vp_ReadConfig V b of
             Inl msg \<Rightarrow> Inl ReadFailed
           | Inr t \<Rightarrow> (case vp_UnmarshalExact V t of None \<Rightarrow> Inl UnmarshalFailed | Some cfg \<Rightarrow> Inr cfg)))"

section \<open>What the structure check guarantees\<close>

text \<open>The nodes of a document, behind aliases too; keys of mappings are not counted.\<close>

inductive part_of :: "ynode \<Rightarrow> ynode \<Rightarrow> bool" for n where
  self: "part_of n n"
| child: "part_of n m \<Longrightarrow> y_Kind m \<noteq> MappingNode \<Longrightarrow> y_Kind m \<noteq> AliasNode \<Longrightarrow> c \<in> set (y_Content m) \<Longrightarrow> part_of n c"
| val: "part_of n m \<Longrightarrow> y_Kind m = MappingNode \<Longrightarrow> (k, c) \<in> set (content_pairs (y_Content m)) \<Longrightarrow> part_of n c"
| target: "part_of n m \<Longrightarrow> y_Kind m = AliasNode \<Longrightarrow> y_Alias m = Some c \<Longrightarrow> part_of n c"

fun content_keys :: "ynode list \<Rightarrow> ynode list" where
  "content_keys (k # v # rest) = k # content_keys rest"
| "content_keys cs = []"

definition good_mapping :: "ynode \<Rightarrow> bool" where
  "good_mapping m \<longleftrightarrow>
     list_all (\<lambda>k. \<not> bad_key k) (content_keys (y_Content m)) \<and> distinct (map y_Value (content_keys (y_Content m)))"

lemma validate_all_None: "validate_all cs = None \<longleftrightarrow> (\<forall>c \<in> set cs. validateYAMLNode c = None)"
  by (induction cs) (auto split: option.split)

lemma validate_pairs_None:
  "validate_pairs keys cs = None \<longleftrightarrow>
     (\<forall>k \<in> set (content_keys cs). \<not> bad_key k) \<and> distinct (map y_Value (content_keys cs)) \<and>
     set keys \<inter> y_Value ` set (content_keys cs) = {} \<and> (\<forall>(k, c) \<in> set (content_pairs cs). validateYAMLNode c = None)"
  by (induction cs arbitrary: keys rule: content_keys.induct) (auto split: option.split)

lemma validate_step:
  "validateYAMLNode m = None \<longleftrightarrow>
     (if y_Kind m = AliasNode then \<forall>c. y_Alias m = Some c \<longrightarrow> validateYAMLNode c = None
      else if y_Kind m = MappingNode then
        good_mapping m \<and> (\<forall>(k, c) \<in> set (content_pairs (y_Content m)). validateYAMLNode c = None)
      else \<forall>c \<in> set (y_Content m). validateYAMLNode c = None)"
proof (cases m)
  case (YNode k st tg v an al cs cm)
  then show ?thesis
    by (cases al) (auto simp: validate_all_None validate_pairs_None good_mapping_def list_all_iff)
qed

lemma part_of_valid: "part_of n m \<Longrightarrow> validateYAMLNode n = None \<Longrightarrow> validateYAMLNode m = None"
proof (induction rule: part_of.induct)
  case (child m c)
  then show ?case by (simp add: validate_step [of m])
next
  case (val m k c)
  then show ?case by (auto simp: validate_step [of m])
next
  case (target m c)
  then show ?case by (simp add: validate_step [of m])
qed

lemma part_of_trans: "part_of m c \<Longrightarrow> part_of n m \<Longrightarrow> part_of n c"
  by (induction rule: part_of.induct) (auto intro: part_of.intros)

lemma all_parts_valid:
  assumes "\<And>m. part_of n m \<Longrightarrow> y_Kind m = MappingNode \<Longrightarrow> good_mapping m"
  shows "validateYAMLNode n = None"
  using assms
proof (induction n rule: measure_induct_rule [of size])
  case (less n)
  have below: "validateYAMLNode c = None" if "size c < size n" "part_of n c" for c
    using less that part_of_trans by blast
  have content: "size c < size n" if "c \<in> set (y_Content n)" for c
    using that size_content [of n] size_list_estimation' [OF that, of "size c" size] by auto
  have pairs: "c \<in> set cs" if "(k, c) \<in> set (content_pairs cs)" for k c cs
    using that by (induction cs rule: content_pairs.induct) auto
  show ?case
  proof (cases "y_Kind n = AliasNode")
    case True
    then show ?thesis
      using below part_of.target [OF part_of.self] by (subst validate_step) (cases n, auto)
  next
    case notAlias: False
    show ?thesis
    proof (cases "y_Kind n = MappingNode")
      case True
      have "validateYAMLNode c = None" if "(k, c) \<in> set (content_pairs (y_Content n))" for k c
        using below content [OF pairs [OF that]] part_of.val [OF part_of.self True that] by blast
      moreover have "good_mapping n" using less.prems part_of.self True by blast
      ultimately show ?thesis using True by (subst validate_step) auto
    next
      case False
      have "validateYAMLNode c = None" if "c \<in> set (y_Content n)" for c
        using below content [OF that] part_of.child [OF part_of.self False notAlias that] by blast
      then show ?thesis using False notAlias by (subst validate_step) auto
    qed
  qed
qed

text \<open>
  The structure check of configuration texts is exact. It accepts a document if and only if
  every mapping in it, those behind aliases included, has string keys without repetition.
\<close>

theorem structure_check_exact:
  "validateYAMLNode n = None \<longleftrightarrow> (\<forall>m. part_of n m \<longrightarrow> y_Kind m = MappingNode \<longrightarrow> good_mapping m)"
proof
  assume ok: "validateYAMLNode n = None"
  have "good_mapping m" if "part_of n m" "y_Kind m = MappingNode" for m
    using part_of_valid [OF that(1) ok] that(2) by (simp add: validate_step [of m])
  then show "\<forall>m. part_of n m \<longrightarrow> y_Kind m = MappingNode \<longrightarrow> good_mapping m" by blast
qed (blast intro: all_parts_valid)

theorem structure_check_exact_witness: "good_mapping (docRoot (salted ''s1''))"
proof -
  have "validateYAMLNode (salted ''s1'') = None" by code_simp
  moreover have "part_of (salted ''s1'') (docRoot (salted ''s1''))"
    by (rule part_of.child [OF part_of.self]) (simp_all add: demo_nodes docRoot_def)
  moreover have "y_Kind (docRoot (salted ''s1'')) = MappingNode" by code_simp
  ultimately show ?thesis using structure_check_exact [of "salted ''s1''"] by blast
qed

text \<open>A checked document has no repeated keys on any path.\<close>

lemma keys_of_content: "map y_Value (content_keys cs) = map fst (content_pairs cs)"
  by (induction cs rule: content_keys.induct) auto

lemma docRoot_valid: "validateYAMLNode n = None \<Longrightarrow> validateYAMLNode (docRoot n) = None"
  by (cases n) (auto simp: docRoot_def split: list.splits option.splits)

lemma checked_unique_along: "validateYAMLNode n = None \<Longrightarrow> unique_along ks n"
proof (induction ks arbitrary: n)
  case (Cons k ks)
  note ok = docRoot_valid [OF Cons.prems]
  show ?case
  proof (cases "y_Kind (docRoot n) = MappingNode")
    case True
    with ok have "distinct (map fst (content_pairs (y_Content (docRoot n))))"
      and sub: "\<And>k v. (k, v) \<in> set (content_pairs (y_Content (docRoot n))) \<Longrightarrow> validateYAMLNode v = None"
      by (auto simp: validate_step [of "docRoot n"] good_mapping_def keys_of_content)
    moreover have "unique_along ks v" if "mappingEntries (docRoot n) k = Some v" for v
      using that True sub map_of_SomeD [of "rev (content_pairs (y_Content (docRoot n)))" k v] Cons.IH by (auto simp: mappingEntries_def)
    ultimately show ?thesis by (auto split: option.split)
  next
    case False
    then show ?thesis by (simp add: mappingEntries_def)
  qed
qed simp

text \<open>A file that was searched for and cannot be parsed counts as missing.\<close>

theorem parse_error_taken_for_missing:
  "vp_ReadInConfig V None = Inl (''While parsing config: '' @ detail) \<Longrightarrow> LoadRaw os V [] fs = Inr zero_config"
  by (simp add: LoadRaw_def read_settings_def isConfigFileNotFoundError_def Contains_def sublist_def) (metis append_Nil)

end
