(* ===== verification/Server.thy ===== *)
theory Server
  imports App ConfigLoad
begin

text \<open>
  \<^verbatim>\<open>cmd/server\<close>: the main function of the service, from the flags to the exit status.

  \<open>server_start\<close> is what happens before the server listens. From then on two threads run, the main
  one in \<^verbatim>\<open>App.Start\<close> and the one that waits for a signal and shuts the application down, among the
  requests in progress; their steps are the relation \<open>server_step\<close>. \<^verbatim>\<open>App.Shutdown\<close> is the list of its actions
  (theory \<^verbatim>\<open>App\<close>), one step each; the HTTP server first closes its listener and then waits for the requests until
  they end or the time is up. As documented for the standard library, \<^verbatim>\<open>Start\<close> returns as soon as
  the listener is closed. A process that has exited takes no step.

  Theorems: status 0 is left only after a signal, with the cleanup loop stopped; a shutdown that
  runs to its end releases everything; but the process may exit before, with requests in progress and
  every store open.
\<close>

section \<open>Start\<close>

record ServerFlags =
  sf_config :: string
  sf_configSet :: bool
  sf_version :: bool

text \<open>Either an exit status or the application with the actions of its construction.\<close>

definition server_start ::
  "golib \<Rightarrow> HostOS \<Rightarrow> 't viper \<Rightarrow> (string \<Rightarrow> 'u UsageOps) \<Rightarrow> (string \<Rightarrow> 'c CounterOps) \<Rightarrow> AppEnv \<Rightarrow> ServerFlags \<Rightarrow> files \<Rightarrow>
   (int + ('u, 'c) App) \<times> AppAction list" where
  "server_start L os V uops cops env flags fs =
     (if sf_version flags then (Inl 0, [])
      else case LoadWithSource L os V (sf_config flags) (sf_configSet flags) fs of
        Inl e \<Rightarrow> (Inl 2, [])
      | Inr loaded \<Rightarrow>
          (case build L uops cops env (Some (ld_Config loaded)) of
             (Inl e, acts) \<Rightarrow> (Inl 1, acts)
           | (Inr a, acts) \<Rightarrow> (Inr a, acts)))"

section \<open>Run\<close>

datatype MainThread = InStart | Exited int

datatype SignalThread = Waiting | Closing "AppAction list"

record Process =
  ps_main :: MainThread
  ps_signal :: SignalThread
  ps_listening :: bool
  ps_inFlight :: nat
  ps_acts :: "AppAction list"

definition serving :: "AppAction list \<Rightarrow> Process" where
  "serving acts = \<lparr>ps_main = InStart, ps_signal = Waiting, ps_listening = True, ps_inFlight = 0, ps_acts = acts\<rparr>"

inductive server_step :: "('u, 'c) App \<Rightarrow> Process \<Rightarrow> Process \<Rightarrow> bool" for a where
  accept: "ps_main p = InStart \<Longrightarrow> ps_listening p \<Longrightarrow> server_step a p (p\<lparr>ps_inFlight := ps_inFlight p + 1\<rparr>)"
| finish: "ps_main p = InStart \<Longrightarrow> 0 < ps_inFlight p \<Longrightarrow> server_step a p (p\<lparr>ps_inFlight := ps_inFlight p - 1\<rparr>)"
| signal: "ps_main p = InStart \<Longrightarrow> ps_signal p = Waiting \<Longrightarrow> server_step a p (p\<lparr>ps_signal := Closing (snd (Shutdown ok a))\<rparr>)"
| close_listener: "ps_main p = InStart \<Longrightarrow> ps_signal p = Closing (ServerShutdown # rest) \<Longrightarrow> server_step a p (p\<lparr>ps_listening := False\<rparr>)"
| drained: "ps_main p = InStart \<Longrightarrow> ps_signal p = Closing (ServerShutdown # rest) \<Longrightarrow> \<not> ps_listening p \<Longrightarrow> ps_inFlight p = 0 \<Longrightarrow>
    server_step a p (p\<lparr>ps_signal := Closing rest, ps_acts := ps_acts p @ [ServerShutdown]\<rparr>)"
| timed_out: "ps_main p = InStart \<Longrightarrow> ps_signal p = Closing (ServerShutdown # rest) \<Longrightarrow> \<not> ps_listening p \<Longrightarrow>
    server_step a p (p\<lparr>ps_signal := Closing rest, ps_acts := ps_acts p @ [ServerShutdown]\<rparr>)"
| action: "ps_main p = InStart \<Longrightarrow> ps_signal p = Closing (x # rest) \<Longrightarrow> x \<noteq> ServerShutdown \<Longrightarrow>
    server_step a p (p\<lparr>ps_signal := Closing rest, ps_acts := ps_acts p @ [x]\<rparr>)"
| server_closed: "ps_main p = InStart \<Longrightarrow> \<not> ps_listening p \<Longrightarrow> server_step a p (p\<lparr>ps_main := Exited 0\<rparr>)"
| server_failed: "ps_main p = InStart \<Longrightarrow> ps_listening p \<Longrightarrow> server_step a p (p\<lparr>ps_main := Exited 1, ps_listening := False\<rparr>)"

inductive_cases server_step_elim: "server_step a p p'"

abbreviation server_run :: "('u, 'c) App \<Rightarrow> Process \<Rightarrow> Process \<Rightarrow> bool" where
  "server_run a \<equiv> (server_step a)\<^sup>*\<^sup>*"

section \<open>Invariant\<close>

lemma Shutdown_actions: "snd (Shutdown ok a) = snd (Shutdown True a)"
  by (simp add: Shutdown_def)

text \<open>
  The actions done and those to come make up the shutdown, and the listener is closed by a failure
  or by a shutdown that has come to the server.
\<close>

definition server_ok :: "('u, 'c) App \<Rightarrow> AppAction list \<Rightarrow> Process \<Rightarrow> bool" where
  "server_ok a acts p \<longleftrightarrow>
     (case ps_signal p of
        Waiting \<Rightarrow> ps_acts p = acts \<and> (ps_listening p \<or> ps_main p = Exited 1)
      | Closing rest \<Rightarrow> ps_acts p @ rest = acts @ snd (Shutdown True a) \<and>
          (ps_listening p \<or> ps_main p = Exited 1 \<or> (app_cleanup a \<longrightarrow> CleanupStopped \<in> set (ps_acts p)))) \<and>
     (ps_main p = Exited 0 \<longrightarrow> \<not> ps_listening p)"

lemma before_server:
  assumes "done @ ServerShutdown # rest = acts @ snd (Shutdown True a)" and "ServerShutdown \<notin> set acts"
  shows "app_cleanup a \<longrightarrow> CleanupStopped \<in> set done"
proof
  assume c: "app_cleanup a"
  obtain tl where "snd (Shutdown True a) = CleanupStopped # tl" using c by (simp add: Shutdown_def)
  with assms show "CleanupStopped \<in> set done"
    by (auto simp: append_eq_append_conv2 append_eq_Cons_conv Cons_eq_append_conv)
qed

lemma server_ok_start: "server_ok a acts (serving acts)"
  by (simp add: server_ok_def serving_def)

lemma server_ok_step:
  assumes "server_ok a acts p" and "server_step a p p'" and "ServerShutdown \<notin> set acts"
  shows "server_ok a acts p'"
  using assms(2,1)
proof cases
  case (close_listener rest)
  with assms(1,3) before_server [of "ps_acts p" rest acts a] show ?thesis by (simp add: server_ok_def)
next
  case (signal ok)
  with assms(1) show ?thesis by (auto simp: server_ok_def Shutdown_actions [of ok])
qed (auto simp: server_ok_def split: SignalThread.splits)

lemma server_ok_run:
  assumes "server_run a (serving acts) p" and "ServerShutdown \<notin> set acts"
  shows "server_ok a acts p"
  using assms(1) by induction (simp_all add: server_ok_start server_ok_step [OF _ _ assms(2)])

lemma build_actions:
  assumes "build L uops cops env (Some cfg) = (Inr a, acts)"
  shows "ServerShutdown \<notin> set acts"
  using assms
proof (cases rule: build_cases)
  case (started st sacts a')
  have "ServerShutdown \<notin> set sacts"
    using started(1) by (auto simp: buildStorage_def Let_def split: option.splits if_splits)
  with started show ?thesis by simp
qed simp_all

section \<open>Theorems\<close>

theorem clean_exit_was_signalled:
  assumes "build L uops cops env (Some cfg) = (Inr a, acts)" and "server_run a (serving acts) p" and "ps_main p = Exited 0"
  shows "ps_signal p \<noteq> Waiting \<and> \<not> ps_listening p \<and> (app_cleanup a \<longrightarrow> CleanupStopped \<in> set (ps_acts p))"
  using server_ok_run [OF assms(2) build_actions [OF assms(1)]] assms(3)
  by (auto simp: server_ok_def split: SignalThread.splits)

text \<open>
  A shutdown that comes to its end has closed whatever the construction opened.
\<close>

theorem finished_shutdown_releases:
  assumes "build L uops cops env (Some cfg) = (Inr a, acts)" and "server_run a (serving acts) p" and "ps_signal p = Closing []"
  shows "open_after (ps_acts p) {} = {}"
proof -
  have "ps_acts p = acts @ snd (Shutdown True a)"
    using server_ok_run [OF assms(2) build_actions [OF assms(1)]] assms(3) by (simp add: server_ok_def)
  then show ?thesis using built_then_shut [OF assms(1)] by simp
qed

text \<open>
  C40: The main thread does not wait for the shutdown. For every application that was built and
  every number of requests in progress there is a run in which the process exits with status 0
  before any of them has ended and before any store or connection is closed.
\<close>

theorem exit_may_cut_shutdown:
  assumes "build L uops cops env (Some cfg) = (Inr a, acts)"
  shows "\<exists>p. server_run a (serving acts) p \<and> ps_main p = Exited 0 \<and> ps_inFlight p = n \<and>
    open_after (ps_acts p) {} = open_after acts {}"
proof -
  let ?pre = "if app_cleanup a then [CleanupStopped] else []"
  let ?p = "\<lambda>k. (serving acts)\<lparr>ps_inFlight := k\<rparr>"
  obtain rest where sh: "snd (Shutdown True a) = ?pre @ ServerShutdown # rest" by (simp add: Shutdown_def)
  have busy: "server_run a (serving acts) (?p n)"
  proof (induction n)
    case 0
    have "?p 0 = serving acts" by (simp add: serving_def)
    then show ?case by simp
  next
    case (Suc n)
    have "server_step a (?p n) (?p (Suc n))" using server_step.accept [of "?p n" a] by (simp add: serving_def)
    with Suc show ?case by simp
  qed
  let ?q = "\<lambda>l m. \<lparr>ps_main = m, ps_signal = Closing (ServerShutdown # rest), ps_listening = l, ps_inFlight = n, ps_acts = acts @ ?pre\<rparr>"
  let ?s = "(?p n)\<lparr>ps_signal := Closing (snd (Shutdown True a))\<rparr>"
  have "server_step a (?p n) ?s" by (rule server_step.signal) (simp_all add: serving_def)
  moreover have "server_run a ?s (?q True InStart)"
  proof (cases "app_cleanup a")
    case True
    with server_step.action [of ?s CleanupStopped "ServerShutdown # rest" a] have "server_step a ?s (?q True InStart)"
      by (simp add: serving_def sh)
    then show ?thesis by blast
  next
    case False
    then show ?thesis by (simp add: serving_def sh)
  qed
  moreover have "server_step a (?q True InStart) (?q False InStart)" using server_step.close_listener [of "?q True InStart" rest a] by simp
  moreover have "server_step a (?q False InStart) (?q False (Exited 0))" using server_step.server_closed [of "?q False InStart" a] by simp
  ultimately have "server_run a (serving acts) (?q False (Exited 0))" using busy by (meson rtranclp.rtrancl_into_rtrancl rtranclp_trans)
  then show ?thesis by (intro exI [of _ "?q False (Exited 0)"]) simp
qed

theorem exit_may_cut_shutdown_witness:
  "\<exists>(a :: (MemUsageStore, MemCounterStore) App) acts p. server_run a (serving acts) p \<and> ps_main p = Exited 0 \<and> ps_inFlight p = 5"
  using demo_builds exit_may_cut_shutdown [where n = 5] by metis

end
