(* ===== verification/RedisStore.thy ===== *)
theory RedisStore
  imports TokenSpec
begin

text \<open>
  \<^verbatim>\<open>storage/redis\<close>: the usage store with its Lua script and the counter store. The server and its
  client library are not part of the program: they are the argument \<open>R\<close>, a record of the commands
  that the code sends on a server state of any type, and what the code relies on of them is
  stated by the laws below. The server's clock and the deadlines of its keys are a second argument
  \<open>T\<close>: a key is deleted once its life time has passed, and the calls of a run are spread over that
  time. The deletion of keys for want of memory is not modelled.

  The script's numbers are integers: \<^verbatim>\<open>tonumber\<close> is \<^verbatim>\<open>ParseInt\<close> on the field that only the script
  writes, and below 2 to the 53 the script's arithmetic is exact.
\<close>

section \<open>The client\<close>

text \<open>
  \<open>rd_hget\<close>, \<open>rd_hset\<close> and \<open>rd_expire\<close> are the commands inside a script, \<open>rc_Run\<close> runs a script, the
  others are commands sent by the client; \<open>rc_IncrExpire\<close> is the transaction of \<^verbatim>\<open>INCR\<close> and
  \<^verbatim>\<open>EXPIRE\<close>. \<^verbatim>\<open>RedisNil\<close> is the answer for a missing key or field.
\<close>

datatype redis_error = RedisNil | RedisErr

record 'r RedisClient =
  rd_hget :: "string \<Rightarrow> string \<Rightarrow> 'r \<Rightarrow> string option"
  rd_hset :: "string \<Rightarrow> (string \<times> string) list \<Rightarrow> 'r \<Rightarrow> 'r"
  rd_expire :: "string \<Rightarrow> int \<Rightarrow> 'r \<Rightarrow> 'r"
  rc_Run :: "('r \<Rightarrow> (redis_error + int list) \<times> 'r) \<Rightarrow> 'r \<Rightarrow> (redis_error + int list) \<times> 'r"
  rc_HGet :: "string \<Rightarrow> string \<Rightarrow> 'r \<Rightarrow> redis_error + string"
  rc_HGetAll :: "string \<Rightarrow> 'r \<Rightarrow> redis_error + (string \<times> string) list"
  rc_IncrExpire :: "string \<Rightarrow> int \<Rightarrow> 'r \<Rightarrow> (redis_error + int) \<times> 'r"
  rc_Get :: "string \<Rightarrow> 'r \<Rightarrow> redis_error + string"
  rc_Del :: "string \<Rightarrow> 'r \<Rightarrow> (redis_error + int) \<times> 'r"

section \<open>The script (lua.go)\<close>

definition consumeUsage ::
  "'r RedisClient \<Rightarrow> string \<Rightarrow> int \<Rightarrow> int \<Rightarrow> string \<Rightarrow> string \<Rightarrow> string \<Rightarrow> string \<Rightarrow> string \<Rightarrow> string \<Rightarrow> string \<Rightarrow> string \<Rightarrow>
   'r \<Rightarrow> (redis_error + int list) \<times> 'r" where
  "consumeUsage R key max_uses ttl now ip ua mode path sign token_hash expires_at r =
     (case ParseInt (case rd_hget R key ''uses'' r of Some v \<Rightarrow> v | None \<Rightarrow> ''0'') of
        None \<Rightarrow> (Inl RedisErr, r)
      | Some uses \<Rightarrow>
          if uses \<ge> max_uses then (Inr [0, uses], r)
          else let uses' = uses + 1 in
            (Inr [1, uses'],
             if uses' = 1 then
               rd_expire R key ttl (rd_hset R key
                 [(''uses'', FormatInt uses'), (''mode'', mode), (''path'', path), (''sign'', sign), (''token_hash'', token_hash),
                  (''max_uses'', FormatInt max_uses), (''first_ip'', ip), (''last_ip'', ip), (''user_agent'', ua),
                  (''expires_at'', expires_at), (''created_at'', now), (''updated_at'', now)] r)
             else rd_hset R key [(''uses'', FormatInt uses'), (''last_ip'', ip), (''updated_at'', now)] r))"

section \<open>The usage store (usage.go)\<close>

record 'r RedisUsageStore =
  ru_keyPrefix :: string
  ru_closed :: bool
  ru_server :: 'r

definition redis_NewUsageStore :: "'r \<Rightarrow> string \<Rightarrow> 'r RedisUsageStore" where
  "redis_NewUsageStore server keyPrefix =
     \<lparr>ru_keyPrefix = (if keyPrefix = [] then ''mirrors-waf'' else keyPrefix), ru_closed = False, ru_server = server\<rparr>"

definition usageKey :: "'r RedisUsageStore \<Rightarrow> string \<Rightarrow> string" where
  "usageKey s sid = ru_keyPrefix s @ '':pow:usage:'' @ sid"

definition consume_skip :: "'r RedisClient \<Rightarrow> string \<Rightarrow> ConsumeInput \<Rightarrow> 'r \<Rightarrow> store_error + ConsumeResult" where
  "consume_skip R key inp r =
     (case rc_HGet R key ''uses'' r of
        Inl RedisNil \<Rightarrow> Inr \<lparr>cr_Allowed = True, cr_Uses = 0, cr_MaxUses = ci_MaxUses inp, cr_Reason = ''ok_head_first''\<rparr>
      | Inl RedisErr \<Rightarrow> Inl ErrBackend
      | Inr text \<Rightarrow>
          (case ParseInt text of
             None \<Rightarrow> Inl ErrBackend
           | Some v \<Rightarrow> Inr \<lparr>cr_Allowed = (v < ci_MaxUses inp), cr_Uses = v, cr_MaxUses = ci_MaxUses inp,
               cr_Reason = (if v < ci_MaxUses inp then ''ok_head'' else ''used_up_head'')\<rparr>))"

definition consume_reply :: "ConsumeInput \<Rightarrow> redis_error + int list \<Rightarrow> store_error + ConsumeResult" where
  "consume_reply inp reply =
     (case reply of
        Inl _ \<Rightarrow> Inl ErrBackend
      | Inr (allowed # uses # _) \<Rightarrow>
          Inr \<lparr>cr_Allowed = (allowed = 1), cr_Uses = uses, cr_MaxUses = ci_MaxUses inp,
            cr_Reason = (if allowed = 1 then ''ok'' else ''used_up'')\<rparr>
      | Inr _ \<Rightarrow> Inl ErrBackend)"

definition redis_grace :: "ConsumeInput \<Rightarrow> int" where
  "redis_grace inp = (if ci_GraceSeconds inp \<le> 0 then 60 else ci_GraceSeconds inp)"

definition redis_ttl :: "ConsumeInput \<Rightarrow> int \<Rightarrow> int" where
  "redis_ttl inp now = wrap64 (wrap64 (ci_ExpiresAt inp - now) + redis_grace inp)"

definition redis_Consume ::
  "'r RedisClient \<Rightarrow> int \<Rightarrow> ConsumeInput \<Rightarrow> 'r RedisUsageStore \<Rightarrow> (store_error + ConsumeResult) \<times> 'r RedisUsageStore" where
  "redis_Consume R wall inp s =
     (if ru_closed s then (Inl ErrClosed, s)
      else
        (let now = (if ci_NowUnix inp = 0 then wall else ci_NowUnix inp);
             key = usageKey s (ci_ID inp) in
         if wrap64 (ci_ExpiresAt inp - now) \<le> 0 then
           (Inr \<lparr>cr_Allowed = False, cr_Uses = 0, cr_MaxUses = ci_MaxUses inp, cr_Reason = ''expired''\<rparr>, s)
         else if ci_SkipConsume inp then (consume_skip R key inp (ru_server s), s)
         else
           (case rc_Run R (consumeUsage R key (ci_MaxUses inp) (redis_ttl inp now) (FormatInt now) (ci_IP inp)
                   (ci_UserAgent inp) (ci_Mode inp) (ci_Path inp) (ci_Sign inp) (ci_TokenHash inp)
                   (FormatInt (ci_ExpiresAt inp))) (ru_server s) of
              (reply, r') \<Rightarrow> (consume_reply inp reply, s\<lparr>ru_server := r'\<rparr>))))"

definition field :: "(string \<times> string) list \<Rightarrow> string \<Rightarrow> string" where
  "field raw f = (case map_of raw f of Some v \<Rightarrow> v | None \<Rightarrow> [])"

definition int_field :: "(string \<times> string) list \<Rightarrow> string \<Rightarrow> int" where
  "int_field raw f = (case ParseInt (field raw f) of Some v \<Rightarrow> v | None \<Rightarrow> 0)"

definition redis_Get :: "'r RedisClient \<Rightarrow> string \<Rightarrow> 'r RedisUsageStore \<Rightarrow> store_error + UsageRecord" where
  "redis_Get R sid s =
     (if ru_closed s then Inl ErrClosed
      else case rc_HGetAll R (usageKey s sid) (ru_server s) of
        Inl _ \<Rightarrow> Inl ErrBackend
      | Inr raw \<Rightarrow>
          if raw = [] then Inl ErrNotFound
          else Inr \<lparr>ur_ID = sid, ur_Mode = field raw ''mode'', ur_Path = field raw ''path'', ur_Sign = field raw ''sign'',
            ur_TokenHash = field raw ''token_hash'', ur_Uses = int_field raw ''uses'', ur_MaxUses = int_field raw ''max_uses'',
            ur_FirstIP = field raw ''first_ip'', ur_LastIP = field raw ''last_ip'', ur_UserAgent = field raw ''user_agent'',
            ur_ExpiresAt = int_field raw ''expires_at'', ur_CreatedAt = int_field raw ''created_at'',
            ur_UpdatedAt = int_field raw ''updated_at''\<rparr>)"

definition redis_CleanupExpired :: "int \<Rightarrow> 'r RedisUsageStore \<Rightarrow> (store_error + int) \<times> 'r RedisUsageStore" where
  "redis_CleanupExpired beforeUnix s = (Inr 0, s)"

definition redis_Close :: "'r RedisUsageStore \<Rightarrow> 'r RedisUsageStore" where
  "redis_Close s = s\<lparr>ru_closed := True\<rparr>"


section \<open>The counter store (counter.go)\<close>

record 'r RedisCounterStore =
  rx_keyPrefix :: string
  rx_closed :: bool
  rx_server :: 'r

definition redis_NewCounterStore :: "'r \<Rightarrow> string \<Rightarrow> 'r RedisCounterStore" where
  "redis_NewCounterStore server keyPrefix =
     \<lparr>rx_keyPrefix = (if keyPrefix = [] then ''mirrors-waf'' else keyPrefix), rx_closed = False, rx_server = server\<rparr>"

definition redis_counterKey :: "'r RedisCounterStore \<Rightarrow> string \<Rightarrow> string \<Rightarrow> int \<Rightarrow> string" where
  "redis_counterKey s name key start = rx_keyPrefix s @ '':risk:counter:'' @ name @ '':'' @ key @ '':'' @ itoa start"

definition redis_Incr ::
  "'r RedisClient \<Rightarrow> int \<Rightarrow> int \<Rightarrow> string \<Rightarrow> string \<Rightarrow> int \<Rightarrow> 'r RedisCounterStore \<Rightarrow>
   (store_error + int \<times> int) \<times> 'r RedisCounterStore" where
  "redis_Incr R now now2 name key window s =
     (if rx_closed s then (Inl ErrClosed, s)
      else if window \<le> 0 then (Inl ErrInvalidWindow, s)
      else let start = bucketStart window now in
        case rc_IncrExpire R (redis_counterKey s name key start) window (rx_server s) of
          (Inl _, r') \<Rightarrow> (Inl ErrBackend, s\<lparr>rx_server := r'\<rparr>)
        | (Inr v, r') \<Rightarrow>
            (let remaining = start + window - now2 in
             (Inr (v, if remaining < 0 then 0 else remaining), s\<lparr>rx_server := r'\<rparr>)))"

definition redis_counter_Get ::
  "'r RedisClient \<Rightarrow> int \<Rightarrow> string \<Rightarrow> string \<Rightarrow> int \<Rightarrow> 'r RedisCounterStore \<Rightarrow> store_error + int" where
  "redis_counter_Get R now name key window s =
     (if rx_closed s then Inl ErrClosed
      else if window \<le> 0 then Inl ErrInvalidWindow
      else case rc_Get R (redis_counterKey s name key (bucketStart window now)) (rx_server s) of
        Inl RedisNil \<Rightarrow> Inr 0
      | Inl RedisErr \<Rightarrow> Inl ErrBackend
      | Inr text \<Rightarrow> (case ParseInt text of None \<Rightarrow> Inl ErrBackend | Some v \<Rightarrow> Inr v))"

definition redis_Reset ::
  "'r RedisClient \<Rightarrow> int \<Rightarrow> string \<Rightarrow> string \<Rightarrow> int \<Rightarrow> 'r RedisCounterStore \<Rightarrow> store_error option \<times> 'r RedisCounterStore" where
  "redis_Reset R now name key window s =
     (if rx_closed s then (Some ErrClosed, s)
      else if window \<le> 0 then (Some ErrInvalidWindow, s)
      else case rc_Del R (redis_counterKey s name key (bucketStart window now)) (rx_server s) of
        (Inl _, r') \<Rightarrow> (Some ErrBackend, s\<lparr>rx_server := r'\<rparr>)
      | (Inr _, r') \<Rightarrow> (None, s\<lparr>rx_server := r'\<rparr>))"

definition redis_counter_Close :: "'r RedisCounterStore \<Rightarrow> 'r RedisCounterStore" where
  "redis_counter_Close s = s\<lparr>rx_closed := True\<rparr>"

section \<open>What is relied on of the server\<close>

text \<open>
  Documented behaviour of the server and client: \<^verbatim>\<open>HSET\<close> sets the given fields of one key,
  \<^verbatim>\<open>EXPIRE\<close> with a positive time concerns one key and removes nothing at the moment it is given
  (what it does later is \<open>time_laws\<close>), a script runs atomically or not at all although its reply may
  be lost, and the reading commands answer with what is stored.
\<close>

definition hset_law :: "'r RedisClient \<Rightarrow> bool" where
  "hset_law R \<longleftrightarrow> (\<forall>k fvs r k' f. distinct (map fst fvs) \<longrightarrow> rd_hget R k' f (rd_hset R k fvs r) =
     (if k' = k \<and> map_of fvs f \<noteq> None then map_of fvs f else rd_hget R k' f r))"

definition expire_law :: "'r RedisClient \<Rightarrow> bool" where
  "expire_law R \<longleftrightarrow> (\<forall>k ttl r k' f. k' \<noteq> k \<or> 0 < ttl \<longrightarrow> rd_hget R k' f (rd_expire R k ttl r) = rd_hget R k' f r)"

definition run_law :: "'r RedisClient \<Rightarrow> bool" where
  "run_law R \<longleftrightarrow> (\<forall>f r. case rc_Run R f r of
     (Inr v, r') \<Rightarrow> f r = (Inr v, r') | (Inl _, r') \<Rightarrow> r' = r \<or> r' = snd (f r))"

definition read_law :: "'r RedisClient \<Rightarrow> bool" where
  "read_law R \<longleftrightarrow> (\<forall>k r. (\<forall>f. case rc_HGet R k f r of
       Inr v \<Rightarrow> rd_hget R k f r = Some v | Inl RedisNil \<Rightarrow> rd_hget R k f r = None | Inl RedisErr \<Rightarrow> True) \<and>
     (case rc_HGetAll R k r of Inr raw \<Rightarrow> (\<forall>f. map_of raw f = rd_hget R k f r) | Inl _ \<Rightarrow> True))"

definition redis_laws :: "'r RedisClient \<Rightarrow> bool" where
  "redis_laws R \<longleftrightarrow> hset_law R \<and> expire_law R \<and> run_law R \<and> read_law R"

text \<open>
  The server's time, in seconds: its clock, the deadline of a key if it has one, and the passing
  of time up to a given moment. Within a command the clock stands still. \<^verbatim>\<open>HSET\<close> keeps the deadlines,
  \<^verbatim>\<open>EXPIRE\<close> gives an existing key the deadline of its life time from now, and as time passes a key
  stays as it is or, once its deadline is reached, is deleted with all its fields.
\<close>

record 'r RedisTime =
  tm_now :: "'r \<Rightarrow> int"
  tm_deadline :: "string \<Rightarrow> 'r \<Rightarrow> int option"
  tm_pass :: "int \<Rightarrow> 'r \<Rightarrow> 'r"

definition hset_time_law :: "'r RedisClient \<Rightarrow> 'r RedisTime \<Rightarrow> bool" where
  "hset_time_law R T \<longleftrightarrow> (\<forall>k fvs r k'. tm_now T (rd_hset R k fvs r) = tm_now T r \<and>
     tm_deadline T k' (rd_hset R k fvs r) = tm_deadline T k' r)"

definition expire_time_law :: "'r RedisClient \<Rightarrow> 'r RedisTime \<Rightarrow> bool" where
  "expire_time_law R T \<longleftrightarrow> (\<forall>k ttl r k'. 0 < ttl \<and> (\<exists>f. rd_hget R k f r \<noteq> None) \<longrightarrow>
     tm_now T (rd_expire R k ttl r) = tm_now T r \<and>
     tm_deadline T k' (rd_expire R k ttl r) = (if k' = k then Some (tm_now T r + ttl) else tm_deadline T k' r))"

definition pass_law :: "'r RedisClient \<Rightarrow> 'r RedisTime \<Rightarrow> bool" where
  "pass_law R T \<longleftrightarrow> (\<forall>t r k. tm_now T r \<le> t \<longrightarrow> tm_now T (tm_pass T t r) = t \<and>
     ((\<forall>f. rd_hget R k f (tm_pass T t r) = rd_hget R k f r) \<and> tm_deadline T k (tm_pass T t r) = tm_deadline T k r \<or>
      (\<exists>d \<le> t. tm_deadline T k r = Some d) \<and> (\<forall>f. rd_hget R k f (tm_pass T t r) = None) \<and>
        tm_deadline T k (tm_pass T t r) = None))"

definition time_laws :: "'r RedisClient \<Rightarrow> 'r RedisTime \<Rightarrow> bool" where
  "time_laws R T \<longleftrightarrow> hset_time_law R T \<and> expire_time_law R T \<and> pass_law R T"

section \<open>The contract\<close>

definition redis_uses :: "'r RedisClient \<Rightarrow> 'r RedisUsageStore \<Rightarrow> string \<Rightarrow> int" where
  "redis_uses R s sid =
     (case rd_hget R (usageKey s sid) ''uses'' (ru_server s) of
        None \<Rightarrow> 0
      | Some text \<Rightarrow> (case ParseInt text of Some v \<Rightarrow> v | None \<Rightarrow> 0))"

definition redis_inv :: "'r RedisClient \<Rightarrow> int \<Rightarrow> 'r RedisUsageStore \<Rightarrow> bool" where
  "redis_inv R M s \<longleftrightarrow> 0 \<le> M \<and> M < 2 ^ 53 \<and>
     (\<forall>sid text. rd_hget R (usageKey s sid) ''uses'' (ru_server s) = Some text \<longrightarrow>
        (\<exists>v. text = FormatInt v \<and> 0 \<le> v \<and> v \<le> M))"

text \<open>A call fits the limit when it passes it and its times are in the range of the arithmetic.\<close>

definition redis_fits :: "int \<Rightarrow> int \<Rightarrow> ConsumeInput \<Rightarrow> bool" where
  "redis_fits M wall inp \<longleftrightarrow> ci_MaxUses inp = M \<and> in_int64 (ci_ExpiresAt inp - consume_now wall inp) \<and>
     in_int64 (ci_ExpiresAt inp - consume_now wall inp + redis_grace inp)"

lemma redis_grace_pos [simp]: "0 < redis_grace inp" by (simp add: redis_grace_def)

lemma redis_ttl_fits:
  assumes "redis_fits M wall inp" and "now = consume_now wall inp"
  shows "redis_ttl inp now = ci_ExpiresAt inp - now + redis_grace inp"
    and "wrap64 (ci_ExpiresAt inp - now) = ci_ExpiresAt inp - now"
  using assms by (simp_all add: redis_fits_def redis_ttl_def)

lemma usageKey_inject [simp]: "usageKey s a = usageKey s b \<longleftrightarrow> a = b"
  by (simp add: usageKey_def)

lemma usageKey_server [simp]: "usageKey (s\<lparr>ru_server := r\<rparr>) a = usageKey s a"
  by (simp add: usageKey_def)

lemma redis_uses_range:
  assumes "redis_inv R M s"
  shows "0 \<le> redis_uses R s sid" "redis_uses R s sid \<le> M"
    "ParseInt (case rd_hget R (usageKey s sid) ''uses'' (ru_server s) of Some v \<Rightarrow> v | None \<Rightarrow> ''0'') = Some (redis_uses R s sid)"
proof -
  have z: "ParseInt ''0'' = Some 0" by code_simp
  have "ParseInt (FormatInt v) = Some v" if "0 \<le> v" "v \<le> M" for v
    using that assms by (intro ParseInt_FormatInt) (auto simp: redis_inv_def in_int64_def)
  with assms z show "0 \<le> redis_uses R s sid" "redis_uses R s sid \<le> M"
    "ParseInt (case rd_hget R (usageKey s sid) ''uses'' (ru_server s) of Some v \<Rightarrow> v | None \<Rightarrow> ''0'') = Some (redis_uses R s sid)"
    by (fastforce simp: redis_inv_def redis_uses_def split: option.split)+
qed

text \<open>The script on the server of a store: its reply, and the uses it leaves.\<close>

definition script_of :: "'r RedisClient \<Rightarrow> int \<Rightarrow> ConsumeInput \<Rightarrow> 'r RedisUsageStore \<Rightarrow> 'r \<Rightarrow> (redis_error + int list) \<times> 'r" where
  "script_of R now inp s = consumeUsage R (usageKey s (ci_ID inp)) (ci_MaxUses inp) (redis_ttl inp now) (FormatInt now) (ci_IP inp)
     (ci_UserAgent inp) (ci_Mode inp) (ci_Path inp) (ci_Sign inp) (ci_TokenHash inp) (FormatInt (ci_ExpiresAt inp))"

lemma script_effect:
  assumes "redis_laws R" and "redis_inv R M s" and "ci_MaxUses inp = M" and "0 < redis_ttl inp now"
    and "u = redis_uses R s (ci_ID inp)"
  shows "fst (script_of R now inp s (ru_server s)) = Inr [if u < M then 1 else 0, if u < M then u + 1 else u]"
    and "rd_hget R (usageKey s sid) ''uses'' (snd (script_of R now inp s (ru_server s))) =
      (if sid = ci_ID inp \<and> u < M then Some (FormatInt (u + 1)) else rd_hget R (usageKey s sid) ''uses'' (ru_server s))"
proof -
  have laws: "hset_law R" "expire_law R" using assms(1) by (simp_all add: redis_laws_def)
  note u = redis_uses_range(3) [OF assms(2), of "ci_ID inp", folded assms(5)]
  show "fst (script_of R now inp s (ru_server s)) = Inr [if u < M then 1 else 0, if u < M then u + 1 else u]"
    using u assms(3) by (simp add: script_of_def consumeUsage_def Let_def)
  show "rd_hget R (usageKey s sid) ''uses'' (snd (script_of R now inp s (ru_server s))) =
      (if sid = ci_ID inp \<and> u < M then Some (FormatInt (u + 1)) else rd_hget R (usageKey s sid) ''uses'' (ru_server s))"
    using u assms(3,4) laws by (simp add: script_of_def consumeUsage_def hset_law_def expire_law_def Let_def)
qed


lemma script_frame:
  assumes "redis_laws R" and "sid \<noteq> ci_ID inp"
  shows "rd_hget R (usageKey s sid) f (snd (script_of R now inp s (ru_server s))) = rd_hget R (usageKey s sid) f (ru_server s)"
  using assms
  by (auto simp: redis_laws_def script_of_def consumeUsage_def hset_law_def expire_law_def Let_def split: option.split)

lemma redis_Consume_eq:
  assumes "now = consume_now wall inp"
  shows "redis_Consume R wall inp s =
    (if ru_closed s then (Inl ErrClosed, s)
     else if wrap64 (ci_ExpiresAt inp - now) \<le> 0 then
       (Inr \<lparr>cr_Allowed = False, cr_Uses = 0, cr_MaxUses = ci_MaxUses inp, cr_Reason = ''expired''\<rparr>, s)
     else if ci_SkipConsume inp then (consume_skip R (usageKey s (ci_ID inp)) inp (ru_server s), s)
     else (case rc_Run R (script_of R now inp s) (ru_server s) of
       (reply, r') \<Rightarrow> (consume_reply inp reply, s\<lparr>ru_server := r'\<rparr>)))"
  unfolding redis_Consume_def script_of_def [abs_def] assms consume_now_def Let_def by (rule refl)

lemma redis_Consume_cases [consumes 1, case_names unchanged ran]:
  assumes "redis_laws R"
  obtains "snd (redis_Consume R wall inp s) = s"
      "\<And>r. fst (redis_Consume R wall inp s) = Inr r \<Longrightarrow> cr_Allowed r \<Longrightarrow> ci_SkipConsume inp"
  | now where "now = consume_now wall inp" "0 < wrap64 (ci_ExpiresAt inp - now)"
      "snd (redis_Consume R wall inp s) = s\<lparr>ru_server := snd (script_of R now inp s (ru_server s))\<rparr>"
      "\<And>r. fst (redis_Consume R wall inp s) = Inr r \<Longrightarrow>
        Inr r = consume_reply inp (fst (script_of R now inp s (ru_server s)))"
proof -
  define now where "now = consume_now wall inp"
  obtain reply r' where run: "rc_Run R (script_of R now inp s) (ru_server s) = (reply, r')" by (metis prod.collapse)
  have law: "case (reply, r') of (Inr v, r') \<Rightarrow> script_of R now inp s (ru_server s) = (Inr v, r')
      | (Inl _, r') \<Rightarrow> r' = ru_server s \<or> r' = snd (script_of R now inp s (ru_server s))"
  proof -
    have "run_law R" using assms by (simp add: redis_laws_def)
    from this [unfolded run_law_def, THEN spec [of _ "script_of R now inp s"], THEN spec [of _ "ru_server s"]] run
    show ?thesis by simp
  qed
  note C = redis_Consume_eq [OF now_def, of R s]
  show ?thesis
  proof (cases "ru_closed s \<or> wrap64 (ci_ExpiresAt inp - now) \<le> 0 \<or> ci_SkipConsume inp")
    case True
    then show ?thesis by (intro that(1)) (auto simp: C split: if_splits)
  next
    case False
    then have live: "0 < wrap64 (ci_ExpiresAt inp - now)" and eq: "redis_Consume R wall inp s = (consume_reply inp reply, s\<lparr>ru_server := r'\<rparr>)"
      using run by (simp_all add: C)
    show ?thesis
    proof (cases reply)
      case (Inr v)
      with law eq show ?thesis by (intro that(2) [OF now_def live]) auto
    next
      case (Inl e)
      with law have "r' = ru_server s \<or> r' = snd (script_of R now inp s (ru_server s))" by simp
      then show ?thesis
        using eq Inl that(1) that(2) [OF now_def live] by (auto simp: consume_reply_def)
    qed
  qed
qed

lemma redis_keeps_contract:
  assumes "redis_laws R"
  shows "usage_store (redis_Consume R) (redis_uses R) (redis_inv R) redis_fits"
proof
  fix M s sid and i :: ConsumeInput and e :: int and r
  assume inv: "redis_inv R M s"
  show "redis_uses R s sid \<le> M" using redis_uses_range [OF inv] by simp
  show "redis_uses R (snd (redis_Consume R e i s)) sid = redis_uses R s sid" if "sid \<noteq> ci_ID i"
    using assms
    by (cases rule: redis_Consume_cases [where wall = e and inp = i and s = s])
      (use script_frame [OF assms that, of s] in \<open>simp_all add: redis_uses_def\<close>)
  assume fit: "redis_fits M e i"
  let ?now = "consume_now e i"
  let ?u = "redis_uses R s (ci_ID i)"
  note u = redis_uses_range [OF inv, of "ci_ID i"]
  have M: "ci_MaxUses i = M" using fit by (simp add: redis_fits_def)
  have ttl: "0 < redis_ttl i ?now" if "0 < wrap64 (ci_ExpiresAt i - ?now)"
    using that redis_ttl_fits [OF fit refl] redis_grace_pos [of i] by linarith
  note eff = script_effect [OF assms inv M ttl refl]
  have after: "redis_uses R (s\<lparr>ru_server := snd (script_of R ?now i s (ru_server s))\<rparr>) sid =
      (if sid = ci_ID i \<and> ?u < M then ?u + 1 else redis_uses R s sid)"
    if "0 < wrap64 (ci_ExpiresAt i - ?now)" for sid
  proof -
    have "ParseInt (FormatInt (?u + 1)) = Some (?u + 1)" if "?u < M"
      using that inv u(1) by (intro ParseInt_FormatInt) (simp add: redis_inv_def in_int64_def)
    then show ?thesis using eff(2) [OF that, of sid] by (simp add: redis_uses_def)
  qed
  show "redis_inv R M (snd (redis_Consume R e i s))"
    using assms
  proof (cases rule: redis_Consume_cases [where wall = e and inp = i and s = s])
    case (ran now)
    then show ?thesis using inv eff(2) u by (auto simp: redis_inv_def)
  qed (use inv in simp)
  show "redis_uses R s sid \<le> redis_uses R (snd (redis_Consume R e i s)) sid"
    using assms by (cases rule: redis_Consume_cases [where wall = e and inp = i and s = s]) (simp_all add: after)
  show "redis_uses R (snd (redis_Consume R e i s)) (ci_ID i) = ?u + 1"
    if "fst (redis_Consume R e i s) = Inr r" "cr_Allowed r" "\<not> ci_SkipConsume i"
    using assms
  proof (cases rule: redis_Consume_cases [where wall = e and inp = i and s = s])
    case (ran now)
    with that have "?u < M" using eff(1) by (auto simp: consume_reply_def split: if_splits)
    with ran show ?thesis by (simp add: after)
  qed (use that in blast)
qed

section \<open>Calls spread over the server's time\<close>

text \<open>
  Every call comes with the server's time at which it arrives; before it is served, time passes
  up to that moment and keys may be deleted. Counted are the calls that were charged to the id.
\<close>

fun redis_admissions ::
  "'r RedisClient \<Rightarrow> 'r RedisTime \<Rightarrow> string \<Rightarrow> (int \<times> int \<times> ConsumeInput) list \<Rightarrow> 'r RedisUsageStore \<Rightarrow> nat" where
  "redis_admissions R T sid [] s = 0"
| "redis_admissions R T sid ((t, wall, inp) # xs) s =
     (case redis_Consume R wall inp (s\<lparr>ru_server := tm_pass T t (ru_server s)\<rparr>) of
        (res, s') \<Rightarrow>
          (if ci_ID inp = sid \<and> \<not> ci_SkipConsume inp \<and> (case res of Inr r \<Rightarrow> cr_Allowed r | Inl _ \<Rightarrow> False) then 1 else 0) +
          redis_admissions R T sid xs s')"

text \<open>
  The calls for one token agree on its expiry time \<open>E\<close>. The clocks of the processes that make
  them may differ from the server's clock, by \<open>lo\<close> to \<open>hi\<close> seconds, as long as the grace period covers
  the spread.
\<close>

definition call_in_time :: "int \<Rightarrow> int \<Rightarrow> int \<Rightarrow> int \<Rightarrow> int \<Rightarrow> ConsumeInput \<Rightarrow> bool" where
  "call_in_time lo hi E t wall inp \<longleftrightarrow> ci_ExpiresAt inp = E \<and> lo \<le> t - consume_now wall inp \<and>
     t - consume_now wall inp \<le> hi \<and> hi - lo \<le> redis_grace inp"

text \<open>A record that is on the server stays there until the time \<open>D\<close>.\<close>

definition record_stays :: "'r RedisClient \<Rightarrow> 'r RedisTime \<Rightarrow> int \<Rightarrow> string \<Rightarrow> 'r RedisUsageStore \<Rightarrow> bool" where
  "record_stays R T D sid s \<longleftrightarrow> rd_hget R (usageKey s sid) ''uses'' (ru_server s) = None \<or>
     (case tm_deadline T (usageKey s sid) (ru_server s) of None \<Rightarrow> True | Some d \<Rightarrow> D \<le> d)"

lemma usageKey_Consume [simp]: "usageKey (snd (redis_Consume R wall inp s)) = usageKey s"
  by (simp add: redis_Consume_def usageKey_def fun_eq_iff Let_def split: prod.split)

lemma pass_key:
  assumes "time_laws R T" and "tm_now T r \<le> t"
  shows "(\<forall>f. rd_hget R k f (tm_pass T t r) = rd_hget R k f r) \<and> tm_deadline T k (tm_pass T t r) = tm_deadline T k r \<or>
    (\<exists>d \<le> t. tm_deadline T k r = Some d) \<and> (\<forall>f. rd_hget R k f (tm_pass T t r) = None)"
proof -
  have "pass_law R T" using assms(1) by (simp add: time_laws_def)
  from this [unfolded pass_law_def, rule_format, OF assms(2), of k] show ?thesis by (elim conjE disjE) simp_all
qed

lemma pass_inv:
  assumes "time_laws R T" and "redis_inv R M s" and "tm_now T (ru_server s) \<le> t"
  shows "redis_inv R M (s\<lparr>ru_server := tm_pass T t (ru_server s)\<rparr>)"
proof -
  have "rd_hget R k f (ru_server s) = Some v" if "rd_hget R k f (tm_pass T t (ru_server s)) = Some v" for k f v
    using pass_key [OF assms(1,3), of k] that by (elim disjE conjE) simp_all
  with assms(2) show ?thesis unfolding redis_inv_def by simp blast
qed

lemma pass_keeps_record:
  assumes "time_laws R T" and "tm_now T (ru_server s) \<le> t" and "t < D" and "record_stays R T D sid s"
  shows "record_stays R T D sid (s\<lparr>ru_server := tm_pass T t (ru_server s)\<rparr>)"
    and "redis_uses R (s\<lparr>ru_server := tm_pass T t (ru_server s)\<rparr>) sid = redis_uses R s sid"
proof -
  let ?k = "usageKey s sid" and ?r = "ru_server s"
  have "(\<forall>f. rd_hget R ?k f (tm_pass T t ?r) = rd_hget R ?k f ?r) \<and> tm_deadline T ?k (tm_pass T t ?r) = tm_deadline T ?k ?r \<or>
      rd_hget R ?k ''uses'' ?r = None \<and> rd_hget R ?k ''uses'' (tm_pass T t ?r) = None"
    using pass_key [OF assms(1,2), of ?k] assms(3,4) by (auto simp: record_stays_def)
  with assms(4) show "record_stays R T D sid (s\<lparr>ru_server := tm_pass T t ?r\<rparr>)"
    "redis_uses R (s\<lparr>ru_server := tm_pass T t ?r\<rparr>) sid = redis_uses R s sid"
    by (auto simp: record_stays_def redis_uses_def)
qed

lemma script_time:
  assumes "redis_laws R" and "time_laws R T" and "redis_inv R M s" and "ci_MaxUses inp = M" and "0 < redis_ttl inp now"
    and "u = redis_uses R s (ci_ID inp)"
  shows "tm_now T (snd (script_of R now inp s (ru_server s))) = tm_now T (ru_server s)"
    and "tm_deadline T (usageKey s sid) (snd (script_of R now inp s (ru_server s))) =
      (if sid = ci_ID inp \<and> u = 0 \<and> u < M then Some (tm_now T (ru_server s) + redis_ttl inp now)
       else tm_deadline T (usageKey s sid) (ru_server s))"
proof -
  let ?k = "usageKey s (ci_ID inp)"
  have laws: "hset_time_law R T" "hset_law R" using assms(1,2) by (simp_all add: redis_laws_def time_laws_def)
  have ex: "tm_now T (rd_expire R ?k (redis_ttl inp now) (rd_hset R ?k ((''uses'', v) # fvs) r)) = tm_now T r \<and>
      tm_deadline T k' (rd_expire R ?k (redis_ttl inp now) (rd_hset R ?k ((''uses'', v) # fvs) r)) =
        (if k' = ?k then Some (tm_now T r + redis_ttl inp now) else tm_deadline T k' r)"
    if "distinct (map fst ((''uses'', v) # fvs))" for v fvs r k'
  proof -
    have "rd_hget R ?k ''uses'' (rd_hset R ?k ((''uses'', v) # fvs) r) = Some v"
      using laws(2) [unfolded hset_law_def, rule_format, OF that, of ?k "''uses''" ?k r] by simp
    then have "\<exists>f. rd_hget R ?k f (rd_hset R ?k ((''uses'', v) # fvs) r) \<noteq> None" by (intro exI [of _ "''uses''"]) simp
    with assms(2,5) laws(1) show ?thesis by (simp add: time_laws_def expire_time_law_def hset_time_law_def)
  qed
  note u = redis_uses_range(3) [OF assms(3), of "ci_ID inp", folded assms(6)]
  show "tm_now T (snd (script_of R now inp s (ru_server s))) = tm_now T (ru_server s)"
    "tm_deadline T (usageKey s sid) (snd (script_of R now inp s (ru_server s))) =
      (if sid = ci_ID inp \<and> u = 0 \<and> u < M then Some (tm_now T (ru_server s) + redis_ttl inp now)
       else tm_deadline T (usageKey s sid) (ru_server s))"
    using u assms(4) laws(1) ex by (simp_all add: script_of_def consumeUsage_def hset_time_law_def Let_def)
qed

lemma Consume_clock:
  assumes "redis_laws R" and "time_laws R T" and "redis_inv R M s" and "redis_fits M wall inp"
  shows "tm_now T (ru_server (snd (redis_Consume R wall inp s))) = tm_now T (ru_server s)"
  using assms(1)
proof (cases rule: redis_Consume_cases [where wall = wall and inp = inp and s = s])
  case (ran now)
  have "0 < redis_ttl inp now"
    using ran(2) redis_ttl_fits [OF assms(4) ran(1)] redis_grace_pos [of inp] by linarith
  moreover have "ci_MaxUses inp = M" using assms(4) by (simp add: redis_fits_def)
  ultimately show ?thesis using script_time(1) [OF assms(1-3)] ran(3) by simp
qed simp

text \<open>
  The life time that the script gives a new record reaches beyond the moment at which the last of
  the clocks sees the token expire.
\<close>

lemma Consume_keeps_record:
  assumes "redis_laws R" and "time_laws R T" and "redis_inv R M s" and "redis_fits M wall inp"
    and "ci_ID inp = sid \<Longrightarrow> call_in_time lo hi E (tm_now T (ru_server s)) wall inp"
    and "record_stays R T (hi + E) sid s"
  shows "record_stays R T (hi + E) sid (snd (redis_Consume R wall inp s))"
  using assms(1)
proof (cases rule: redis_Consume_cases [where wall = wall and inp = inp and s = s])
  case (ran now)
  note ttl = redis_ttl_fits [OF assms(4) ran(1)]
  have pos: "0 < redis_ttl inp now" using ran(2) ttl redis_grace_pos [of inp] by linarith
  have M: "ci_MaxUses inp = M" using assms(4) by (simp add: redis_fits_def)
  define u where "u = redis_uses R s (ci_ID inp)"
  note dl = script_time(2) [OF assms(1-3) M pos u_def, of sid] and eff = script_effect(2) [OF assms(1,3) M pos u_def, of sid]
  have new: "hi + E \<le> tm_now T (ru_server s) + redis_ttl inp now" if "sid = ci_ID inp"
    using assms(5) that ttl(1) ran(1) by (simp add: call_in_time_def)
  have "rd_hget R (usageKey s sid) ''uses'' (ru_server s) \<noteq> None" if "sid = ci_ID inp" "u \<noteq> 0"
    using that by (auto simp: u_def redis_uses_def split: option.splits)
  with assms(6) ran(3) dl eff new show ?thesis by (auto simp: record_stays_def split: if_splits)
qed (use assms(6) in simp)

text \<open>Once every clock has passed the expiry time, no call is charged.\<close>

lemma late_calls_not_charged:
  assumes "\<forall>(t, wall, inp) \<in> set xs. hi + E \<le> t \<and> redis_fits M wall inp \<and> (ci_ID inp = sid \<longrightarrow> call_in_time lo hi E t wall inp)"
  shows "redis_admissions R T sid xs s = 0"
  using assms
proof (induction xs arbitrary: s)
  case (Cons x xs)
  obtain t wall inp where x: "x = (t, wall, inp)" by (metis prod_cases3)
  let ?s = "s\<lparr>ru_server := tm_pass T t (ru_server s)\<rparr>"
  have fit: "redis_fits M wall inp" using Cons.prems x by simp
  have "wrap64 (ci_ExpiresAt inp - consume_now wall inp) \<le> 0" if "ci_ID inp = sid"
    using Cons.prems x that redis_ttl_fits(2) [OF fit refl] by (simp add: call_in_time_def)
  then have "\<not> (case fst (redis_Consume R wall inp ?s) of Inr r \<Rightarrow> cr_Allowed r | Inl _ \<Rightarrow> False)" if "ci_ID inp = sid"
    using that by (simp add: redis_Consume_eq [OF refl])
  with Cons x show ?case by (simp add: case_prod_beta)
qed simp

lemma admissions_over_time:
  assumes "redis_laws R" and "time_laws R T"
    and "redis_inv R M s" and "record_stays R T (hi + E) sid s"
    and "sorted (map fst xs)" and "\<forall>(t, wall, inp) \<in> set xs. tm_now T (ru_server s) \<le> t \<and> redis_fits M wall inp \<and>
      (ci_ID inp = sid \<longrightarrow> call_in_time lo hi E t wall inp)"
  shows "int (redis_admissions R T sid xs s) \<le> M - redis_uses R s sid"
  using assms(3-6)
proof (induction xs arbitrary: s)
  case Nil
  then show ?case using redis_uses_range by simp
next
  case (Cons x xs)
  obtain t wall inp where x: "x = (t, wall, inp)" by (metis prod_cases3)
  define s1 where "s1 = s\<lparr>ru_server := tm_pass T t (ru_server s)\<rparr>"
  define s2 where "s2 = snd (redis_Consume R wall inp s1)"
  have t: "tm_now T (ru_server s) \<le> t" and fit: "redis_fits M wall inp"
    and call: "ci_ID inp = sid \<Longrightarrow> call_in_time lo hi E t wall inp" using Cons.prems(4) x by auto
  show ?case
  proof (cases "t < hi + E")
    case False
    then have "redis_admissions R T sid (x # xs) s = 0"
      using Cons.prems(3,4) x by (intro late_calls_not_charged [where hi = hi and E = E and M = M and lo = lo]) fastforce
    then show ?thesis using redis_uses_range [OF Cons.prems(1), of sid] by simp
  next
    case True
    have inv1: "redis_inv R M s1" unfolding s1_def by (rule pass_inv [OF assms(2) Cons.prems(1) t])
    note kept = pass_keeps_record [OF assms(2) t True Cons.prems(2), folded s1_def]
    have now: "tm_now T (ru_server s1) = t" using assms(2) t by (simp add: s1_def time_laws_def pass_law_def)
    note store = redis_keeps_contract [OF assms(1)]
    have inv2: "redis_inv R M s2" unfolding s2_def by (rule usage_store.inv_consume [OF store inv1 fit])
    have stays: "record_stays R T (hi + E) sid s2"
      unfolding s2_def using call now by (intro Consume_keeps_record [OF assms(1,2) inv1 fit _ kept(1)]) simp
    have now2: "tm_now T (ru_server s2) = t" unfolding s2_def using Consume_clock [OF assms(1,2) inv1 fit] now by simp
    have "int (redis_admissions R T sid xs s2) \<le> M - redis_uses R s2 sid"
      using Cons.prems(3,4) x now2 by (intro Cons.IH [OF inv2 stays]) fastforce+
    moreover have "redis_uses R s1 sid +
        (if usage_store.charged_to sid inp (fst (redis_Consume R wall inp s1)) then 1 else 0) \<le> redis_uses R s2 sid"
      unfolding s2_def by (rule usage_store.step_admissions [OF store inv1 fit])
    ultimately show ?thesis
      using kept(2) x by (auto simp: usage_store.charged_to_def [OF store] case_prod_beta simp flip: s1_def s2_def split: if_splits)
  qed
qed

text \<open>
  A counter read in the window of an increment answers with the value of the increment, for a
  server whose \<^verbatim>\<open>GET\<close> reads what \<^verbatim>\<open>INCR\<close> has stored.
\<close>

definition incr_law :: "'r RedisClient \<Rightarrow> bool" where
  "incr_law R \<longleftrightarrow> (\<forall>k w r v r'. rc_IncrExpire R k w r = (Inr v, r') \<longrightarrow> rc_Get R k r' = Inr (FormatInt v) \<and> in_int64 v)"

lemma redis_counter_reads_increment:
  assumes "incr_law R" and "fst (redis_Incr R now now2 name key window s) = Inr (v, remaining)"
    and "bucketStart window now' = bucketStart window now"
  shows "redis_counter_Get R now' name key window (snd (redis_Incr R now now2 name key window s)) = Inr v"
proof -
  obtain reply r' where run: "rc_IncrExpire R (redis_counterKey s name key (bucketStart window now)) window (rx_server s) = (reply, r')"
    by (metis prod.collapse)
  have c: "\<not> rx_closed s" "\<not> window \<le> 0" "reply = Inr v"
    using assms(2) run by (auto simp: redis_Incr_def Let_def split: if_splits sum.splits)
  with run assms(1) have "rc_Get R (redis_counterKey s name key (bucketStart window now)) r' = Inr (FormatInt v)" "in_int64 v"
    by (auto simp: incr_law_def)
  with c run assms(3) show ?thesis
    by (simp add: redis_Incr_def redis_counter_Get_def redis_counterKey_def ParseInt_FormatInt Let_def)
qed

lemma redis_remaining_bounds:
  assumes "fst (redis_Incr R now now2 name key window s) = Inr (v, remaining)" and "0 \<le> now" and "now < 2 ^ 63" and "now \<le> now2"
  shows "0 \<le> remaining \<and> remaining \<le> window"
proof -
  have w: "0 < window" and r: "remaining = max 0 (bucketStart window now + window - now2)"
    using assms(1) by (auto simp: redis_Incr_def Let_def max_def split: if_splits sum.splits prod.splits)
  with bucketStart_bounds [OF w assms(2,3)] assms(4) show ?thesis by auto
qed

section \<open>Properties\<close>

text \<open>
  C11: The Redis store charges at most \<^verbatim>\<open>max_uses\<close>, although the server deletes a record at the end of
  its life time. For a server that keeps its documented laws, in any sequence of calls for this
  and other sign ids, spread over time in any way and with replies lost anywhere, the uses charged
  to an id and the uses already on record together stay within the limit. The calls for the id
  carry the expiry time of their token; the clocks of the processes that make them may be off the
  server's clock, by amounts that differ by no more than the grace period.
\<close>

theorem redis_charges_at_most_max_uses:
  assumes "redis_laws R" and "time_laws R T"
    and "redis_inv R M s" and "record_stays R T (hi + E) sid s"
    and "sorted (map fst xs)" and "\<forall>(t, wall, inp) \<in> set xs. tm_now T (ru_server s) \<le> t \<and> redis_fits M wall inp \<and>
      (ci_ID inp = sid \<longrightarrow> call_in_time lo hi E t wall inp)"
  shows "int (redis_admissions R T sid xs s) \<le> M - redis_uses R s sid"
  using assms by (rule admissions_over_time)

definition redis_usage_ops :: "'r RedisClient \<Rightarrow> 'r RedisUsageStore UsageOps" where
  "redis_usage_ops R = \<lparr>uo_Consume = redis_Consume R, uo_Get = redis_Get R\<rparr>"

text \<open>
  The Redis store never binds an address. The call with which first-use binding would record
  the address of an unbound token is exempt from counting, and the Redis store answers such a
  call without writing: the check passes for every client address and leaves the store as it was,
  so the next client passes as well.
\<close>

theorem redis_binding_not_persisted:
  assumes "sv_usageStore sv = Some (redis_usage_ops R)"
    and "redis_Get R (ComputeSignID L (Some p) sign mode) s = Inl ErrNotFound"
    and "rc_HGet R (usageKey s (ComputeSignID L (Some p) sign mode)) ''uses'' (ru_server s) = Inl RedisNil"
  shows "bindEmptyIPFirstUse L ck sv p req tok sign mode s = (None, p\<lparr>tp_IP := ar_RealIP req\<rparr>, s)"
proof -
  have "\<not> ru_closed s" using assms(2) by (auto simp: redis_Get_def)
  with assms show ?thesis
    by (simp add: bindEmptyIPFirstUse_def redis_usage_ops_def redis_Consume_def consume_skip_def Let_def)
qed

text \<open>A server with a clock, the deadlines of its keys and its hashes; as time passes it deletes what is due.\<close>

type_synonym demo_server = "int \<times> (string, int) gomap \<times> (string, (string, string) gomap) gomap"

definition demo_hash :: "demo_server \<Rightarrow> string \<Rightarrow> (string, string) gomap" where
  "demo_hash r k = (case map_of (snd (snd r)) k of Some h \<Rightarrow> h | None \<Rightarrow> [])"

definition demo_redis :: "demo_server RedisClient" where
  "demo_redis = \<lparr>rd_hget = (\<lambda>k f r. map_of (demo_hash r k) f),
     rd_hset = (\<lambda>k fvs r. (fst r, fst (snd r), AList.update k (fvs @ demo_hash r k) (snd (snd r)))),
     rd_expire = (\<lambda>k ttl r. (fst r, AList.update k (fst r + ttl) (fst (snd r)), snd (snd r))), rc_Run = (\<lambda>f r. f r),
     rc_HGet = (\<lambda>k f r. case map_of (demo_hash r k) f of Some v \<Rightarrow> Inr v | None \<Rightarrow> Inl RedisNil),
     rc_HGetAll = (\<lambda>k r. Inr (demo_hash r k)),
     rc_IncrExpire = (\<lambda>k w r. (Inl RedisErr, r)), rc_Get = (\<lambda>k r. Inl RedisNil), rc_Del = (\<lambda>k r. (Inr 0, r))\<rparr>"

definition demo_due :: "int \<Rightarrow> demo_server \<Rightarrow> string \<Rightarrow> bool" where
  "demo_due t r k = (case map_of (fst (snd r)) k of Some d \<Rightarrow> d \<le> t | None \<Rightarrow> False)"

definition demo_time :: "demo_server RedisTime" where
  "demo_time = \<lparr>tm_now = fst, tm_deadline = (\<lambda>k r. map_of (fst (snd r)) k),
     tm_pass = (\<lambda>t r. (t, filter (\<lambda>(k, d). \<not> demo_due t r k) (fst (snd r)), filter (\<lambda>(k, h). \<not> demo_due t r k) (snd (snd r))))\<rparr>"

lemma demo_redis_laws: "redis_laws demo_redis"
  by (auto simp: redis_laws_def hset_law_def expire_law_def run_law_def read_law_def demo_redis_def demo_hash_def map_add_def
      split: option.split prod.split sum.split)

lemma map_of_filter_key: "map_of (filter (\<lambda>(k, v). P k) xs) k = (if P k then map_of xs k else None)"
  by (induction xs) auto

lemma demo_time_laws: "time_laws demo_redis demo_time"
proof -
  have "hset_time_law demo_redis demo_time" "expire_time_law demo_redis demo_time"
    by (simp_all add: hset_time_law_def expire_time_law_def demo_redis_def demo_time_def update_conv')
  moreover have "pass_law demo_redis demo_time"
    by (auto simp: pass_law_def demo_redis_def demo_time_def demo_hash_def demo_due_def map_of_filter_key split: option.splits)
  ultimately show ?thesis by (simp add: time_laws_def)
qed

text \<open>
  Two uses of \<^verbatim>\<open>a1\<close> are charged, one by a process whose clock is ten seconds behind; the third call is
  refused, and so is the one that comes after the server has deleted the record.
\<close>

definition demo_calls :: "(int \<times> int \<times> ConsumeInput) list" where
  "demo_calls = [(1500, 0, demo_consume), (1500, 0, demo_consume\<lparr>ci_ID := ''b2''\<rparr>), (1990, 0, demo_consume\<lparr>ci_NowUnix := 1980\<rparr>),
     (1995, 0, demo_consume\<lparr>ci_NowUnix := 1995\<rparr>), (2070, 0, demo_consume\<lparr>ci_NowUnix := 2060\<rparr>)]"

theorem redis_charges_at_most_max_uses_witness:
  "int (redis_admissions demo_redis demo_time ''a1'' demo_calls (redis_NewUsageStore (1500, [], []) [])) \<le> 2"
proof -
  let ?s = "redis_NewUsageStore (1500, [], []) [] :: demo_server RedisUsageStore"
  have i: "redis_inv demo_redis 2 ?s" and k: "record_stays demo_redis demo_time (10 + 2000) ''a1'' ?s"
    and u: "redis_uses demo_redis ?s ''a1'' = 0"
    by (simp_all add: redis_inv_def record_stays_def redis_uses_def demo_redis_def demo_hash_def redis_NewUsageStore_def)
  have o: "sorted (map fst demo_calls)" by (simp add: demo_calls_def)
  have c: "\<forall>(t, wall, inp) \<in> set demo_calls. tm_now demo_time (ru_server ?s) \<le> t \<and> redis_fits 2 wall inp \<and>
      (ci_ID inp = ''a1'' \<longrightarrow> call_in_time 0 10 2000 t wall inp)"
    by (simp add: demo_calls_def redis_fits_def call_in_time_def redis_grace_def consume_now_def demo_consume_def in_int64_def
        redis_NewUsageStore_def demo_time_def)
  show ?thesis using redis_charges_at_most_max_uses [OF demo_redis_laws demo_time_laws i k o c] u by simp
qed

definition redis_options :: "(demo_server RedisUsageStore, MemCounterStore) Options" where
  "redis_options = \<lparr>op_Config = Some demo_cfg, op_Matcher = Some AlwaysMatcher, op_UsageStore = Some (redis_usage_ops demo_redis),
     op_RiskEngine = None, op_CounterReg = None, op_PendingBlocker = False\<rparr>"

theorem redis_binding_not_persisted_witness:
  "bindEmptyIPFirstUse demo_lib (demo_clocks 1500) (service_of redis_options)
     (demo_payload\<lparr>tp_Mode := ''ip_bound''\<rparr>) demo_req ''AAAA'' demo_sign ''ip_bound'' (redis_NewUsageStore (0, [], []) []) =
   (None, demo_payload\<lparr>tp_Mode := ''ip_bound'', tp_IP := ''10.0.0.9''\<rparr>, redis_NewUsageStore (0, [], []) [])"
proof -
  let ?p = "demo_payload\<lparr>tp_Mode := ''ip_bound''\<rparr>"
  have "sv_usageStore (service_of redis_options) = Some (redis_usage_ops demo_redis)"
    by (simp add: service_of_def New_def redis_options_def demo_cfg_def zero_config_def applyDefaults_def)
  moreover have "redis_Get demo_redis k (redis_NewUsageStore (0, [], []) []) = Inl ErrNotFound"
    "rc_HGet demo_redis k f (ru_server (redis_NewUsageStore (0, [], []) [])) = Inl RedisNil" for k f
    by (simp_all add: redis_Get_def demo_redis_def demo_hash_def redis_NewUsageStore_def)
  ultimately show ?thesis
    using redis_binding_not_persisted [of "service_of redis_options" demo_redis demo_lib ?p demo_sign "''ip_bound''"
        "redis_NewUsageStore (0, [], []) []" "demo_clocks 1500" demo_req "''AAAA''"]
    by (simp add: demo_req_def)
qed

end
