(* ===== verification/PostgresStore.thy ===== *)
theory PostgresStore
  imports TokenSpec
begin

text \<open>
  \<^verbatim>\<open>storage/postgres/usage.go\<close>. The database is the argument \<open>P\<close>: a record of the four statements
  that the code sends, parameterised by the conditions and assignments in their text, on a
  database state of any type; \<open>pg_rows\<close> is the content of the table \<^verbatim>\<open>pow_usage\<close>. What the code
  relies on of \<^verbatim>\<open>INSERT ... ON CONFLICT\<close> and of a selection are the laws below.
\<close>

section \<open>The table\<close>

record PgRow =
  row_id :: string
  row_mode :: string
  row_path :: string
  row_sign :: string
  row_token_hash :: string
  row_uses :: int
  row_max_uses :: int
  row_first_ip :: "string option"
  row_last_ip :: "string option"
  row_user_agent :: "string option"
  row_expires_at :: int
  row_created_at :: int
  row_updated_at :: int

record 'd PgPool =
  pg_rows :: "'d \<Rightarrow> string \<Rightarrow> PgRow option"
  pg_upsert :: "string \<Rightarrow> PgRow \<Rightarrow> (PgRow \<Rightarrow> bool) \<Rightarrow> (PgRow \<Rightarrow> PgRow) \<Rightarrow> 'd \<Rightarrow> (unit + PgRow option) \<times> 'd"
  pg_select :: "string \<Rightarrow> 'd \<Rightarrow> unit + PgRow option"
  pg_delete :: "(PgRow \<Rightarrow> bool) \<Rightarrow> 'd \<Rightarrow> (unit + int) \<times> 'd"
  pg_count :: "(PgRow \<Rightarrow> bool) \<Rightarrow> 'd \<Rightarrow> unit + int"

section \<open>The store (usage.go)\<close>

record 'd PgUsageStore =
  pu_closed :: bool
  pu_db :: 'd

definition NewUsageStoreFromPool :: "'d \<Rightarrow> 'd PgUsageStore" where
  "NewUsageStoreFromPool db = \<lparr>pu_closed = False, pu_db = db\<rparr>"

text \<open>The parts of the upsert: the row of \<^verbatim>\<open>VALUES\<close>, the condition and the assignments on conflict.\<close>

definition insert_row :: "int \<Rightarrow> ConsumeInput \<Rightarrow> PgRow" where
  "insert_row now inp =
     \<lparr>row_id = ci_ID inp, row_mode = ci_Mode inp, row_path = ci_Path inp, row_sign = ci_Sign inp,
      row_token_hash = ci_TokenHash inp, row_uses = 1, row_max_uses = ci_MaxUses inp, row_first_ip = Some (ci_IP inp),
      row_last_ip = Some (ci_IP inp), row_user_agent = Some (ci_UserAgent inp), row_expires_at = ci_ExpiresAt inp,
      row_created_at = now, row_updated_at = now\<rparr>"

definition conflict_where :: "PgRow \<Rightarrow> bool" where
  "conflict_where old \<longleftrightarrow> row_uses old < row_max_uses old"

definition conflict_set :: "PgRow \<Rightarrow> PgRow \<Rightarrow> PgRow" where
  "conflict_set excluded old =
     old\<lparr>row_uses := row_uses old + 1, row_last_ip := row_last_ip excluded,
       row_user_agent := (case (if row_user_agent old = Some [] then None else row_user_agent old) of
                            Some ua \<Rightarrow> Some ua | None \<Rightarrow> row_user_agent excluded),
       row_updated_at := row_updated_at excluded\<rparr>"

definition row_record :: "PgRow \<Rightarrow> UsageRecord" where
  "row_record row =
     \<lparr>ur_ID = row_id row, ur_Mode = row_mode row, ur_Path = row_path row, ur_Sign = row_sign row,
      ur_TokenHash = row_token_hash row, ur_Uses = row_uses row, ur_MaxUses = row_max_uses row,
      ur_FirstIP = (case row_first_ip row of Some s \<Rightarrow> s | None \<Rightarrow> []),
      ur_LastIP = (case row_last_ip row of Some s \<Rightarrow> s | None \<Rightarrow> []),
      ur_UserAgent = (case row_user_agent row of Some s \<Rightarrow> s | None \<Rightarrow> []),
      ur_ExpiresAt = row_expires_at row, ur_CreatedAt = row_created_at row, ur_UpdatedAt = row_updated_at row\<rparr>"

definition pg_Get :: "'d PgPool \<Rightarrow> string \<Rightarrow> 'd PgUsageStore \<Rightarrow> store_error + UsageRecord" where
  "pg_Get P sid s =
     (if pu_closed s then Inl ErrClosed
      else case pg_select P sid (pu_db s) of
        Inl _ \<Rightarrow> Inl ErrBackend
      | Inr None \<Rightarrow> Inl ErrNotFound
      | Inr (Some row) \<Rightarrow> Inr (row_record row))"

definition pg_Consume ::
  "'d PgPool \<Rightarrow> int \<Rightarrow> ConsumeInput \<Rightarrow> 'd PgUsageStore \<Rightarrow> (store_error + ConsumeResult) \<times> 'd PgUsageStore" where
  "pg_Consume P wall inp s =
     (if pu_closed s then (Inl ErrClosed, s)
      else if ci_SkipConsume inp then
        (case pg_Get P (ci_ID inp) s of
           Inl ErrNotFound \<Rightarrow>
             (Inr \<lparr>cr_Allowed = True, cr_Uses = 0, cr_MaxUses = ci_MaxUses inp, cr_Reason = ''ok_head_first''\<rparr>, s)
         | Inl err \<Rightarrow> (Inl err, s)
         | Inr rec \<Rightarrow>
             (Inr \<lparr>cr_Allowed = (ur_Uses rec < ci_MaxUses inp), cr_Uses = ur_Uses rec, cr_MaxUses = ci_MaxUses inp,
                cr_Reason = (if ur_Uses rec < ci_MaxUses inp then ''ok_head'' else ''used_up_head'')\<rparr>, s))
      else
        (let now = (if ci_NowUnix inp = 0 then wall else ci_NowUnix inp);
             excluded = insert_row now inp in
         case pg_upsert P (ci_ID inp) excluded conflict_where (conflict_set excluded) (pu_db s) of
           (Inl _, d') \<Rightarrow> (Inl ErrBackend, s\<lparr>pu_db := d'\<rparr>)
         | (Inr (Some row), d') \<Rightarrow>
             (Inr \<lparr>cr_Allowed = True, cr_Uses = row_uses row, cr_MaxUses = row_max_uses row, cr_Reason = ''ok''\<rparr>,
              s\<lparr>pu_db := d'\<rparr>)
         | (Inr None, d') \<Rightarrow>
             (case pg_Get P (ci_ID inp) (s\<lparr>pu_db := d'\<rparr>) of
                Inl err \<Rightarrow> (Inl err, s\<lparr>pu_db := d'\<rparr>)
              | Inr rec \<Rightarrow>
                  (Inr \<lparr>cr_Allowed = False, cr_Uses = ur_Uses rec, cr_MaxUses = ur_MaxUses rec, cr_Reason = ''used_up''\<rparr>,
                   s\<lparr>pu_db := d'\<rparr>))))"

definition pg_CleanupExpired :: "'d PgPool \<Rightarrow> int \<Rightarrow> 'd PgUsageStore \<Rightarrow> (store_error + int) \<times> 'd PgUsageStore" where
  "pg_CleanupExpired P beforeUnix s =
     (if pu_closed s then (Inl ErrClosed, s)
      else case pg_delete P (\<lambda>row. row_expires_at row < beforeUnix) (pu_db s) of
        (Inl _, d') \<Rightarrow> (Inl ErrBackend, s\<lparr>pu_db := d'\<rparr>)
      | (Inr n, d') \<Rightarrow> (Inr n, s\<lparr>pu_db := d'\<rparr>))"

definition pg_CountActive :: "'d PgPool \<Rightarrow> int \<Rightarrow> 'd PgUsageStore \<Rightarrow> store_error + int" where
  "pg_CountActive P nowUnix s =
     (if pu_closed s then Inl ErrClosed
      else case pg_count P (\<lambda>row. row_expires_at row \<ge> nowUnix) (pu_db s) of Inl _ \<Rightarrow> Inl ErrBackend | Inr n \<Rightarrow> Inr n)"

definition pg_Close :: "'d PgUsageStore \<Rightarrow> 'd PgUsageStore" where
  "pg_Close s = s\<lparr>pu_closed := True\<rparr>"

section \<open>What is relied on of the database\<close>

text \<open>
  \<^verbatim>\<open>INSERT ... ON CONFLICT (id) DO UPDATE ... WHERE ... RETURNING\<close>: what it returns and leaves. A
  failed statement has changed nothing, or it was executed and the reply was lost.
\<close>

definition upserted ::
  "(string \<Rightarrow> PgRow option) \<Rightarrow> string \<Rightarrow> PgRow \<Rightarrow> (PgRow \<Rightarrow> bool) \<Rightarrow> (PgRow \<Rightarrow> PgRow) \<Rightarrow> PgRow option \<times> (string \<Rightarrow> PgRow option)" where
  "upserted rows sid row cond upd =
     (case rows sid of
        None \<Rightarrow> (Some row, rows(sid \<mapsto> row))
      | Some old \<Rightarrow> if cond old then (Some (upd old), rows(sid \<mapsto> upd old)) else (None, rows))"

definition upsert_law :: "'d PgPool \<Rightarrow> bool" where
  "upsert_law P \<longleftrightarrow> (\<forall>sid row cond upd d. case pg_upsert P sid row cond upd d of
     (Inr ret, d') \<Rightarrow> (ret, pg_rows P d') = upserted (pg_rows P d) sid row cond upd
   | (Inl _, d') \<Rightarrow> pg_rows P d' = pg_rows P d \<or> pg_rows P d' = snd (upserted (pg_rows P d) sid row cond upd))"

definition select_law :: "'d PgPool \<Rightarrow> bool" where
  "select_law P \<longleftrightarrow> (\<forall>sid d. case pg_select P sid d of Inr r \<Rightarrow> r = pg_rows P d sid | Inl _ \<Rightarrow> True)"

section \<open>The contract\<close>

definition pg_uses :: "'d PgPool \<Rightarrow> 'd PgUsageStore \<Rightarrow> string \<Rightarrow> int" where
  "pg_uses P s sid = (case pg_rows P (pu_db s) sid of None \<Rightarrow> 0 | Some row \<Rightarrow> row_uses row)"

definition pg_inv :: "'d PgPool \<Rightarrow> int \<Rightarrow> 'd PgUsageStore \<Rightarrow> bool" where
  "pg_inv P M s \<longleftrightarrow> 1 \<le> M \<and>
     (\<forall>sid row. pg_rows P (pu_db s) sid = Some row \<longrightarrow> 0 \<le> row_uses row \<and> row_uses row \<le> M \<and> row_max_uses row = M)"

definition pg_upserted :: "'d PgPool \<Rightarrow> int \<Rightarrow> ConsumeInput \<Rightarrow> 'd PgUsageStore \<Rightarrow> PgRow option \<times> (string \<Rightarrow> PgRow option)" where
  "pg_upserted P now inp s =
     upserted (pg_rows P (pu_db s)) (ci_ID inp) (insert_row now inp) conflict_where (conflict_set (insert_row now inp))"

lemma upsert_lawD:
  "upsert_law P \<Longrightarrow> case pg_upsert P sid row cond upd d of
     (Inr ret, d') \<Rightarrow> (ret, pg_rows P d') = upserted (pg_rows P d) sid row cond upd
   | (Inl _, d') \<Rightarrow> pg_rows P d' = pg_rows P d \<or> pg_rows P d' = snd (upserted (pg_rows P d) sid row cond upd)"
  unfolding upsert_law_def by (elim allE)

lemma pg_Consume_cases [consumes 1, case_names unchanged ran]:
  assumes "upsert_law P"
  obtains "pg_rows P (pu_db (snd (pg_Consume P wall inp s))) = pg_rows P (pu_db s)"
      "\<And>r. fst (pg_Consume P wall inp s) = Inr r \<Longrightarrow> cr_Allowed r \<Longrightarrow> ci_SkipConsume inp"
  | now where "pg_rows P (pu_db (snd (pg_Consume P wall inp s))) = snd (pg_upserted P now inp s)"
      "\<And>r. fst (pg_Consume P wall inp s) = Inr r \<Longrightarrow> cr_Allowed r \<Longrightarrow> fst (pg_upserted P now inp s) \<noteq> None"
proof -
  define now where "now = (if ci_NowUnix inp = 0 then wall else ci_NowUnix inp)"
  obtain reply d' where run: "pg_upsert P (ci_ID inp) (insert_row now inp) conflict_where (conflict_set (insert_row now inp)) (pu_db s)
      = (reply, d')" by (metis prod.collapse)
  have law: "case (reply, d') of (Inr ret, d') \<Rightarrow> (ret, pg_rows P d') = pg_upserted P now inp s
      | (Inl _, d') \<Rightarrow> pg_rows P d' = pg_rows P (pu_db s) \<or> pg_rows P d' = snd (pg_upserted P now inp s)"
    using upsert_lawD [OF assms, where d = "pu_db s" and sid = "ci_ID inp" and row = "insert_row now inp" and cond = conflict_where
        and upd = "conflict_set (insert_row now inp)"] run
    by (cases reply) (simp_all add: pg_upserted_def)
  show ?thesis
  proof (cases "pu_closed s \<or> ci_SkipConsume inp")
    case True
    then show ?thesis
      by (intro that(1)) (auto simp: pg_Consume_def split: sum.splits store_error.splits)
  next
    case False
    then have eq: "pg_Consume P wall inp s =
        (case reply of
           Inl _ \<Rightarrow> (Inl ErrBackend, s\<lparr>pu_db := d'\<rparr>)
         | Inr (Some row) \<Rightarrow>
             (Inr \<lparr>cr_Allowed = True, cr_Uses = row_uses row, cr_MaxUses = row_max_uses row, cr_Reason = ''ok''\<rparr>, s\<lparr>pu_db := d'\<rparr>)
         | Inr None \<Rightarrow>
             (case pg_Get P (ci_ID inp) (s\<lparr>pu_db := d'\<rparr>) of
                Inl err \<Rightarrow> (Inl err, s\<lparr>pu_db := d'\<rparr>)
              | Inr rec \<Rightarrow>
                  (Inr \<lparr>cr_Allowed = False, cr_Uses = ur_Uses rec, cr_MaxUses = ur_MaxUses rec, cr_Reason = ''used_up''\<rparr>,
                   s\<lparr>pu_db := d'\<rparr>)))"
      using run unfolding pg_Consume_def Let_def now_def [symmetric] by (simp split: sum.split option.split)
    then have st: "pu_db (snd (pg_Consume P wall inp s)) = d'"
      by (simp split: sum.split option.split)
    show ?thesis
    proof (cases reply)
      case (Inr ret)
      with law have u: "pg_upserted P now inp s = (ret, pg_rows P d')" by simp
      show ?thesis using eq Inr u st by (intro that(2) [of now]) (auto split: option.splits sum.splits)
    next
      case (Inl e)
      then have e: "fst (pg_Consume P wall inp s) = Inl ErrBackend" using eq by simp
      from law Inl consider "pg_rows P d' = pg_rows P (pu_db s)" | "pg_rows P d' = snd (pg_upserted P now inp s)" by auto
      then show ?thesis
      proof cases
        case 1
        then show ?thesis using e st by (intro that(1)) auto
      next
        case 2
        then show ?thesis using e st by (intro that(2) [of now]) auto
      qed
    qed
  qed
qed


lemma pg_upserted_effect:
  assumes "pg_inv P M s" and "ci_MaxUses inp = M" and "u = pg_uses P s (ci_ID inp)"
  shows "0 \<le> u \<and> u \<le> M" and "fst (pg_upserted P now inp s) \<noteq> None \<longleftrightarrow> u < M"
    and "(case snd (pg_upserted P now inp s) sid of None \<Rightarrow> 0 | Some row \<Rightarrow> row_uses row) =
      (if sid = ci_ID inp \<and> u < M then u + 1 else pg_uses P s sid)"
    and "snd (pg_upserted P now inp s) sid = Some row \<Longrightarrow> 0 \<le> row_uses row \<and> row_uses row \<le> M \<and> row_max_uses row = M"
proof -
  have rows: "0 \<le> row_uses row \<and> row_uses row \<le> M \<and> row_max_uses row = M" if "pg_rows P (pu_db s) sid = Some row" for sid row
    using that assms(1) by (simp add: pg_inv_def)
  have M: "1 \<le> M" using assms(1) by (simp add: pg_inv_def)
  note defs = pg_upserted_def upserted_def conflict_where_def conflict_set_def insert_row_def pg_uses_def
  show "0 \<le> u \<and> u \<le> M" "fst (pg_upserted P now inp s) \<noteq> None \<longleftrightarrow> u < M"
    using rows [of "ci_ID inp"] M assms(2,3) by (auto simp: defs split: option.split)
  show "(case snd (pg_upserted P now inp s) sid of None \<Rightarrow> 0 | Some row \<Rightarrow> row_uses row) =
      (if sid = ci_ID inp \<and> u < M then u + 1 else pg_uses P s sid)"
    using rows [of "ci_ID inp"] M assms(2,3) by (auto simp: defs split: option.split)
  show "0 \<le> row_uses row \<and> row_uses row \<le> M \<and> row_max_uses row = M" if "snd (pg_upserted P now inp s) sid = Some row"
    using that rows [of "ci_ID inp"] rows [of sid] M assms(2,3) by (auto simp: defs split: option.splits if_splits)
qed

lemma pg_keeps_contract:
  assumes "upsert_law P"
  shows "usage_store (pg_Consume P) (pg_uses P) (pg_inv P) (\<lambda>M wall inp. ci_MaxUses inp = M)"
proof
  fix M s sid and i :: ConsumeInput and e :: int and r
  assume inv: "pg_inv P M s"
  show "pg_uses P s sid \<le> M" using inv by (auto simp: pg_inv_def pg_uses_def split: option.split)
  show "pg_uses P (snd (pg_Consume P e i s)) sid = pg_uses P s sid" if "sid \<noteq> ci_ID i"
    using assms
    by (cases rule: pg_Consume_cases [where wall = e and inp = i and s = s])
      (use that in \<open>auto simp: pg_uses_def pg_upserted_def upserted_def split: option.split\<close>)
  assume M: "ci_MaxUses i = M"
  note eff = pg_upserted_effect [OF inv M refl]
  show "pg_inv P M (snd (pg_Consume P e i s))"
    using assms
  proof (cases rule: pg_Consume_cases [where wall = e and inp = i and s = s])
    case (ran now)
    then show ?thesis using inv eff(4) by (simp add: pg_inv_def)
  qed (use inv in \<open>simp add: pg_inv_def\<close>)
  show "pg_uses P s sid \<le> pg_uses P (snd (pg_Consume P e i s)) sid"
    using assms
  proof (cases rule: pg_Consume_cases [where wall = e and inp = i and s = s])
    case (ran now)
    then have "pg_uses P (snd (pg_Consume P e i s)) sid =
        (if sid = ci_ID i \<and> pg_uses P s (ci_ID i) < M then pg_uses P s (ci_ID i) + 1 else pg_uses P s sid)"
      unfolding pg_uses_def [of P "snd (pg_Consume P e i s)"] by (simp add: eff(3))
    then show ?thesis by simp
  qed (simp add: pg_uses_def)
  show "pg_uses P (snd (pg_Consume P e i s)) (ci_ID i) = pg_uses P s (ci_ID i) + 1"
    if "fst (pg_Consume P e i s) = Inr r" "cr_Allowed r" "\<not> ci_SkipConsume i"
    using assms
  proof (cases rule: pg_Consume_cases [where wall = e and inp = i and s = s])
    case (ran now)
    then have "pg_uses P s (ci_ID i) < M" using that(1,2) eff(2) by blast
    with ran show ?thesis unfolding pg_uses_def [of P "snd (pg_Consume P e i s)"] by (simp add: eff(3))
  qed (use that in blast)
qed

section \<open>Properties\<close>

text \<open>
  C12: The Postgres store charges at most \<^verbatim>\<open>max_uses\<close>. For a database that executes the upsert as
  documented, in any sequence of calls, with failures and lost replies anywhere, the uses charged
  to an id and the uses already on record together stay within the limit.
\<close>

theorem postgres_charges_at_most_max_uses:
  assumes "upsert_law P" and "pg_inv P M s" and "\<forall>(wall, inp) \<in> set xs. ci_MaxUses inp = M"
  shows "int (usage_store.admissions (pg_Consume P) sid xs s) \<le> M - pg_uses P s sid"
  using usage_store.admissions_bounded [OF pg_keeps_contract [OF assms(1)] assms(2,3)] .

definition pg_usage_ops :: "'d PgPool \<Rightarrow> 'd PgUsageStore UsageOps" where
  "pg_usage_ops P = \<lparr>uo_Consume = pg_Consume P, uo_Get = pg_Get P\<rparr>"

text \<open>Like the Redis store, this store does not record the address of a first use.\<close>

lemma postgres_binding_not_persisted:
  assumes "sv_usageStore sv = Some (pg_usage_ops P)"
    and "pg_Get P (ComputeSignID L (Some p) sign mode) s = Inl ErrNotFound"
  shows "bindEmptyIPFirstUse L ck sv p req tok sign mode s = (None, p\<lparr>tp_IP := ar_RealIP req\<rparr>, s)"
proof -
  have "\<not> pu_closed s" using assms(2) by (auto simp: pg_Get_def)
  with assms show ?thesis
    by (simp add: bindEmptyIPFirstUse_def pg_usage_ops_def pg_Consume_def Let_def)
qed

definition demo_pg :: "(string, PgRow) gomap PgPool" where
  "demo_pg = \<lparr>pg_rows = map_of,
     pg_upsert = (\<lambda>sid row cond upd d. case map_of d sid of
        None \<Rightarrow> (Inr (Some row), (sid, row) # d)
      | Some old \<Rightarrow> if cond old then (Inr (Some (upd old)), AList.update sid (upd old) d) else (Inr None, d)),
     pg_select = (\<lambda>sid d. Inr (map_of d sid)),
     pg_delete = (\<lambda>c d. (Inr (int (length (filter (c \<circ> snd) d))), filter (Not \<circ> c \<circ> snd) d)),
     pg_count = (\<lambda>c d. Inr (int (length (filter (c \<circ> snd) d))))\<rparr>"

lemma demo_pg_law: "upsert_law demo_pg"
  by (auto simp: upsert_law_def upserted_def demo_pg_def update_conv' split: option.split)

theorem postgres_charges_at_most_max_uses_witness:
  "int (usage_store.admissions (pg_Consume demo_pg) ''a1''
     [(0, demo_consume), (0, demo_consume\<lparr>ci_ID := ''b2''\<rparr>), (0, demo_consume), (0, demo_consume)]
     (NewUsageStoreFromPool [])) \<le> 2"
proof -
  let ?xs = "[(0, demo_consume), (0, demo_consume\<lparr>ci_ID := ''b2''\<rparr>), (0, demo_consume), (0, demo_consume)]"
  have "pg_inv demo_pg 2 (NewUsageStoreFromPool [])" and u: "pg_uses demo_pg (NewUsageStoreFromPool []) ''a1'' = 0"
    by (simp_all add: pg_inv_def pg_uses_def demo_pg_def NewUsageStoreFromPool_def)
  moreover have "\<forall>(wall, inp) \<in> set ?xs. ci_MaxUses inp = 2" by (simp add: demo_consume_def)
  ultimately show ?thesis using postgres_charges_at_most_max_uses [OF demo_pg_law, of 2 _ ?xs "''a1''"] by fastforce
qed

end
