(* ===== verification/ConfigCtl.thy ===== *)
theory ConfigCtl
  imports ConfigLoad
begin

text \<open>
  The configuration workflow of the command-line tool (\<^verbatim>\<open>internal/configctl/manager.go\<close>): validation of a
  candidate, the difference between two configurations with its danger, plans, application and
  rollback. A manager is a store and the path it was opened with; the disk is threaded beside it.

  Theorems: an empty difference means that the two documents agree at every path; a plan's danger is
  that of its worst change, and a lowered difficulty is critical; a rollback puts the text of the old
  revision back; of two processes that opened the same revision only one can apply a change; a change
  that removes a whole section shows its secrets.
\<close>

section \<open>Differences\<close>

record DiffChange =
  dc_Path :: string
  dc_Kind :: string
  dc_Before :: yvalue
  dc_After :: yvalue
  dc_Sensitive :: bool
  dc_Danger :: string
  dc_RestartRequired :: bool

record Plan =
  pl_BaseRevision :: "64 word"
  pl_Changes :: "DiffChange list"
  pl_Danger :: string
  pl_Phrase :: string

definition ConfirmationRequired :: "Plan \<Rightarrow> bool" where
  "ConfirmationRequired p \<longleftrightarrow> pl_Phrase p \<noteq> []"

text \<open>An assignment of the loops that build a map; a repeated key keeps its place.\<close>

definition put :: "string \<Rightarrow> yvalue \<Rightarrow> (string \<times> yvalue) list \<Rightarrow> (string \<times> yvalue) list" where
  "put k v m = AList.update k v m"

fun normalizeYAML :: "yamllib \<Rightarrow> yvalue \<Rightarrow> yvalue"
  and normalize_list :: "yamllib \<Rightarrow> yvalue list \<Rightarrow> yvalue list"
  and normalize_map :: "yamllib \<Rightarrow> (string \<times> yvalue) list \<Rightarrow> (string \<times> yvalue) list"
  and normalize_any :: "yamllib \<Rightarrow> (yvalue \<times> yvalue) list \<Rightarrow> (string \<times> yvalue) list \<Rightarrow> (string \<times> yvalue) list" where
  "normalizeYAML Y (VMap m) = VMap (normalize_map Y m)"
| "normalizeYAML Y (VAnyMap m) = VMap (normalize_any Y m [])"
| "normalizeYAML Y (VList xs) = VList (normalize_list Y xs)"
| "normalizeYAML Y v = v"
| "normalize_list Y [] = []"
| "normalize_list Y (x # xs) = normalizeYAML Y x # normalize_list Y xs"
| "normalize_map Y [] = []"
| "normalize_map Y ((k, v) # m) = (k, normalizeYAML Y v) # normalize_map Y m"
| "normalize_any Y [] out = out"
| "normalize_any Y ((k, v) # m) out = normalize_any Y m (put (fmt_Sprint Y k) (normalizeYAML Y v) out)"

text \<open>Indexing a map with a missing key yields nil.\<close>

definition map_field :: "(string \<times> yvalue) list \<Rightarrow> string \<Rightarrow> yvalue" where
  "map_field m k = (case map_of m k of Some v \<Rightarrow> v | None \<Rightarrow> VNil)"

definition ordered_keys :: "(string \<times> yvalue) list \<Rightarrow> (string \<times> yvalue) list \<Rightarrow> string list" where
  "ordered_keys bm am = sort (remdups (map fst bm @ map fst am))"

definition leaf_change :: "string \<Rightarrow> yvalue \<Rightarrow> yvalue \<Rightarrow> DiffChange" where
  "leaf_change path before after =
     \<lparr>dc_Path = path, dc_Kind = (if after = VNil then ''removed'' else if before = VNil then ''added'' else ''changed''),
      dc_Before = before, dc_After = after, dc_Sensitive = False, dc_Danger = [], dc_RestartRequired = False\<rparr>"

lemma size_field: "size (map_field m k) < size (VMap m)"
proof (cases "map_of m k")
  case (Some v)
  then have "(k, v) \<in> set m" by (rule map_of_SomeD)
  then have "size v \<le> size_list (size_prod (\<lambda>x. 0) size) m" by (rule size_list_estimation') simp
  with Some show ?thesis by (simp add: map_field_def)
qed (simp add: map_field_def)

function (sequential) diffValue :: "string \<Rightarrow> yvalue \<Rightarrow> yvalue \<Rightarrow> DiffChange list" where
  "diffValue path (VMap bm) (VMap am) =
     (if equalValue (VMap bm) (VMap am) then []
      else concat (map (\<lambda>key. diffValue (joinPath path key) (map_field bm key) (map_field am key)) (ordered_keys bm am)))"
| "diffValue path before after = (if equalValue before after then [] else [leaf_change path before after])"
  by pat_completeness auto
termination
  by (relation "measure (\<lambda>(p, b, a). size b + size a)") (auto simp: add_strict_mono [OF size_field size_field, simplified])

subsection \<open>Danger\<close>

fun bits_over :: "nat \<Rightarrow> nat" where
  "bits_over n = (if n < 2 ^ 53 then 0 else Suc (bits_over (n div 2)))"

declare bits_over.simps [simp del]

text \<open>The conversion to \<^verbatim>\<open>float64\<close>: 53 bits, rounded to nearest, ties to even.\<close>

definition f64_of_int :: "int \<Rightarrow> f64" where
  "f64_of_int x =
     (let n = nat (abs x); k = bits_over n; q = n div 2 ^ k; r = n mod 2 ^ k;
          q' = (if 2 * r > 2 ^ k \<or> 2 * r = 2 ^ k \<and> odd q then q + 1 else q)
      in Finite (sgn x * int q') (int k))"

fun numericValue :: "yvalue \<Rightarrow> f64 option" where
  "numericValue (VInt v) = Some (f64_of_int v)"
| "numericValue (VInt64 v) = Some (f64_of_int v)"
| "numericValue (VUint64 v) = Some (f64_of_int v)"
| "numericValue (VFloat v) = Some v"
| "numericValue v = None"

definition difficultyReduced :: "string \<Rightarrow> yvalue \<Rightarrow> yvalue \<Rightarrow> bool" where
  "difficultyReduced path before after \<longleftrightarrow>
     Contains path ''difficulty'' \<and>
     (case (numericValue before, numericValue after) of (Some old, Some new) \<Rightarrow> f64_less new old | _ \<Rightarrow> False)"

definition normalDanger :: string where "normalDanger = ''normal''"

definition classifyChange :: "golib \<Rightarrow> string \<Rightarrow> yvalue \<Rightarrow> yvalue \<Rightarrow> string \<times> bool" where
  "classifyChange L path before after =
     (let lower = ToLower L path;
          restart = (HasPrefix lower ''server.'' \<or> HasPrefix lower ''storage.'' \<or> HasPrefix lower ''cleanup.'' \<or>
            lower = ''logging.level'' \<or> lower = ''logging.format'' \<or>
            HasPrefix lower ''risk_control.pending.max_per_ip'' \<or> HasPrefix lower ''risk_control.pending.block_ttl'');
          danger1 = (if Contains lower ''bypass_all'' \<or> Contains lower ''enabled'' \<or> Contains lower ''excluded'' \<or>
              HasPrefix lower ''protection.'' \<or> isSensitivePath L path
            then ''dangerous'' else normalDanger);
          danger2 = (if Contains lower ''bypass_all'' \<or> HasSuffix lower ''pow.enabled'' \<or> HasSuffix lower ''risk_control.enabled'' \<or>
              Contains lower ''allow_empty_salt'' \<or> difficultyReduced lower before after
            then ''critical'' else danger1)
      in (danger2, restart))"

definition dangerRank :: "string \<Rightarrow> nat" where
  "dangerRank v = (if v = ''critical'' then 3 else if v = ''dangerous'' then 2 else 1)"

text \<open>The body of the loop of \<^verbatim>\<open>Diff\<close> on one change.\<close>

definition classify_one :: "golib \<Rightarrow> DiffChange \<Rightarrow> DiffChange" where
  "classify_one L c =
     (let sensitive = isSensitivePath L (dc_Path c);
          before = (if sensitive then VNil else dc_Before c); after = (if sensitive then VNil else dc_After c)
      in c\<lparr>dc_Sensitive := sensitive, dc_Before := before, dc_After := after,
           dc_Danger := fst (classifyChange L (dc_Path c) before after), dc_RestartRequired := True\<rparr>)"

primrec worst_danger :: "DiffChange list \<Rightarrow> string \<Rightarrow> string" where
  "worst_danger [] danger = danger"
| "worst_danger (c # cs) danger = worst_danger cs (if dangerRank (dc_Danger c) > dangerRank danger then dc_Danger c else danger)"

definition parse_value :: "yamllib \<Rightarrow> string \<Rightarrow> yvalue" where
  "parse_value Y raw = normalizeYAML Y (if raw = [] then VNil else yaml_Value Y raw)"

definition Diff :: "golib \<Rightarrow> yamllib \<Rightarrow> string \<Rightarrow> string \<Rightarrow> DiffChange list \<times> string \<times> bool" where
  "Diff L Y before after =
     (let changes = map (classify_one L) (sort_key dc_Path (diffValue [] (parse_value Y before) (parse_value Y after)))
      in (changes, worst_danger changes normalDanger, changes \<noteq> []))"

section \<open>The manager\<close>

record Manager =
  mg_store :: Store
  mg_path :: string

datatype ctl_error = StoreError cstore_error | LoadError load_error | MergeError merge_error | CannotRead | BadSize | ReasonRequired
  | ReasonTooLong | ReasonControl | NoLongerValidates "64 word"

definition maxCandidateBytes :: nat where "maxCandidateBytes = 131072"

definition Open :: "golib \<Rightarrow> HostOS \<Rightarrow> string \<Rightarrow> files \<Rightarrow> (ctl_error + Manager) \<times> files" where
  "Open L os path fs =
     (case (case os_Abs os path of None \<Rightarrow> None | Some full \<Rightarrow> os_ReadFile os full fs) of
        None \<Rightarrow> (Inl CannotRead, fs)
      | Some raw \<Rightarrow>
          (case New_store L os path raw True fs of
             (Inl e, fs') \<Rightarrow> (Inl (StoreError e), fs')
           | (Inr store, fs') \<Rightarrow> (Inr \<lparr>mg_store = store, mg_path = path\<rparr>, fs')))"

definition mgr_Path :: "Manager \<Rightarrow> string" where "mgr_Path m = mg_path m"

definition mgr_Status :: "Manager \<Rightarrow> Status" where "mgr_Status m = store_Status (mg_store m)"

definition mgr_Current :: "Manager \<Rightarrow> 64 word \<times> string" where "mgr_Current m = Current (mg_store m)"

definition Redacted :: "golib \<Rightarrow> yamllib \<Rightarrow> Manager \<Rightarrow> 64 word \<times> string" where
  "Redacted L Y m = (let (r, raw) = Current (mg_store m) in (r, RedactYAML L Y raw))"

definition ValidateYAML :: "golib \<Rightarrow> yamllib \<Rightarrow> 't viper \<Rightarrow> string \<Rightarrow> ctl_error + problem list" where
  "ValidateYAML L Y V raw =
     (if raw = [] \<or> length raw > maxCandidateBytes then Inl BadSize
      else case LoadRawFromBytes Y V raw of
        Inl e \<Rightarrow> Inl (LoadError e)
      | Inr cfg \<Rightarrow>
          (case Validate L (applyDefaults cfg) of
             None \<Rightarrow> Inl (LoadError SearchExhausted)
           | Some problems \<Rightarrow> Inr problems))"

definition MergeSecrets :: "golib \<Rightarrow> yamllib \<Rightarrow> string \<Rightarrow> Manager \<Rightarrow> ctl_error + string" where
  "MergeSecrets L Y edited m =
     (case mergeSecretPlaceholders L Y edited (snd (Current (mg_store m))) of Inl e \<Rightarrow> Inl (MergeError e) | Inr out \<Rightarrow> Inr out)"

definition confirmToken :: "HostOS \<Rightarrow> nat \<Rightarrow> string" where
  "confirmToken os n =
     (case os_Entropy os of
        None \<Rightarrow> FormatInt (os_Now os 0)
      | Some b \<Rightarrow> map (\<lambda>v. hex_char (unat v mod 16)) (take n b))"

definition Plan_for :: "golib \<Rightarrow> HostOS \<Rightarrow> yamllib \<Rightarrow> string \<Rightarrow> string \<Rightarrow> Manager \<Rightarrow> Plan" where
  "Plan_for L os Y raw action m =
     (let (baseRevision, baseRaw) = Current (mg_store m); (changes, danger, restart) = Diff L Y baseRaw raw in
      if changes = [] then \<lparr>pl_BaseRevision = baseRevision, pl_Changes = changes, pl_Danger = normalDanger, pl_Phrase = []\<rparr>
      else \<lparr>pl_BaseRevision = baseRevision, pl_Changes = changes, pl_Danger = danger,
        pl_Phrase = (if danger \<noteq> normalDanger \<or> action = ''rollback'' then ToUpper L action @ '' '' @ confirmToken os 8 else [])\<rparr>)"

definition mgr_HistoryGet :: "HostOS \<Rightarrow> 64 word \<Rightarrow> Manager \<Rightarrow> files \<Rightarrow> cstore_error + RevisionMeta \<times> string" where
  "mgr_HistoryGet os revision m fs = HistoryGet os revision (mg_store m) fs"

definition mgr_History :: "HostOS \<Rightarrow> int \<Rightarrow> Manager \<Rightarrow> files \<Rightarrow> cstore_error + RevisionMeta list" where
  "mgr_History os limit m fs = History os limit (mg_store m) fs"

definition PlanRollback ::
  "golib \<Rightarrow> HostOS \<Rightarrow> yamllib \<Rightarrow> 't viper \<Rightarrow> 64 word \<Rightarrow> Manager \<Rightarrow> files \<Rightarrow> ctl_error + Plan \<times> RevisionMeta \<times> string" where
  "PlanRollback L os Y V revision m fs =
     (case HistoryGet os revision (mg_store m) fs of
        Inl e \<Rightarrow> Inl (StoreError e)
      | Inr (meta, raw) \<Rightarrow>
          if ValidateYAML L Y V raw = Inr [] then Inr (Plan_for L os Y raw ''rollback'' m, meta, raw)
          else Inl (NoLongerValidates revision))"

definition validateReason :: "golib \<Rightarrow> string \<Rightarrow> bool \<Rightarrow> ctl_error + string" where
  "validateReason L v required =
     (let reason = TrimSpace L v in
      if required \<and> reason = [] then Inl ReasonRequired
      else if length reason > 256 then Inl ReasonTooLong
      else if list_ex (\<lambda>r. r < 32 \<or> r = 127) (runes reason) then Inl ReasonControl
      else Inr reason)"

definition mgr_request :: "string \<Rightarrow> Plan \<Rightarrow> string \<Rightarrow> string \<Rightarrow> string \<Rightarrow> 64 word \<Rightarrow> ApplyRequest" where
  "mgr_request raw plan reason actor action rollbackTarget =
     \<lparr>aq_Raw = raw, aq_ExpectedRevision = pl_BaseRevision plan, aq_Actor = actor, aq_Reason = reason,
      aq_Changed = int (length (pl_Changes plan)), aq_Danger = pl_Danger plan, aq_RestartRequired = True,
      aq_Action = action, aq_RollbackTarget = rollbackTarget\<rparr>"

definition mgr_Apply :: "golib \<Rightarrow> HostOS \<Rightarrow> string \<Rightarrow> Plan \<Rightarrow> string \<Rightarrow> string \<Rightarrow> string \<Rightarrow> 64 word \<Rightarrow> Manager \<Rightarrow> files \<Rightarrow>
    (ctl_error + ApplyResult) \<times> Manager \<times> files" where
  "mgr_Apply L os raw plan reason0 actor action rollbackTarget m fs =
     (case validateReason L reason0 (pl_Danger plan \<noteq> normalDanger \<or> action = ''rollback'') of
        Inl e \<Rightarrow> (Inl e, m, fs)
      | Inr reason \<Rightarrow>
          (case Apply os (mgr_request raw plan reason actor action rollbackTarget) (mg_store m) fs of
             (Inl e, s, fs') \<Rightarrow> (Inl (StoreError e), m\<lparr>mg_store := s\<rparr>, fs')
           | (Inr res, s, fs') \<Rightarrow> (Inr res, m\<lparr>mg_store := s\<rparr>, fs')))"
section \<open>What a difference means\<close>

fun wf_value :: "yvalue \<Rightarrow> bool" where
  "wf_value (VMap m) \<longleftrightarrow> distinct (map fst m) \<and> list_all (\<lambda>(k, v). wf_value v) m"
| "wf_value v \<longleftrightarrow> True"

text \<open>The value at a path of keys; nil where there is none.\<close>

fun at :: "string list \<Rightarrow> yvalue \<Rightarrow> yvalue" where
  "at [] v = v"
| "at (k # ks) (VMap m) = at ks (map_field m k)"
| "at (k # ks) v = VNil"

definition is_map :: "yvalue \<Rightarrow> bool" where
  "is_map v \<longleftrightarrow> (case v of VMap m \<Rightarrow> True | _ \<Rightarrow> False)"

text \<open>Two values agree when both are maps, whose entries are compared on their own, or are equal.\<close>

definition agree :: "yvalue \<Rightarrow> yvalue \<Rightarrow> bool" where
  "agree x y \<longleftrightarrow> is_map x \<and> is_map y \<or> equalValue x y"

lemma equalValue_map_iff: "is_map x \<noteq> is_map y \<Longrightarrow> \<not> equalValue x y"
  by (cases x; cases y) (simp_all add: is_map_def)

lemma wf_field: "wf_value (VMap m) \<Longrightarrow> wf_value (map_field m k)"
  by (cases "map_of m k") (auto simp: map_field_def list_all_iff dest!: map_of_SomeD)

lemma equal_maps_fields:
  assumes eq: "equalValue (VMap bm) (VMap am)" and wf: "wf_value (VMap bm)" "wf_value (VMap am)"
  shows "equalValue (map_field bm k) (map_field am k)"
proof (cases "map_of bm k")
  case (Some v)
  then have "(k, v) \<in> set bm" by (rule map_of_SomeD)
  with eq Some show ?thesis by (auto simp: map_field_def list_all_iff split: option.splits)
next
  case None
  have sub: "set (map fst bm) \<subseteq> set (map fst am)"
  proof
    fix x
    assume "x \<in> set (map fst bm)"
    then obtain v where "(x, v) \<in> set bm" by auto
    with eq have "map_of am x \<noteq> None" by (auto simp: list_all_iff split: option.splits)
    then show "x \<in> set (map fst am)" by (auto simp: map_of_eq_None_iff)
  qed
  moreover have "card (set (map fst bm)) = card (set (map fst am))"
    using eq wf distinct_card [of "map fst bm"] distinct_card [of "map fst am"] by simp
  ultimately have "set (map fst bm) = set (map fst am)" by (simp add: card_subset_eq)
  with None have "map_of am k = None" by (simp add: map_of_eq_None_iff)
  with None show ?thesis by (simp add: map_field_def)
qed

lemma equal_agrees: "equalValue b a \<Longrightarrow> wf_value b \<Longrightarrow> wf_value a \<Longrightarrow> equalValue (at ks b) (at ks a)"
proof (induction ks b arbitrary: a rule: at.induct)
  case (2 k ks m)
  then obtain am where "a = VMap am" by (cases a) auto
  with 2 equal_maps_fields wf_field show ?case by simp
next
  case (1 v)
  then show ?case by simp
qed (auto elim!: equalValue.elims)

lemma diffValue_map:
  "\<not> equalValue (VMap bm) (VMap am) \<Longrightarrow> diffValue p (VMap bm) (VMap am) =
     concat (map (\<lambda>k. diffValue (joinPath p k) (map_field bm k) (map_field am k)) (ordered_keys bm am))"
  by (simp only: diffValue.simps(1) if_False)

lemma diffValue_leaf:
  "\<not> (is_map b \<and> is_map a) \<Longrightarrow> diffValue p b a = (if equalValue b a then [] else [leaf_change p b a])"
  by (cases b; cases a) (simp_all add: is_map_def)

lemma diffValue_equal: "equalValue b a \<Longrightarrow> diffValue p b a = []"
  by (cases "is_map b \<and> is_map a") (auto simp: diffValue_leaf is_map_def split: yvalue.splits)

lemma ordered_keys_iff: "k \<in> set (ordered_keys bm am) \<longleftrightarrow> map_of bm k \<noteq> None \<or> map_of am k \<noteq> None"
  by (auto simp: ordered_keys_def map_of_eq_None_iff)

lemma is_mapE: "is_map v \<Longrightarrow> \<exists>m. v = VMap m"
  by (cases v) (simp_all add: is_map_def)

lemma agree_below:
  "(\<forall>ks. agree (at ks (VMap bm)) (at ks (VMap am))) \<longleftrightarrow> (\<forall>k ks. agree (at ks (map_field bm k)) (at ks (map_field am k)))"
proof
  assume "\<forall>k ks. agree (at ks (map_field bm k)) (at ks (map_field am k))"
  then have "agree (at ks (VMap bm)) (at ks (VMap am))" for ks
    by (cases ks) (simp_all add: agree_def is_map_def)
  then show "\<forall>ks. agree (at ks (VMap bm)) (at ks (VMap am))" ..
next
  assume all: "\<forall>ks. agree (at ks (VMap bm)) (at ks (VMap am))"
  have "agree (at ks (map_field bm k)) (at ks (map_field am k))" for k ks
    using all [rule_format, of "k # ks"] by simp
  then show "\<forall>k ks. agree (at ks (map_field bm k)) (at ks (map_field am k))" by blast
qed

lemma diffValue_exact:
  "wf_value b \<Longrightarrow> wf_value a \<Longrightarrow> diffValue p b a = [] \<longleftrightarrow> (\<forall>ks. agree (at ks b) (at ks a))"
proof (induction "size b + size a" arbitrary: p b a rule: less_induct)
  case less
  consider (eq) "equalValue b a" | (maps) "\<not> equalValue b a" "is_map b \<and> is_map a" | (leaf) "\<not> equalValue b a" "\<not> (is_map b \<and> is_map a)"
    by blast
  then show ?case
  proof cases
    case eq
    with equal_agrees [OF eq less.prems] show ?thesis by (simp add: diffValue_equal agree_def)
  next
    case leaf
    then have "\<not> agree (at [] b) (at [] a)" by (simp add: agree_def)
    then have "\<not> (\<forall>ks. agree (at ks b) (at ks a))" by blast
    moreover have "diffValue p b a = [leaf_change p b a]" using leaf diffValue_leaf [of b a p] by simp
    ultimately show ?thesis by simp
  next
    case maps
    then obtain bm am where m: "b = VMap bm" "a = VMap am" using is_mapE by blast
    have sub: "diffValue (joinPath p k) (map_field bm k) (map_field am k) = [] \<longleftrightarrow> (\<forall>ks. agree (at ks (map_field bm k)) (at ks (map_field am k)))" for k
      using less.hyps [of "map_field bm k" "map_field am k"] less.prems m wf_field add_strict_mono [OF size_field size_field] by blast
    have nil: "agree (at ks (map_field bm k)) (at ks (map_field am k))" if "k \<notin> set (ordered_keys bm am)" for k ks
      using that by (cases ks) (simp_all add: ordered_keys_iff map_field_def agree_def)
    have "diffValue p b a = [] \<longleftrightarrow> (\<forall>k \<in> set (ordered_keys bm am). \<forall>ks. agree (at ks (map_field bm k)) (at ks (map_field am k)))"
      unfolding m diffValue_map [OF maps(1) [unfolded m]] by (simp add: sub del: diffValue.simps)
    with nil show ?thesis unfolding m agree_below by blast
  qed
qed

text \<open>A value that differs is reported under its path.\<close>

lemma diffValue_reports:
  "wf_value b \<Longrightarrow> wf_value a \<Longrightarrow> \<not> agree (at ks b) (at ks a) \<Longrightarrow> at ks b \<noteq> VNil \<Longrightarrow> at ks a \<noteq> VNil \<Longrightarrow>
    leaf_change (foldl joinPath p ks) (at ks b) (at ks a) \<in> set (diffValue p b a)"
proof (induction ks arbitrary: p b a)
  case Nil
  then have "\<not> (is_map b \<and> is_map a)" and "\<not> equalValue b a" by (simp_all add: agree_def)
  then show ?case by (simp add: diffValue_leaf)
next
  case (Cons k ks)
  obtain bm am where m: "b = VMap bm" "a = VMap am"
    using Cons.prems(4,5) by (cases b; cases a) simp_all
  have ne: "\<not> equalValue b a"
    using equal_agrees [of b a "k # ks"] Cons.prems(1,2,3) by (auto simp: agree_def)
  have "leaf_change (foldl joinPath (joinPath p k) ks) (at ks (map_field bm k)) (at ks (map_field am k))
      \<in> set (diffValue (joinPath p k) (map_field bm k) (map_field am k))"
    using Cons m wf_field by simp
  moreover have "k \<in> set (ordered_keys bm am)"
  proof (rule ccontr)
    assume "k \<notin> set (ordered_keys bm am)"
    then have "map_field bm k = VNil" by (simp add: ordered_keys_iff map_field_def)
    with Cons.prems(4) m show False by (cases ks) simp_all
  qed
  ultimately have "\<exists>k' \<in> set (ordered_keys bm am). leaf_change (foldl joinPath (joinPath p k) ks) (at ks (map_field bm k)) (at ks (map_field am k))
      \<in> set (diffValue (joinPath p k') (map_field bm k') (map_field am k'))" by blast
  moreover have "set (diffValue p b a) = (\<Union>k' \<in> set (ordered_keys bm am). set (diffValue (joinPath p k') (map_field bm k') (map_field am k')))"
    using diffValue_map [of bm am p] ne unfolding m by (simp del: diffValue.simps equalValue.simps)
  ultimately show ?case unfolding m by simp
qed

section \<open>Danger and confirmation\<close>

lemma f64_of_int_small: "abs x < 2 ^ 53 \<Longrightarrow> f64_of_int x = Finite x 0"
proof -
  assume "abs x < 2 ^ 53"
  then have "nat (abs x) < 2 ^ 53" by simp
  then have "bits_over (nat (abs x)) = 0" using bits_over.simps [of "nat (abs x)"] by simp
  then show ?thesis by (simp add: f64_of_int_def Let_def sgn_mult_abs)
qed

lemma dangerRank_top: "3 \<le> dangerRank d \<Longrightarrow> d = ''critical''"
  by (simp add: dangerRank_def split: if_splits)

lemma worst_danger_ge: "dangerRank d \<le> dangerRank (worst_danger cs d)"
  by (induction cs arbitrary: d) (auto intro: order_trans less_imp_le)

lemma worst_danger_bound: "c \<in> set cs \<Longrightarrow> dangerRank (dc_Danger c) \<le> dangerRank (worst_danger cs d)"
proof (induction cs arbitrary: d)
  case (Cons x cs)
  have "dangerRank (dc_Danger x) \<le> dangerRank (worst_danger (x # cs) d)"
    using worst_danger_ge [of "if dangerRank (dc_Danger x) > dangerRank d then dc_Danger x else d" cs] by (auto split: if_splits)
  with Cons show ?case by auto
qed simp

lemma worst_danger_cases: "worst_danger cs d = d \<or> (\<exists>c \<in> set cs. worst_danger cs d = dc_Danger c)"
proof (induction cs arbitrary: d)
  case (Cons c cs)
  from Cons [of "dc_Danger c"] Cons [of d] show ?case by auto
qed simp

lemma Diff_changes:
  "fst (Diff L Y before after) = map (classify_one L) (sort_key dc_Path (diffValue [] (parse_value Y before) (parse_value Y after)))"
  "fst (snd (Diff L Y before after)) = worst_danger (fst (Diff L Y before after)) normalDanger"
  by (simp_all add: Diff_def Let_def del: diffValue.simps)

lemma Plan_for_fields:
  "pl_BaseRevision (Plan_for L os Y raw action m) = st_revision (mg_store m)"
  "pl_Changes (Plan_for L os Y raw action m) = fst (Diff L Y (st_raw (mg_store m)) raw)"
  "pl_Danger (Plan_for L os Y raw action m) = fst (snd (Diff L Y (st_raw (mg_store m)) raw))"
  "ConfirmationRequired (Plan_for L os Y raw action m) \<longleftrightarrow>
     pl_Changes (Plan_for L os Y raw action m) \<noteq> [] \<and> (pl_Danger (Plan_for L os Y raw action m) \<noteq> normalDanger \<or> action = ''rollback'')"
  by (auto simp: Plan_for_def Current_def ConfirmationRequired_def Diff_def Let_def split: prod.split)

lemma sensitive_no_difficulty: "isSensitivePath L path \<Longrightarrow> \<not> Contains (ToLower L path) ''difficulty''"
proof -
  have "list_all (\<lambda>p. \<not> Contains p ''difficulty'') sensitiveConfigPaths" by code_simp
  moreover assume "isSensitivePath L path"
  ultimately show ?thesis by (auto simp: isSensitivePath_def list_all_iff)
qed

text \<open>
  C35: A plan without changes means the same configuration. For documents whose maps have distinct
  keys, the plan lists no change if and only if the active and the candidate document agree at
  every path.
\<close>

theorem empty_plan_means_agreement:
  assumes "wf_value (parse_value Y (st_raw (mg_store m)))" and "wf_value (parse_value Y raw)"
  shows "pl_Changes (Plan_for L os Y raw action m) = [] \<longleftrightarrow>
    (\<forall>ks. agree (at ks (parse_value Y (st_raw (mg_store m)))) (at ks (parse_value Y raw)))"
proof -
  have "sort_key dc_Path cs = [] \<longleftrightarrow> cs = []" for cs :: "DiffChange list"
    by (metis length_0_conv length_sort)
  then show ?thesis
    by (simp add: Plan_for_fields Diff_changes diffValue_exact [OF assms] del: diffValue.simps)
qed

text \<open>
  C36: Lowering a difficulty is never a routine change. When an integer at a path whose name contains
  \<^verbatim>\<open>difficulty\<close> becomes smaller, the plan is critical, it asks for the confirmation phrase, and it
  cannot be applied with a blank reason. The bound is that of exact conversion to floating point.
\<close>

theorem lowered_difficulty_is_critical:
  assumes "wf_value (parse_value Y (st_raw (mg_store m)))" and "wf_value (parse_value Y raw)"
    and "at ks (parse_value Y (st_raw (mg_store m))) = VInt x" and "at ks (parse_value Y raw) = VInt y"
    and "y < x" and "abs x < 2 ^ 53" and "abs y < 2 ^ 53"
    and "Contains (ToLower L (foldl joinPath [] ks)) ''difficulty''" and "TrimSpace L reason = []"
  shows "pl_Danger (Plan_for L os Y raw action m) = ''critical'' \<and> ConfirmationRequired (Plan_for L os Y raw action m) \<and>
    mgr_Apply L os raw (Plan_for L os Y raw action m) reason actor action target m fs = (Inl ReasonRequired, m, fs)"
proof -
  let ?path = "foldl joinPath [] ks" and ?D = "Diff L Y (st_raw (mg_store m)) raw"
  let ?c = "leaf_change ?path (VInt x) (VInt y)"
  have "\<not> agree (VInt x) (VInt y)" using assms(5) by (simp add: agree_def is_map_def)
  then have "?c \<in> set (diffValue [] (parse_value Y (st_raw (mg_store m))) (parse_value Y raw))"
    using diffValue_reports [OF assms(1,2), of ks "[]"] assms(3,4) by simp
  then have mem: "classify_one L ?c \<in> set (fst ?D)" by (simp add: Diff_changes del: diffValue.simps)
  have "difficultyReduced (ToLower L ?path) (VInt x) (VInt y)"
    using assms(5-8) by (simp add: difficultyReduced_def f64_of_int_small f64_less_def)
  moreover have "\<not> isSensitivePath L ?path" using sensitive_no_difficulty assms(8) by blast
  ultimately have "dc_Danger (classify_one L ?c) = ''critical''"
    by (simp add: classify_one_def classifyChange_def leaf_change_def Let_def)
  then have crit: "fst (snd ?D) = ''critical''"
    using worst_danger_bound [OF mem, of normalDanger] by (auto simp: Diff_changes(2) dangerRank_def intro!: dangerRank_top)
  moreover have "fst ?D \<noteq> []" using mem by auto
  ultimately have "pl_Danger (Plan_for L os Y raw action m) = ''critical''" "ConfirmationRequired (Plan_for L os Y raw action m)"
    by (simp_all add: Plan_for_fields normalDanger_def)
  then show ?thesis by (simp add: mgr_Apply_def validateReason_def assms(9) normalDanger_def Let_def)
qed

text \<open>
  C37: A rollback puts the old text back. When the plan for a revision is applied, the configuration
  file holds the text that the history has for it, the history records that text once more under
  the next number with the revision as its target, and the old revision is still there.
\<close>

theorem rollback_restores:
  assumes "session L U (mg_store m) fs" and "host_law U os fs" and "st_revision (mg_store m) < - 1"
    and "PlanRollback L os Y V target m fs = Inr (plan, meta, raw)"
    and "mgr_Apply L os raw plan reason actor ''rollback'' target m fs = (Inr res, m', fs')"
  shows "HistoryGet os target (mg_store m) fs = Inr (meta, raw) \<and> map_of fs' (st_path (mg_store m)) = Some raw \<and>
    rm_RollbackTarget (al_Meta res) = target \<and>
    HistoryGet os (st_revision (mg_store m) + 1) (mg_store m') fs' = Inr (al_Meta res, raw) \<and>
    HistoryGet os target (mg_store m') fs' = Inr (meta, raw)"
proof -
  let ?s = "mg_store m"
  have old: "HistoryGet os target ?s fs = Inr (meta, raw)"
    using assms(4) by (auto simp: PlanRollback_def split: sum.splits if_splits)
  obtain r s' where a: "Apply os (mgr_request raw plan r actor ''rollback'' target) ?s fs = (Inr res, s', fs')" and m': "mg_store m' = s'"
    using assms(5) by (auto simp: mgr_Apply_def split: sum.splits prod.splits)
  note out = apply_outcome [OF assms(1-3) a]
  have "revision_free (st_history ?s) (st_revision ?s + 1) fs"
    by (rule next_revision_free [OF session_history_ok [OF assms(1)] assms(3)])
  with old have "target \<noteq> st_revision ?s + 1"
    by (auto simp: HistoryGet_def revision_free_def split: if_splits)
  with out old m' show ?thesis by (simp add: mgr_request_def apply_meta_def)
qed

text \<open>
  C38: No update is lost between processes. When one process has changed the configuration file,
  another that had opened it in the same state is refused whatever it applies, and writes nothing.
\<close>

theorem second_process_is_refused:
  assumes "session L U (mg_store m) fs" and "host_law U os fs" and "st_revision (mg_store m) < - 1"
    and "mgr_Apply L os raw plan reason actor action target m fs = (Inr res, m', fs')" and "raw \<noteq> st_raw (mg_store m)"
    and "mg_store other = mg_store m"
  shows "\<exists>e. mgr_Apply L os2 raw2 plan2 reason2 actor2 action2 target2 other fs' = (Inl e, other, fs')"
proof -
  let ?s = "mg_store m"
  obtain r s' where a: "Apply os (mgr_request raw plan r actor action target) ?s fs = (Inr res, s', fs')"
    using assms(4) by (auto simp: mgr_Apply_def split: sum.splits prod.splits)
  have "map_of fs' (st_path ?s) = Some raw"
    using apply_outcome [OF assms(1-3) a] by (simp add: mgr_request_def)
  then have "\<exists>e. Apply os2 req ?s fs' = (Inl e, ?s, fs')" for req
    using assms(5) by (auto simp: Apply_def checkExternalLocked_def os_ReadFile_def)
  then have ref: "\<exists>e. Apply os2 req (mg_store other) fs' = (Inl e, mg_store other, fs')" for req
    using assms(6) by simp
  show ?thesis
  proof (cases "validateReason L reason2 (pl_Danger plan2 \<noteq> normalDanger \<or> action2 = ''rollback'')")
    case (Inr reason')
    from ref [of "mgr_request raw2 plan2 reason' actor2 action2 target2"] obtain e
      where "Apply os2 (mgr_request raw2 plan2 reason' actor2 action2 target2) (mg_store other) fs' = (Inl e, mg_store other, fs')" ..
    with Inr show ?thesis by (simp add: mgr_Apply_def)
  qed (simp add: mgr_Apply_def)
qed

section \<open>Concrete plans\<close>

lemma demo_now: "os_Now (demo_host m2) k = 7"
  by (simp add: demo_host_def)

definition pow_section :: "int \<Rightarrow> yvalue" where
  "pow_section d = VMap [(''pow'', VMap [(''min_difficulty'', VInt d), (''public_salt'', VString ''s1'')])]"

definition ctl_yaml :: yamllib where
  "ctl_yaml = demo_yaml\<lparr>yaml_Node := (\<lambda>s. Some (y_doc (y_map []))),
     yaml_Value := (\<lambda>s. if s = ''a'' then pow_section 20 else if s = ''b'' then pow_section 10 else VMap [])\<rparr>"

definition demo_manager :: Manager where
  "demo_manager = \<lparr>mg_store = opened_at ''/c'' ''a'', mg_path = ''/c''\<rparr>"

lemma demo_manager_raw: "st_raw (mg_store demo_manager) = ''a''"
  by (simp add: demo_manager_def)

lemma demo_values:
  "wf_value (parse_value ctl_yaml ''a'')" "wf_value (parse_value ctl_yaml ''b'')"
  "at [''pow'', ''min_difficulty''] (parse_value ctl_yaml ''a'') = VInt 20"
  "at [''pow'', ''min_difficulty''] (parse_value ctl_yaml ''b'') = VInt 10"
  by code_simp+

theorem empty_plan_means_agreement_witness:
  "pl_Changes (Plan_for demo_lib (demo_host zero_meta) ctl_yaml ''b'' ''apply'' demo_manager) \<noteq> []"
proof -
  have "\<not> agree (VInt 20) (VInt 10)" by code_simp
  then have "\<not> (\<forall>ks. agree (at ks (parse_value ctl_yaml ''a'')) (at ks (parse_value ctl_yaml ''b'')))"
    using demo_values(3,4) by metis
  with empty_plan_means_agreement [of ctl_yaml demo_manager "''b''"] demo_values(1,2) show ?thesis
    by (simp add: demo_manager_raw)
qed

theorem lowered_difficulty_is_critical_witness:
  "pl_Danger (Plan_for demo_lib (demo_host zero_meta) ctl_yaml ''b'' ''apply'' demo_manager) = ''critical'' \<and>
   mgr_Apply demo_lib (demo_host zero_meta) ''b'' (Plan_for demo_lib (demo_host zero_meta) ctl_yaml ''b'' ''apply'' demo_manager)
     '' '' ''ann'' ''apply'' 0 demo_manager [] = (Inl ReasonRequired, demo_manager, [])"
proof -
  have "Contains (ToLower demo_lib (foldl joinPath [] [''pow'', ''min_difficulty''])) ''difficulty''" by code_simp
  moreover have "TrimSpace demo_lib '' '' = []" by code_simp
  ultimately show ?thesis
    using lowered_difficulty_is_critical [where Y = ctl_yaml and m = demo_manager and raw = "''b''" and L = demo_lib and
        reason = "'' ''" and os = "demo_host zero_meta" and ks = "[''pow'', ''min_difficulty'']" and x = 20 and y = 10]
      demo_values by (simp add: demo_manager_raw)
qed

text \<open>A session of a manager: the store of the sample session, opened by the tool.\<close>

definition demo_viper :: "unit viper" where
  "demo_viper = \<lparr>vp_ReadInConfig = (\<lambda>p. Inr ()), vp_ReadConfig = (\<lambda>b. Inr ()), vp_UnmarshalExact = (\<lambda>t. Some demo_config), vp_Regular = (\<lambda>p. True)\<rparr>"

lemma demo_validates: "ValidateYAML demo_lib ctl_yaml demo_viper ''a'' = Inr []"
proof -
  have "validateYAMLNode (y_doc (y_map [])) = None" by code_simp
  moreover have "Validate demo_lib (applyDefaults demo_config) = Some []" by code_simp
  ultimately show ?thesis
    by (simp add: ValidateYAML_def LoadRawFromBytes_def ValidateYAMLStructure_def ctl_yaml_def demo_viper_def maxCandidateBytes_def)
qed

definition back_meta :: RevisionMeta where
  "back_meta = zero_meta\<lparr>rm_Revision := 2, rm_ParentRevision := 1, rm_Action := ''rollback'', rm_Reason := ''undo'',
     rm_RollbackTarget := 1, rm_Danger := ''normal'', rm_RestartRequired := True, rm_CreatedAt := 7\<rparr>"

theorem rollback_restores_witness:
  "case demo_open back_meta of (Inr s, fs) \<Rightarrow>
     (case PlanRollback demo_lib (demo_host back_meta) ctl_yaml demo_viper 1 \<lparr>mg_store = s, mg_path = ''/c''\<rparr> fs of
        Inr (plan, meta, raw) \<Rightarrow>
          (case mgr_Apply demo_lib (demo_host back_meta) raw plan ''undo'' [] ''rollback'' 1 \<lparr>mg_store = s, mg_path = ''/c''\<rparr> fs of
             (Inr res, m', fs') \<Rightarrow> map_of fs' ''/c'' = Some raw \<and> rm_RollbackTarget (al_Meta res) = 1
           | (Inl e, m', fs') \<Rightarrow> False)
      | Inl e \<Rightarrow> False)
   | (Inl e, fs) \<Rightarrow> False"
proof -
  let ?os = "demo_host back_meta"
  obtain s fs where o: "demo_open back_meta = (Inr s, fs)" "session demo_lib (demo_unmarshal back_meta) s fs"
      "host_law (demo_unmarshal back_meta) ?os fs" "st_revision s = 1" "st_raw s = ''a''" "st_path s = ''/c''" "st_managed s"
      "map_of fs ''/c'' = Some ''a''"
    using demo_opened by blast
  let ?m = "\<lparr>mg_store = s, mg_path = ''/c''\<rparr>"
  note ok = session_history_ok [OF o(2)]
  obtain meta where hg: "HistoryGet ?os 1 s fs = Inr (meta, ''a'')"
    using HistoryGet_current [OF ok o(3)] o(4,5) by auto
  let ?plan = "Plan_for demo_lib ?os ctl_yaml ''a'' ''rollback'' ?m"
  have pr: "PlanRollback demo_lib ?os ctl_yaml demo_viper 1 ?m fs = Inr (?plan, meta, ''a'')"
    by (simp add: PlanRollback_def hg demo_validates)
  have "diffValue [] (parse_value ctl_yaml ''a'') (parse_value ctl_yaml ''a'') = []" by code_simp
  then have plan: "?plan = \<lparr>pl_BaseRevision = 1, pl_Changes = [], pl_Danger = normalDanger, pl_Phrase = []\<rparr>"
    by (simp add: Plan_for_def Current_def o Diff_def Let_def sort_key_def del: diffValue.simps)
  have reason: "validateReason demo_lib ''undo'' True = Inr ''undo''" by code_simp
  let ?q = "mgr_request ''a'' ?plan ''undo'' [] ''rollback'' 1"
  have "apply_meta ?os ?q s = back_meta"
    unfolding plan by (simp add: apply_meta_def mgr_request_def o demo_now) (simp add: back_meta_def zero_meta_def normalDanger_def)
  then obtain res s' fs' where "Apply ?os ?q s fs = (Inr res, s', fs')"
    using demo_applies [OF o(1,3-8), of ?q] by (auto simp: mgr_request_def plan maxDraftBytes_def)
  then have ap: "mgr_Apply demo_lib ?os ''a'' ?plan ''undo'' [] ''rollback'' 1 ?m fs = (Inr res, ?m\<lparr>mg_store := s'\<rparr>, fs')"
    by (simp add: mgr_Apply_def reason)
  have "session demo_lib (demo_unmarshal back_meta) (mg_store ?m) fs" "st_revision (mg_store ?m) < - 1"
    using o(2,4) demo_flags(4) by simp_all
  from rollback_restores [OF this(1) o(3) this(2) pr ap] show ?thesis
    unfolding o(1) by (simp add: pr ap o(6))
qed

definition forth_meta :: RevisionMeta where
  "forth_meta = zero_meta\<lparr>rm_Revision := 2, rm_ParentRevision := 1, rm_Action := ''apply'', rm_Danger := ''normal'',
     rm_RestartRequired := True, rm_CreatedAt := 7\<rparr>"

definition forth_plan :: Plan where
  "forth_plan = \<lparr>pl_BaseRevision = 1, pl_Changes = [], pl_Danger = normalDanger, pl_Phrase = []\<rparr>"

theorem second_process_is_refused_witness:
  "case demo_open forth_meta of (Inr s, fs) \<Rightarrow>
     (case mgr_Apply demo_lib (demo_host forth_meta) ''b'' forth_plan [] [] ''apply'' 0 \<lparr>mg_store = s, mg_path = ''/c''\<rparr> fs of
        (Inr res, m', fs') \<Rightarrow>
          \<exists>e. mgr_Apply demo_lib (demo_host zero_meta) ''d'' forth_plan [] [] ''apply'' 0 \<lparr>mg_store = s, mg_path = ''/e''\<rparr> fs' =
            (Inl e, \<lparr>mg_store = s, mg_path = ''/e''\<rparr>, fs')
      | (Inl e, m', fs') \<Rightarrow> False)
   | (Inl e, fs) \<Rightarrow> False"
proof -
  let ?os = "demo_host forth_meta"
  obtain s fs where o: "demo_open forth_meta = (Inr s, fs)" "session demo_lib (demo_unmarshal forth_meta) s fs"
      "host_law (demo_unmarshal forth_meta) ?os fs" "st_revision s = 1" "st_raw s = ''a''" "st_path s = ''/c''" "st_managed s"
      "map_of fs ''/c'' = Some ''a''"
    using demo_opened by blast
  let ?m = "\<lparr>mg_store = s, mg_path = ''/c''\<rparr>" and ?q = "mgr_request ''b'' forth_plan [] [] ''apply'' 0"
  have "apply_meta ?os ?q s = forth_meta"
    by (simp add: apply_meta_def mgr_request_def forth_plan_def forth_meta_def zero_meta_def normalDanger_def o) (simp add: demo_host_def)
  then obtain res s' fs' where "Apply ?os ?q s fs = (Inr res, s', fs')"
    using demo_applies [OF o(1,3-8), of ?q] by (auto simp: mgr_request_def forth_plan_def maxDraftBytes_def)
  moreover have "validateReason demo_lib [] False = Inr []" by code_simp
  ultimately have ap: "mgr_Apply demo_lib ?os ''b'' forth_plan [] [] ''apply'' 0 ?m fs = (Inr res, ?m\<lparr>mg_store := s'\<rparr>, fs')"
    by (simp add: mgr_Apply_def forth_plan_def)
  have "session demo_lib (demo_unmarshal forth_meta) (mg_store ?m) fs" "st_revision (mg_store ?m) < - 1" "''b'' \<noteq> st_raw (mg_store ?m)"
    using o(2,4,5) demo_flags(4) by simp_all
  from second_process_is_refused [OF this(1) o(3) this(2) ap this(3), of "\<lparr>mg_store = s, mg_path = ''/e''\<rparr>"] show ?thesis
    unfolding o(1) by (simp add: ap)
qed

text \<open>
  A removed section is shown with its secrets and passes for a routine change. The salt is
  blanked when it is changed alone, but the difference of a text that drops the \<^verbatim>\<open>pow\<close> section lists
  the whole section, salt included, as a normal change that needs no confirmation.
\<close>
theorem removed_section_shows_secret:
  "Diff demo_lib ctl_yaml ''a'' ''c'' =
     ([\<lparr>dc_Path = ''pow'', dc_Kind = ''removed'', dc_Before = VMap [(''min_difficulty'', VInt 20), (''public_salt'', VString ''s1'')],
        dc_After = VNil, dc_Sensitive = False, dc_Danger = ''normal'', dc_RestartRequired = True\<rparr>], ''normal'', True)"
  by code_simp

end
