(* ===== verification/Cli.thy ===== *)
theory Cli
  imports ConfigCtl
begin

text \<open>
  The management tool (\<^verbatim>\<open>cmd/garmr\<close>): the commands over a configuration file and the preview of a request.

  Standard input is the list of its lines, the editor the list of the texts it leaves (none when
  it fails), the environment a function. A command yields an error, with which the tool exits, or
  what it reports at its end, and the disk. Printed wording and column layout are left out.

  Theorems: the edit command changes the disk only after the operator typed the phrase, agreed and
  gave a reason, apart from the revision that opening the file may record, and then writes the merge
  of a validated text; on an opened file a rollback asks for the same consent; what an
  edit writes need not itself be valid; a preview is the decision of the engine of the service; with a closed
  input the edit of an invalid text goes round for ever.
\<close>

section \<open>Prompts\<close>

definition readLine :: "golib \<Rightarrow> string list \<Rightarrow> string option \<times> string list" where
  "readLine L stdin = (case stdin of [] \<Rightarrow> (None, []) | line # rest \<Rightarrow> (Some (TrimSpace L line), rest))"

definition confirm :: "golib \<Rightarrow> bool \<Rightarrow> string list \<Rightarrow> bool \<times> string list" where
  "confirm L defaultYes stdin =
     (case readLine L stdin of
        (None, rest) \<Rightarrow> (defaultYes, rest)
      | (Some text, rest) \<Rightarrow>
          (let answer = ToLower L text in (if answer = [] then defaultYes else answer = ''y'' \<or> answer = ''yes'', rest)))"

fun promptRequired :: "golib \<Rightarrow> string list \<Rightarrow> string option \<times> string list" where
  "promptRequired L [] = (None, [])"
| "promptRequired L (line # rest) =
     (if TrimSpace L line \<noteq> [] then (Some (TrimSpace L line), rest) else promptRequired L rest)"

definition applyPrompt :: "golib \<Rightarrow> Plan \<Rightarrow> string list \<Rightarrow> bool \<times> string list" where
  "applyPrompt L plan stdin =
     (if ConfirmationRequired plan then
        case readLine L stdin of
          (None, rest) \<Rightarrow> (False, rest)
        | (Some phrase, rest) \<Rightarrow> if phrase \<noteq> pl_Phrase plan then (False, rest) else confirm L False rest
      else confirm L False stdin)"

definition currentUser :: "(string \<Rightarrow> string) \<Rightarrow> string" where
  "currentUser env =
     (if env ''USER'' \<noteq> [] then env ''USER'' else if env ''USERNAME'' \<noteq> [] then env ''USERNAME'' else env ''LOGNAME'')"

definition dash :: "64 word \<Rightarrow> string" where
  "dash v = (if v = 0 then ''-'' else show_nat (unat v))"

definition dashEmpty :: "string \<Rightarrow> string" where
  "dashEmpty v = (if v = [] then ''-'' else v)"

text \<open>\<^verbatim>\<open>strconv.ParseUint(s, 10, 64)\<close>.\<close>

definition ParseUint :: "string \<Rightarrow> 64 word option" where
  "ParseUint s = (if s \<noteq> [] \<and> list_all is_digit s \<and> read_nat s < 2 ^ 64 then Some (of_nat (read_nat s)) else None)"

section \<open>Reports\<close>

record plan_row =
  pr_Path :: string
  pr_Kind :: string
  pr_Before :: string
  pr_After :: string

definition formatValue :: "yamllib \<Rightarrow> yvalue \<Rightarrow> bool \<Rightarrow> string" where
  "formatValue Y v sensitive =
     (if sensitive then ''(redacted)''
      else case v of VNil \<Rightarrow> ''-'' | VString text \<Rightarrow> text | _ \<Rightarrow> fmt_Sprint Y v)"

definition printPlan :: "yamllib \<Rightarrow> Plan \<Rightarrow> plan_row list" where
  "printPlan Y plan =
     map (\<lambda>c. \<lparr>pr_Path = dc_Path c, pr_Kind = dc_Kind c, pr_Before = formatValue Y (dc_Before c) (dc_Sensitive c),
         pr_After = formatValue Y (dc_After c) (dc_Sensitive c)\<rparr>) (pl_Changes plan)"

record history_row =
  hr_Revision :: "64 word"
  hr_Parent :: string
  hr_Action :: string
  hr_Changed :: int
  hr_Danger :: string
  hr_Actor :: string
  hr_When :: int
  hr_Reason :: string

definition history_row_of :: "RevisionMeta \<Rightarrow> history_row" where
  "history_row_of item =
     \<lparr>hr_Revision = rm_Revision item, hr_Parent = dash (rm_ParentRevision item), hr_Action = rm_Action item, hr_Changed = rm_Changed item,
      hr_Danger = rm_Danger item, hr_Actor = dashEmpty (rm_Actor item), hr_When = rm_CreatedAt item,
      hr_Reason = (if rm_RollbackTarget item > 0
        then ''rollback -> #'' @ show_nat (unat (rm_RollbackTarget item)) @ '' '' @ rm_Reason item else rm_Reason item)\<rparr>"

record preview =
  pv_Target :: string
  pv_Status :: int
  pv_Chain :: string
  pv_Rule :: string
  pv_Reason :: string
  pv_Limit :: "string option"
  pv_Trace :: "(bool \<times> string \<times> string) list"

datatype cli_error = UnknownCommand string | Usage | BadRevision string | CtlError ctl_error | FileUnreadable | TempFailed
  | EditorFailed | InputClosed | Problems "problem list" | LoadFailed load_error | EngineFailed risk_error | MatcherFailed "string list"
  | EvaluateFailed risk_error | EvaluateStuck

datatype cli_out = Shown string | Valid | PlanShown "plan_row list" | HistoryShown "history_row list" | Unmodified | GaveUp
  | NoDifference | Declined "plan_row list" | Written Plan "64 word" | Rules "(string \<times> string \<times> (nat \<times> string \<times> string \<times> string) list) list"
  | Preview preview

section \<open>Configuration commands\<close>

definition configShow :: "golib \<Rightarrow> HostOS \<Rightarrow> yamllib \<Rightarrow> string \<Rightarrow> string list \<Rightarrow> files \<Rightarrow> (cli_error + cli_out) \<times> files" where
  "configShow L os Y path args fs =
     (case Open L os path fs of
        (Inl e, fs') \<Rightarrow> (Inl (CtlError e), fs')
      | (Inr m, fs') \<Rightarrow>
          (case args of
             [] \<Rightarrow> (Inr (Shown (snd (Redacted L Y m))), fs')
           | a # _ \<Rightarrow>
               (case ParseUint a of
                  None \<Rightarrow> (Inl (BadRevision a), fs')
                | Some r \<Rightarrow>
                    (case mgr_HistoryGet os r m fs' of
                       Inl e \<Rightarrow> (Inl (CtlError (StoreError e)), fs')
                     | Inr (meta, raw) \<Rightarrow> (Inr (Shown (RedactYAML L Y raw)), fs')))))"

text \<open>
  The loop of \<^verbatim>\<open>configEdit\<close>, one editor run per turn; the result is none while the editor has not
  come back.
\<close>

fun edit_loop :: "golib \<Rightarrow> HostOS \<Rightarrow> yamllib \<Rightarrow> 't viper \<Rightarrow> string \<Rightarrow> Manager \<Rightarrow> string \<Rightarrow> string option list \<Rightarrow> string list \<Rightarrow> files \<Rightarrow>
    ((cli_error + cli_out) \<times> files) option" where
  "edit_loop L os Y V user m redacted [] stdin fs = None"
| "edit_loop L os Y V user m redacted (None # edits) stdin fs = Some (Inl EditorFailed, fs)"
| "edit_loop L os Y V user m redacted (Some edited # edits) stdin fs =
     (let retry = (case confirm L True stdin of
            (again, rest) \<Rightarrow> if again then edit_loop L os Y V user m redacted edits rest fs else Some (Inr GaveUp, fs)) in
      if edited = redacted then Some (Inr Unmodified, fs)
      else if ValidateYAML L Y V edited \<noteq> Inr [] then retry
      else
        case MergeSecrets L Y edited m of
          Inl e \<Rightarrow> retry
        | Inr candidate \<Rightarrow>
            let plan = Plan_for L os Y candidate ''apply'' m in
            if pl_Changes plan = [] then Some (Inr NoDifference, fs)
            else
              case applyPrompt L plan stdin of
                (False, rest) \<Rightarrow> Some (Inr (Declined (printPlan Y plan)), fs)
              | (True, rest) \<Rightarrow>
                  (case promptRequired L rest of
                     (None, rest') \<Rightarrow> Some (Inl InputClosed, fs)
                   | (Some reason, rest') \<Rightarrow>
                       (case mgr_Apply L os candidate plan reason user ''apply'' 0 m fs of
                          (Inl e, m', fs') \<Rightarrow> Some (Inl (CtlError e), fs')
                        | (Inr res, m', fs') \<Rightarrow> Some (Inr (Written plan (al_Revision res)), fs'))))"

definition configEdit :: "golib \<Rightarrow> HostOS \<Rightarrow> yamllib \<Rightarrow> 't viper \<Rightarrow> (string \<Rightarrow> string) \<Rightarrow> bool \<Rightarrow> string \<Rightarrow> string option list \<Rightarrow> string list \<Rightarrow> files \<Rightarrow>
    ((cli_error + cli_out) \<times> files) option" where
  "configEdit L os Y V env tempOk path edits stdin fs =
     (case Open L os path fs of
        (Inl e, fs') \<Rightarrow> Some (Inl (CtlError e), fs')
      | (Inr m, fs') \<Rightarrow>
          if \<not> tempOk then Some (Inl TempFailed, fs')
          else edit_loop L os Y V (currentUser env) m (snd (Redacted L Y m)) edits stdin fs')"

definition configValidate :: "golib \<Rightarrow> yamllib \<Rightarrow> 't viper \<Rightarrow> string option \<Rightarrow> cli_error + cli_out" where
  "configValidate L Y V file =
     (case file of
        None \<Rightarrow> Inl FileUnreadable
      | Some raw \<Rightarrow>
          (case ValidateYAML L Y V raw of
             Inl e \<Rightarrow> Inl (CtlError e)
           | Inr problems \<Rightarrow> if problems \<noteq> [] then Inl (Problems problems) else Inr Valid))"

definition configDiff :: "golib \<Rightarrow> HostOS \<Rightarrow> yamllib \<Rightarrow> string \<Rightarrow> string option \<Rightarrow> files \<Rightarrow> (cli_error + cli_out) \<times> files" where
  "configDiff L os Y path file fs =
     (case Open L os path fs of
        (Inl e, fs') \<Rightarrow> (Inl (CtlError e), fs')
      | (Inr m, fs') \<Rightarrow>
          (case file of
             None \<Rightarrow> (Inl FileUnreadable, fs')
           | Some raw \<Rightarrow>
               (case MergeSecrets L Y raw m of
                  Inl e \<Rightarrow> (Inl (CtlError e), fs')
                | Inr candidate \<Rightarrow> (Inr (PlanShown (printPlan Y (Plan_for L os Y candidate ''apply'' m))), fs'))))"

definition configHistory :: "golib \<Rightarrow> HostOS \<Rightarrow> string \<Rightarrow> files \<Rightarrow> (cli_error + cli_out) \<times> files" where
  "configHistory L os path fs =
     (case Open L os path fs of
        (Inl e, fs') \<Rightarrow> (Inl (CtlError e), fs')
      | (Inr m, fs') \<Rightarrow>
          (case mgr_History os 50 m fs' of
             Inl e \<Rightarrow> (Inl (CtlError (StoreError e)), fs')
           | Inr items \<Rightarrow> (Inr (HistoryShown (map history_row_of items)), fs')))"

definition rollback_with :: "golib \<Rightarrow> HostOS \<Rightarrow> yamllib \<Rightarrow> 't viper \<Rightarrow> string \<Rightarrow> Manager \<Rightarrow> 64 word \<Rightarrow> string list \<Rightarrow> files \<Rightarrow>
    (cli_error + cli_out) \<times> files" where
  "rollback_with L os Y V user m revision stdin fs =
     (case PlanRollback L os Y V revision m fs of
        Inl e \<Rightarrow> (Inl (CtlError e), fs)
      | Inr (plan, meta, raw) \<Rightarrow>
          if pl_Changes plan = [] then (Inr NoDifference, fs)
          else
            case applyPrompt L plan stdin of
              (False, rest) \<Rightarrow> (Inr (Declined (printPlan Y plan)), fs)
            | (True, rest) \<Rightarrow>
                (case promptRequired L rest of
                   (None, rest') \<Rightarrow> (Inl InputClosed, fs)
                 | (Some reason, rest') \<Rightarrow>
                     (case mgr_Apply L os raw plan reason user ''rollback'' revision m fs of
                        (Inl e, m', fs') \<Rightarrow> (Inl (CtlError e), fs')
                      | (Inr res, m', fs') \<Rightarrow> (Inr (Written plan (al_Revision res)), fs'))))"

definition configRollback :: "golib \<Rightarrow> HostOS \<Rightarrow> yamllib \<Rightarrow> 't viper \<Rightarrow> (string \<Rightarrow> string) \<Rightarrow> string \<Rightarrow> 64 word \<Rightarrow> string list \<Rightarrow> files \<Rightarrow>
    (cli_error + cli_out) \<times> files" where
  "configRollback L os Y V env path revision stdin fs =
     (case Open L os path fs of
        (Inl e, fs') \<Rightarrow> (Inl (CtlError e), fs')
      | (Inr m, fs') \<Rightarrow> rollback_with L os Y V (currentUser env) m revision stdin fs')"

text \<open>The dispatcher; \<open>readf\<close> is \<^verbatim>\<open>os.ReadFile\<close> on a path given as an argument.\<close>

definition runConfig :: "golib \<Rightarrow> HostOS \<Rightarrow> yamllib \<Rightarrow> 't viper \<Rightarrow> (string \<Rightarrow> string) \<Rightarrow> bool \<Rightarrow> (string \<Rightarrow> string option) \<Rightarrow> string \<Rightarrow> string list \<Rightarrow>
    string option list \<Rightarrow> string list \<Rightarrow> files \<Rightarrow> ((cli_error + cli_out) \<times> files) option" where
  "runConfig L os Y V env tempOk readf path args0 edits stdin fs =
     (let (cmd, args) = (case args0 of [] \<Rightarrow> (''show'', []) | a # r \<Rightarrow> (a, r)) in
      if cmd = ''show'' then Some (configShow L os Y path args fs)
      else if cmd = ''edit'' then configEdit L os Y V env tempOk path edits stdin fs
      else if cmd = ''validate'' then
        Some (case args of [f] \<Rightarrow> (configValidate L Y V (readf f), fs) | _ \<Rightarrow> (Inl Usage, fs))
      else if cmd = ''diff'' then
        Some (case args of [f] \<Rightarrow> configDiff L os Y path (readf f) fs | _ \<Rightarrow> (Inl Usage, fs))
      else if cmd = ''history'' then Some (configHistory L os path fs)
      else if cmd = ''rollback'' then
        Some (case args of
                [a] \<Rightarrow> (case ParseUint a of None \<Rightarrow> (Inl (BadRevision a), fs) | Some r \<Rightarrow> configRollback L os Y V env path r stdin fs)
              | _ \<Rightarrow> (Inl Usage, fs))
      else Some (Inl (UnknownCommand cmd), fs))"

section \<open>Rule commands\<close>

definition rule_row :: "nat \<times> RuleConfig \<Rightarrow> nat \<times> string \<times> string \<times> string" where
  "rule_row ir =
     (case ir of (i, rule) \<Rightarrow>
        (i + 1, rc_Name rule, (if rc_Chain rule \<noteq> [] then rc_Target rule @ '' -> '' @ rc_Chain rule else rc_Target rule),
         dashEmpty (rc_Reason rule)))"

definition ruleList :: "Config \<Rightarrow> cli_out" where
  "ruleList cfg =
     Rules (map (\<lambda>name.
         let chain = the (map_of (rk_Chains (cfg_RiskControl cfg)) name)
         in (name, polc_Target (chc_Policy chain), map rule_row (enumerate 0 (chc_Rules chain))))
       (sort (map fst (rk_Chains (cfg_RiskControl cfg)))))"

record preview_args =
  pa_path :: string
  pa_method :: string
  pa_ip :: string
  pa_pow :: string
  pa_powMode :: string

definition preview_request :: "golib \<Rightarrow> Matcher \<Rightarrow> preview_args \<Rightarrow> RequestContext" where
  "preview_request L mt a =
     \<lparr>rq_Path = pa_path a, rq_Method = pa_method a, rq_Args = [], rq_IP = pa_ip a, rq_UserAgent = [], rq_HasToken = False,
      rq_HasSign = False, rq_PowStatus = pa_pow a, rq_PowMode = pa_powMode a, rq_IsProtected = ShouldProtect L mt (pa_path a),
      rq_IsRangeRequest = False, rq_Counters = None\<rparr>"

definition preview_of :: "Result \<Rightarrow> preview" where
  "preview_of r =
     (let d = res_Decision r in
      \<lparr>pv_Target = dc_Target d, pv_Status = (if dc_StatusCode d = 0 then 200 else dc_StatusCode d), pv_Chain = dc_Chain d,
       pv_Rule = dashEmpty (dc_RuleName d), pv_Reason = dc_Reason d,
       pv_Limit = (if dc_LimitRate d \<noteq> [] \<and> dc_LimitRate d \<noteq> ''0'' then Some (dc_LimitRate d) else None),
       pv_Trace = map (\<lambda>t. (ts_Matched t, ts_Chain t, ts_Rule t)) (res_Trace r)\<rparr>)"

definition rulePreview :: "golib \<Rightarrow> HostOS \<Rightarrow> 't viper \<Rightarrow> string \<Rightarrow> preview_args \<Rightarrow> files \<Rightarrow> cli_error + cli_out" where
  "rulePreview L os V path a fs =
     (case Load L os V path fs of
        Inl e \<Rightarrow> Inl (LoadFailed e)
      | Inr cfg \<Rightarrow>
          (case FromConfig L (cfg_RiskControl cfg) of
             Inl e \<Rightarrow> Inl (EngineFailed e)
           | Inr engine \<Rightarrow>
               (case buildMatcher L cfg of
                  Inl e \<Rightarrow> Inl (MatcherFailed e)
                | Inr mt \<Rightarrow>
                    (case Evaluate L engine (Some (preview_request L mt a)) of
                       None \<Rightarrow> Inl EvaluateStuck
                     | Some (Inl e) \<Rightarrow> Inl (EvaluateFailed e)
                     | Some (Inr r) \<Rightarrow> Inr (Preview (preview_of r))))))"

text \<open>The arguments of a preview are parsed by the flag library, which may refuse them.\<close>

definition runRule :: "golib \<Rightarrow> HostOS \<Rightarrow> 't viper \<Rightarrow> (string list \<Rightarrow> preview_args option) \<Rightarrow> string \<Rightarrow> string list \<Rightarrow> files \<Rightarrow> cli_error + cli_out" where
  "runRule L os V parse path args0 fs =
     (let (cmd, args) = (case args0 of [] \<Rightarrow> (''list'', []) | a # r \<Rightarrow> (a, r)) in
      if cmd = ''list'' then (case Load L os V path fs of Inl e \<Rightarrow> Inl (LoadFailed e) | Inr cfg \<Rightarrow> Inr (ruleList cfg))
      else if cmd = ''preview'' then (case parse args of None \<Rightarrow> Inl Usage | Some a \<Rightarrow> rulePreview L os V path a fs)
      else Inl (UnknownCommand cmd))"

section \<open>Consent\<close>

text \<open>
  What the operator has typed: the phrase where the plan asks for one, then a yes, then a reason.
\<close>

definition consented :: "golib \<Rightarrow> Plan \<Rightarrow> string list \<Rightarrow> bool" where
  "consented L plan stdin \<longleftrightarrow>
     (\<exists>before answer rest reason.
        stdin = before @ answer # rest \<and> ToLower L (TrimSpace L answer) \<in> {''y'', ''yes''} \<and>
        (ConfirmationRequired plan \<longrightarrow> before \<noteq> [] \<and> TrimSpace L (last before) = pl_Phrase plan) \<and>
        reason \<in> set rest \<and> TrimSpace L reason \<noteq> [])"

lemma confirm_False_yes:
  "confirm L False stdin = (True, rest) \<Longrightarrow> \<exists>answer. stdin = answer # rest \<and> ToLower L (TrimSpace L answer) \<in> {''y'', ''yes''}"
  by (cases stdin) (auto simp: confirm_def readLine_def Let_def split: if_splits)

lemma confirm_suffix: "confirm L d stdin = (b, rest) \<Longrightarrow> \<exists>pre. stdin = pre @ rest"
  by (cases stdin) (auto simp: confirm_def readLine_def Let_def)

lemma applyPrompt_yes:
  assumes "applyPrompt L plan stdin = (True, rest)"
  shows "\<exists>before answer. stdin = before @ answer # rest \<and> ToLower L (TrimSpace L answer) \<in> {''y'', ''yes''} \<and>
    (ConfirmationRequired plan \<longrightarrow> before \<noteq> [] \<and> TrimSpace L (last before) = pl_Phrase plan)"
proof (cases "ConfirmationRequired plan")
  case True
  with assms obtain line more where "stdin = line # more" "TrimSpace L line = pl_Phrase plan" "confirm L False more = (True, rest)"
    by (cases stdin) (auto simp: applyPrompt_def readLine_def split: if_splits)
  with confirm_False_yes show ?thesis by (metis append_Cons append_Nil last.simps list.distinct(1))
next
  case False
  with assms have "confirm L False stdin = (True, rest)" by (simp add: applyPrompt_def)
  with confirm_False_yes False show ?thesis by (metis append_Nil)
qed

lemma promptRequired_line: "promptRequired L stdin = (Some r, rest) \<Longrightarrow> \<exists>line \<in> set stdin. TrimSpace L line \<noteq> []"
  by (induction L stdin rule: promptRequired.induct) (auto split: if_splits)

lemma consented_append: "consented L plan rest \<Longrightarrow> consented L plan (pre @ rest)"
proof -
  assume "consented L plan rest"
  then obtain before answer more reason where c: "rest = before @ answer # more" "ToLower L (TrimSpace L answer) \<in> {''y'', ''yes''}"
      "ConfirmationRequired plan \<longrightarrow> before \<noteq> [] \<and> TrimSpace L (last before) = pl_Phrase plan" "reason \<in> set more"
      "TrimSpace L reason \<noteq> []"
    unfolding consented_def by blast
  then have "pre @ rest = (pre @ before) @ answer # more"
    "ConfirmationRequired plan \<longrightarrow> pre @ before \<noteq> [] \<and> TrimSpace L (last (pre @ before)) = pl_Phrase plan" by auto
  with c(2,4,5) show ?thesis unfolding consented_def by blast
qed

lemma prompts_consent:
  assumes "applyPrompt L plan stdin = (True, rest)" and "promptRequired L rest = (Some reason, rest')"
  shows "consented L plan stdin"
  using applyPrompt_yes [OF assms(1)] promptRequired_line [OF assms(2)] unfolding consented_def by blast

lemma mgr_Apply_outcome:
  assumes "session L U (mg_store m) fs" and "host_law U os fs" and "st_revision (mg_store m) < - 1"
    and "mgr_Apply L os raw plan reason actor action target m fs = (r, m', fs')"
  shows "case r of Inl e \<Rightarrow> map_of fs' = map_of fs | Inr res \<Rightarrow> map_of fs' (st_path (mg_store m)) = Some raw"
proof -
  have "case r' of Inl e \<Rightarrow> map_of fs'' = map_of fs | Inr res \<Rightarrow> map_of fs'' (st_path (mg_store m)) = Some raw"
    if "Apply os (mgr_request raw plan rs actor action target) (mg_store m) fs = (r', s'', fs'')" for rs r' s'' fs''
    using apply_outcome [OF assms(1-3) that] by (auto simp: mgr_request_def split: sum.splits)
  then show ?thesis
    using assms(4) by (fastforce simp: mgr_Apply_def split: sum.splits prod.splits)
qed

definition wrote_merged ::
  "golib \<Rightarrow> HostOS \<Rightarrow> yamllib \<Rightarrow> 't viper \<Rightarrow> Manager \<Rightarrow> string option list \<Rightarrow> string list \<Rightarrow> cli_error + cli_out \<Rightarrow> files \<Rightarrow> bool" where
  "wrote_merged L os Y V m edits stdin r fs' \<longleftrightarrow>
     (\<exists>plan n edited candidate.
        r = Inr (Written plan n) \<and> consented L plan stdin \<and> Some edited \<in> set edits \<and> ValidateYAML L Y V edited = Inr [] \<and>
        MergeSecrets L Y edited m = Inr candidate \<and> plan = Plan_for L os Y candidate ''apply'' m \<and>
        map_of fs' (st_path (mg_store m)) = Some candidate)"

lemma wrote_merged_later:
  "wrote_merged L os Y V m edits rest r fs' \<Longrightarrow> wrote_merged L os Y V m (e # edits) (pre @ rest) r fs'"
  unfolding wrote_merged_def using consented_append by (metis list.set_intros(2))

lemma edit_outcome:
  assumes "session L U (mg_store m) fs" and "host_law U os fs" and "st_revision (mg_store m) < - 1"
    and "edit_loop L os Y V user m redacted edits stdin fs = Some (r, fs')"
  shows "map_of fs' = map_of fs \<or> wrote_merged L os Y V m edits stdin r fs'"
  using assms(4)
proof (induction edits arbitrary: stdin)
  case (Cons e edits)
  show ?case
  proof (cases e)
    case None
    with Cons.prems show ?thesis by simp
  next
    case (Some edited)
    let ?retry = "case confirm L True stdin of (again, rest) \<Rightarrow>
      if again then edit_loop L os Y V user m redacted edits rest fs else Some (Inr GaveUp, fs)"
    have again: "map_of fs' = map_of fs \<or> wrote_merged L os Y V m (e # edits) stdin r fs'" if "?retry = Some (r, fs')"
    proof -
      obtain b rest where c: "confirm L True stdin = (b, rest)" by fastforce
      then obtain pre where "stdin = pre @ rest" using confirm_suffix by blast
      with that c Cons.IH [of rest] show ?thesis by (auto split: if_splits intro: wrote_merged_later)
    qed
    consider (same) "edited = redacted" | (invalid) "edited \<noteq> redacted" "ValidateYAML L Y V edited \<noteq> Inr []"
      | (unmerged) x where "edited \<noteq> redacted" "ValidateYAML L Y V edited = Inr []" "MergeSecrets L Y edited m = Inl x"
      | (merged) candidate where "edited \<noteq> redacted" "ValidateYAML L Y V edited = Inr []" "MergeSecrets L Y edited m = Inr candidate"
      by (cases "MergeSecrets L Y edited m") blast+
    then show ?thesis
    proof cases
      case same
      with Cons.prems Some show ?thesis by simp
    next
      case invalid
      with Cons.prems Some again show ?thesis by (simp add: Let_def)
    next
      case unmerged
      with Cons.prems Some again show ?thesis by (simp add: Let_def)
    next
      case merged
      let ?plan = "Plan_for L os Y candidate ''apply'' m"
      show ?thesis
      proof (cases "pl_Changes ?plan = []")
        case True
        with Cons.prems Some merged show ?thesis by (simp add: Let_def)
      next
        case False
        obtain ok rest where ap: "applyPrompt L ?plan stdin = (ok, rest)" by fastforce
        obtain reason rest' where pr: "promptRequired L rest = (reason, rest')" by fastforce
        have "map_of fs' = map_of fs" if "\<not> ok \<or> reason = None"
          using that Cons.prems Some merged False ap pr by (cases ok) (auto simp: Let_def)
        moreover have ?thesis if "ok" "reason = Some why" for why
        proof -
          obtain a m' fs2 where a: "mgr_Apply L os candidate ?plan why user ''apply'' 0 m fs = (a, m', fs2)" by (metis prod_cases3)
          have "fs' = fs2 \<and> (case a of Inl e \<Rightarrow> True | Inr res \<Rightarrow> r = Inr (Written ?plan (al_Revision res)))"
            using that Cons.prems Some merged False ap pr a by (cases a) (auto simp: Let_def)
          with mgr_Apply_outcome [OF assms(1-3) a] prompts_consent [of L ?plan stdin rest why rest'] that ap pr Some merged
          show ?thesis by (cases a) (auto simp: wrote_merged_def)
        qed
        ultimately show ?thesis by (cases reason) blast+
      qed
    qed
  qed
qed simp

lemma Open_outcome:
  assumes "host_law U os fs" and "os_Abs os path = Some full" and "clean_path full" and "managed_at L U full fs"
    and "Open L os path fs = (r, fs')"
  shows "only_recorded full fs fs'"
    and "r = Inr m \<Longrightarrow> session L U (mg_store m) fs' \<and> st_path (mg_store m) = full \<and> st_revision (mg_store m) < - 1"
proof -
  have "only_recorded full fs fs' \<and>
      (r = Inr m \<longrightarrow> session L U (mg_store m) fs' \<and> st_path (mg_store m) = full \<and> st_revision (mg_store m) < - 1)"
  proof (cases "map_of fs full")
    case None
    with assms(2) have "Open L os path fs = (Inl CannotRead, fs)" by (simp add: Open_def os_ReadFile_def)
    with assms(5) show ?thesis by (auto simp: only_recorded_def)
  next
    case (Some raw)
    obtain r' fs1 where n: "New_store L os path raw True fs = (r', fs1)" by fastforce
    have "Open L os path fs = (case r' of Inl e \<Rightarrow> Inl (StoreError e) | Inr store \<Rightarrow> Inr \<lparr>mg_store = store, mg_path = path\<rparr>, fs1)"
      using Some n assms(2) host_lawD(3) [OF assms(1)] by (auto simp: Open_def os_ReadFile_def split: sum.split)
    with New_outcome [OF assms(1-4) Some n] assms(5) show ?thesis by (cases r') auto
  qed
  then show "only_recorded full fs fs'"
    "r = Inr m \<Longrightarrow> session L U (mg_store m) fs' \<and> st_path (mg_store m) = full \<and> st_revision (mg_store m) < - 1" by blast+
qed

text \<open>
  C39: The command that edits the configuration changes it only with the operator's consent. The
  disk afterwards is as before, except that opening the file may have put its text on record as a
  new revision (a first one, or one for an edit made outside the tool); or the tool reports a
  written revision, the operator has typed the phrase if the plan asked for one, agreed and given a
  reason, and the configuration file holds the merge of an edited text that passed validation. The
  copy that the editor works on lies outside this disk.
\<close>

theorem edit_needs_consent:
  assumes "host_law U os fs" and "os_Abs os path = Some full" and "clean_path full" and "managed_at L U full fs"
    and "host_law U os (snd (Open L os path fs))"
    and "configEdit L os Y V env tempOk path edits stdin fs = Some (r, fs')"
  shows "only_recorded full fs fs' \<or>
    (\<exists>m. fst (Open L os path fs) = Inr m \<and> st_path (mg_store m) = full \<and> wrote_merged L os Y V m edits stdin r fs')"
proof -
  obtain ro fs1 where o: "Open L os path fs = (ro, fs1)" by fastforce
  note opened = Open_outcome [OF assms(1-4) o]
  show ?thesis
  proof (cases "\<exists>m. ro = Inr m \<and> tempOk")
    case False
    with o assms(6) have "fs' = fs1" by (auto simp: configEdit_def split: sum.splits if_splits)
    with opened(1) show ?thesis by simp
  next
    case True
    then obtain m where m: "ro = Inr m" and tempOk by blast
    with o assms(6) have "edit_loop L os Y V (currentUser env) m (snd (Redacted L Y m)) edits stdin fs1 = Some (r, fs')"
      by (simp add: configEdit_def)
    from edit_outcome [OF _ _ _ this] opened(2) [OF m] assms(5) o
    have "map_of fs' = map_of fs1 \<or> wrote_merged L os Y V m edits stdin r fs'" by auto
    with opened(1) opened(2) [OF m] m o show ?thesis by (auto simp: only_recorded_def)
  qed
qed

section \<open>Rollback and preview\<close>

theorem rollback_needs_consent:
  assumes "session L U (mg_store m) fs" and "host_law U os fs" and "st_revision (mg_store m) < - 1"
    and "rollback_with L os Y V user m revision stdin fs = (r, fs')"
  shows "map_of fs' = map_of fs \<or>
    (\<exists>plan meta raw n. r = Inr (Written plan n) \<and> consented L plan stdin \<and> PlanRollback L os Y V revision m fs = Inr (plan, meta, raw) \<and>
       map_of fs' (st_path (mg_store m)) = Some raw)"
proof (cases "PlanRollback L os Y V revision m fs")
  case (Inl e)
  with assms(4) show ?thesis by (simp add: rollback_with_def)
next
  case (Inr t)
  obtain plan meta raw where p: "PlanRollback L os Y V revision m fs = Inr (plan, meta, raw)" using Inr by (cases t) auto
  obtain ok rest where ap: "applyPrompt L plan stdin = (ok, rest)" by fastforce
  obtain reason rest' where pr: "promptRequired L rest = (reason, rest')" by fastforce
  have "map_of fs' = map_of fs" if "pl_Changes plan = [] \<or> \<not> ok \<or> reason = None"
    using that assms(4) p ap pr by (cases ok) (auto simp: rollback_with_def split: if_splits)
  moreover have ?thesis if why: "pl_Changes plan \<noteq> []" "ok" "reason = Some why" for why
  proof -
    obtain a m' fs2 where a: "mgr_Apply L os raw plan why user ''rollback'' revision m fs = (a, m', fs2)" by (metis prod_cases3)
    have "fs' = fs2 \<and> (case a of Inl e \<Rightarrow> True | Inr res \<Rightarrow> r = Inr (Written plan (al_Revision res)))"
      using why assms(4) p ap pr a by (cases a) (auto simp: rollback_with_def)
    with mgr_Apply_outcome [OF assms(1-3) a] prompts_consent [of L plan stdin rest why rest'] why ap pr p
    show ?thesis by (cases a) auto
  qed
  ultimately show ?thesis by (cases reason) blast+
qed

text \<open>
  A preview is the decision of the engine that the service builds, on the protection that the
  service's matcher gives to the path, and it always arrives.
\<close>

theorem preview_is_service_decision:
  assumes "Load L os V path fs = Inr cfg" and "FromConfig L (cfg_RiskControl cfg) = Inr engine" and "app_matcher L cfg = Inr mt"
  shows "\<exists>d. Evaluate L engine (Some (preview_request L mt a)) = Some d \<and>
    rulePreview L os V path a fs = (case d of Inl e \<Rightarrow> Inl (EvaluateFailed e) | Inr r \<Rightarrow> Inr (Preview (preview_of r)))"
proof -
  let ?ro = "Some (preview_request L mt a)"
  obtain r st where "evalChain L engine (with_resolver ?ro) (enough_fuel engine) ''INPUT'' init_state = Some (r, st)"
    using enough_fuel_works by blast
  then have "Evaluate L engine ?ro \<noteq> None" by (cases r) (simp_all add: Evaluate_def EvaluateWithEntry_def Let_def)
  with assms show ?thesis by (auto simp: rulePreview_def buildMatcher_eq_app split: sum.splits)
qed

section \<open>An edit that writes\<close>

definition edit_meta :: RevisionMeta where
  "edit_meta = zero_meta\<lparr>rm_Revision := 2, rm_ParentRevision := 1, rm_Action := ''apply'', rm_Actor := ''ann'', rm_Reason := ''why'',
     rm_Changed := 1, rm_Danger := ''critical'', rm_RestartRequired := True, rm_CreatedAt := 7\<rparr>"

definition cli_yaml :: yamllib where
  "cli_yaml = ctl_yaml\<lparr>yaml_Encode := (\<lambda>n i. Some ''b'')\<rparr>"

lemma cli_merge: "mergeSecretPlaceholders demo_lib cli_yaml ''e'' ''a'' = Inr ''b''" by code_simp

lemma cli_validates: "ValidateYAML demo_lib cli_yaml demo_viper ''e'' = Inr []"
proof -
  have "validateYAMLNode (y_doc (y_map [])) = None" by code_simp
  moreover have "Validate demo_lib (applyDefaults demo_config) = Some []" by code_simp
  ultimately show ?thesis
    by (simp add: ValidateYAML_def LoadRawFromBytes_def ValidateYAMLStructure_def cli_yaml_def ctl_yaml_def demo_viper_def maxCandidateBytes_def)
qed

lemma cli_diff: "Diff demo_lib cli_yaml ''a'' ''b'' =
    ([\<lparr>dc_Path = ''pow.min_difficulty'', dc_Kind = ''changed'', dc_Before = VInt 20, dc_After = VInt 10, dc_Sensitive = False,
       dc_Danger = ''critical'', dc_RestartRequired = True\<rparr>], ''critical'', True)"
proof -
  let ?p = "''pow.min_difficulty''"
  let ?c = "leaf_change ?p (VInt 20) (VInt 10)"
  have "sort_key dc_Path (diffValue [] (parse_value cli_yaml ''a'') (parse_value cli_yaml ''b'')) = [?c]" by code_simp
  then have changes: "fst (Diff demo_lib cli_yaml ''a'' ''b'') = [classify_one demo_lib ?c]" by (simp add: Diff_changes del: diffValue.simps)
  have lower: "ToLower demo_lib ?p = ?p" and "Contains ?p ''difficulty''" and insens: "\<not> isSensitivePath demo_lib ?p" by code_simp+
  then have "difficultyReduced ?p (VInt 20) (VInt 10)" by (simp add: difficultyReduced_def f64_of_int_small f64_less_def)
  then have "fst (classifyChange demo_lib ?p (VInt 20) (VInt 10)) = ''critical''" by (simp add: classifyChange_def lower Let_def)
  then have one: "classify_one demo_lib ?c = \<lparr>dc_Path = ?p, dc_Kind = ''changed'', dc_Before = VInt 20, dc_After = VInt 10,
      dc_Sensitive = False, dc_Danger = ''critical'', dc_RestartRequired = True\<rparr>"
    using insens by (simp add: classify_one_def leaf_change_def)
  show ?thesis using changes unfolding one by (simp add: Diff_def Let_def dangerRank_def normalDanger_def del: diffValue.simps)
qed

definition demo_env :: "string \<Rightarrow> string" where
  "demo_env k = (if k = ''USER'' then ''ann'' else [])"

text \<open>The loop on the opened file: the phrase, a yes and a reason, and the merge of the edited text is written.\<close>

lemma demo_edit_loop:
  assumes o: "demo_open edit_meta = (Inr s, fs)" "host_law (demo_unmarshal edit_meta) (demo_host edit_meta) fs" "st_revision s = 1"
      "st_raw s = ''a''" "st_path s = ''/c''" "st_managed s" "map_of fs ''/c'' = Some ''a''"
    and m: "m = \<lparr>mg_store = s, mg_path = ''/c''\<rparr>" and shown: "redacted \<noteq> ''e''"
  shows "\<exists>plan n fs' m' res. edit_loop demo_lib (demo_host edit_meta) cli_yaml demo_viper ''ann'' m redacted [Some ''e'']
      [''APPLY 7'', ''y'', ''why''] fs = Some (Inr (Written plan n), fs') \<and>
    mgr_Apply demo_lib (demo_host edit_meta) ''b'' plan ''why'' ''ann'' ''apply'' 0 m fs = (Inr res, m', fs')"
proof -
  let ?os = "demo_host edit_meta" and ?in = "[''APPLY 7'', ''y'', ''why'']"
  let ?plan = "Plan_for demo_lib ?os cli_yaml ''b'' ''apply'' m"
  have st: "mg_store m = s" by (simp add: m)
  have "confirmToken ?os 8 = ''7''"
    by (simp add: confirmToken_def demo_now) (simp add: demo_host_def FormatInt_def show_nat.simps digit_char_code)
  moreover have "ToUpper demo_lib ''apply'' = ''APPLY''" by code_simp
  ultimately have plan: "?plan = \<lparr>pl_BaseRevision = 1, pl_Changes = fst (Diff demo_lib cli_yaml ''a'' ''b''), pl_Danger = ''critical'',
      pl_Phrase = ''APPLY 7''\<rparr>"
    by (simp add: Plan_for_def Current_def o m cli_diff normalDanger_def)
  have trims: "TrimSpace demo_lib ''APPLY 7'' = ''APPLY 7''" "TrimSpace demo_lib ''y'' = ''y''" "TrimSpace demo_lib ''why'' = ''why''"
    "ToLower demo_lib ''y'' = ''y''" by code_simp+
  then have ap: "applyPrompt demo_lib ?plan ?in = (True, [''why''])" and pr: "promptRequired demo_lib [''why''] = (Some ''why'', [])"
    unfolding plan by (simp_all add: applyPrompt_def ConfirmationRequired_def readLine_def confirm_def)
  have reason: "validateReason demo_lib ''why'' True = Inr ''why''" by code_simp
  let ?q = "mgr_request ''b'' ?plan ''why'' ''ann'' ''apply'' 0"
  have "apply_meta ?os ?q s = edit_meta"
    unfolding plan by (simp add: apply_meta_def mgr_request_def o demo_now cli_diff) (simp add: edit_meta_def zero_meta_def)
  then obtain res s' fs' where "Apply ?os ?q s fs = (Inr res, s', fs')"
    using demo_applies [OF o, of ?q] by (auto simp: mgr_request_def plan maxDraftBytes_def)
  then have app: "mgr_Apply demo_lib ?os ''b'' ?plan ''why'' ''ann'' ''apply'' 0 m fs = (Inr res, m\<lparr>mg_store := s'\<rparr>, fs')"
    using reason st by (simp add: mgr_Apply_def plan normalDanger_def)
  have merge: "MergeSecrets demo_lib cli_yaml ''e'' m = Inr ''b''" by (simp add: MergeSecrets_def Current_def o m cli_merge)
  have "pl_Changes ?plan \<noteq> []" by (simp add: plan cli_diff)
  then have "edit_loop demo_lib ?os cli_yaml demo_viper ''ann'' m redacted [Some ''e''] ?in fs = Some (Inr (Written ?plan (al_Revision res)), fs')"
    using shown by (simp add: cli_validates merge ap pr app Let_def del: promptRequired.simps)
  with app show ?thesis by blast
qed

theorem edit_needs_consent_witness:
  "case configEdit demo_lib (demo_host edit_meta) cli_yaml demo_viper demo_env True ''/c'' [Some ''e''] [''APPLY 7'', ''y'', ''why'']
       [(''/c'', ''a'')] of
     Some (r, fs') \<Rightarrow> map_of fs' ''/c'' = Some ''b'' \<and> (\<exists>m. wrote_merged demo_lib (demo_host edit_meta) cli_yaml demo_viper m [Some ''e'']
       [''APPLY 7'', ''y'', ''why''] r fs')
   | None \<Rightarrow> False"
proof -
  let ?os = "demo_host edit_meta" and ?fs = "[(''/c'', ''a'')]" and ?U = "demo_unmarshal edit_meta"
  obtain s fs where o: "demo_open edit_meta = (Inr s, fs)" "session demo_lib ?U s fs" "host_law ?U ?os fs" "st_revision s = 1"
      "st_raw s = ''a''" "st_path s = ''/c''" "st_managed s" "map_of fs ''/c'' = Some ''a''"
    using demo_opened by blast
  define m where "m = \<lparr>mg_store = s, mg_path = ''/c''\<rparr>"
  have h: "host_law ?U ?os ?fs" by (rule demo_temp) (auto split: if_splits)
  have c: "clean_path ''/c''" by (simp add: clean_path_def HasPrefix_def Contains_def sublist_Cons_right)
  have g: "managed_at demo_lib ?U ''/c'' ?fs"
    by (simp add: managed_at_def filepath_Dir_def filepath_Join_def historyDirName_def)
  have op: "Open demo_lib ?os ''/c'' ?fs = (Inr m, fs)"
    using o(1) host_lawD(3) [OF h] by (simp add: Open_def os_ReadFile_def demo_flags demo_open_def m_def)
  have "RedactYAML demo_lib cli_yaml ''a'' \<noteq> ''e''" by code_simp
  then have "snd (Redacted demo_lib cli_yaml m) \<noteq> ''e''" by (simp add: Redacted_def Current_def m_def o)
  from demo_edit_loop [OF o(1,3-8) m_def this] obtain plan n fs' m' res
    where lp: "edit_loop demo_lib ?os cli_yaml demo_viper ''ann'' m (snd (Redacted demo_lib cli_yaml m)) [Some ''e'']
        [''APPLY 7'', ''y'', ''why''] fs = Some (Inr (Written plan n), fs')"
      and app: "mgr_Apply demo_lib ?os ''b'' plan ''why'' ''ann'' ''apply'' 0 m fs = (Inr res, m', fs')" by blast
  have e: "configEdit demo_lib ?os cli_yaml demo_viper demo_env True ''/c'' [Some ''e''] [''APPLY 7'', ''y'', ''why''] ?fs =
      Some (Inr (Written plan n), fs')"
    using lp by (simp add: configEdit_def op currentUser_def demo_env_def del: edit_loop.simps)
  have b: "map_of fs' ''/c'' = Some ''b''"
    using mgr_Apply_outcome [OF _ _ _ app] o demo_flags(4) by (simp add: m_def)
  then have "\<not> only_recorded ''/c'' ?fs fs'" using only_recorded_keeps [of "''/c''" ?fs fs' "''/c''" "''a''"] by auto
  with edit_needs_consent [OF h demo_flags(1) c g _ e] op o(3) b show ?thesis unfolding e by auto
qed

section \<open>What is written need not be valid\<close>

text \<open>
  The tool validates the edited text, placeholders and all, and writes the merged one. A cleared
  secret is text to the first and empty in the second.
\<close>

definition dsn_doc :: "ynode \<Rightarrow> ynode" where
  "dsn_doc v = y_doc (y_map [(''storage'', y_map [(''postgres'', y_map [(''dsn'', v)])])])"

definition dsn_yaml :: yamllib where
  "dsn_yaml = demo_yaml\<lparr>yaml_Node := (\<lambda>s. Some (dsn_doc (if s = ''live'' then y_scalar ''d'' else if s = ''edited'' then y_scalar clearText
       else emptyNode (y_scalar ''d'')))),
     yaml_Encode := (\<lambda>n i. if n = dsn_doc (emptyNode (y_scalar ''d'')) then Some ''cleared'' else None)\<rparr>"

definition dsn_viper :: "string viper" where
  "dsn_viper = \<lparr>vp_ReadInConfig = (\<lambda>p. Inr []), vp_ReadConfig = Inr,
     vp_UnmarshalExact = (\<lambda>t. Some (demo_config\<lparr>cfg_Storage := (cfg_Storage demo_config)\<lparr>st_Driver := ''postgres'',
       st_PgDSN := (if t = ''edited'' then clearText else [])\<rparr>\<rparr>)), vp_Regular = (\<lambda>p. True)\<rparr>"

lemma dsn_valid:
  "Validate demo_lib (applyDefaults (demo_config\<lparr>cfg_Storage := (cfg_Storage demo_config)\<lparr>st_Driver := ''postgres'', st_PgDSN := clearText\<rparr>\<rparr>)) = Some []"
  "Validate demo_lib (applyDefaults (demo_config\<lparr>cfg_Storage := (cfg_Storage demo_config)\<lparr>st_Driver := ''postgres'', st_PgDSN := []\<rparr>\<rparr>)) =
     Some [(''storage.postgres.dsn is required when storage.driver=postgres'', [])]"
  by code_simp+

lemma dsn_structure: "validateYAMLNode (dsn_doc (y_scalar clearText)) = None" "validateYAMLNode (dsn_doc (emptyNode (y_scalar ''d''))) = None"
  by code_simp+

theorem edit_may_write_invalid:
  "ValidateYAML demo_lib dsn_yaml dsn_viper ''edited'' = Inr []"
  "mergeSecretPlaceholders demo_lib dsn_yaml ''edited'' ''live'' = Inr ''cleared''"
  "ValidateYAML demo_lib dsn_yaml dsn_viper ''cleared'' = Inr [(''storage.postgres.dsn is required when storage.driver=postgres'', [])]"
proof -
  show "mergeSecretPlaceholders demo_lib dsn_yaml ''edited'' ''live'' = Inr ''cleared''" by code_simp
qed (simp_all add: ValidateYAML_def LoadRawFromBytes_def ValidateYAMLStructure_def dsn_yaml_def dsn_viper_def maxCandidateBytes_def dsn_valid dsn_structure)

section \<open>A closed input\<close>

text \<open>
  With its input closed the tool takes the default of each question. For a text that fails the
  validation the default is another round, so an editor that leaves such a text is run for ever.
\<close>

theorem edit_spins_on_closed_input:
  assumes "edited \<noteq> redacted" and "ValidateYAML L Y V edited \<noteq> Inr []"
  shows "edit_loop L os Y V user m redacted (replicate n (Some edited)) [] fs = None"
  by (induction n) (simp_all add: assms confirm_def readLine_def Let_def)

end
