(* ===== verification/Telemetry.thy ===== *)
theory Telemetry
  imports Netip Pow
begin

text \<open>
  \<^verbatim>\<open>internal/logging\<close> and \<^verbatim>\<open>internal/metrics\<close>: the logger with the fields it carries and those of the request
  context, and the metrics with their registration.

  The logging library is the record \<open>zap\<close> (which levels are enabled, whether an entry is written, how
  syncing ends; every logger has one), a field is any value \<open>'f\<close>, and what was logged is a list of lines. The metrics
  registry is a parameter with its documented behaviour as \<open>registry_law\<close>.

  Theorems: a line carries the fields of the logger, of the context and of the call, each in the
  order they were attached, and none is lost; registration is complete and repeatable.
\<close>

section \<open>Logging\<close>

datatype Level = DebugLevel | InfoLevel | WarnLevel | ErrorLevel

datatype sync_error = OsErrInvalid | SyncText string

record zap =
  zap_Enabled :: "Level \<Rightarrow> bool"
  zap_Check :: "Level \<Rightarrow> string \<Rightarrow> bool"
  zap_Sync :: "sync_error option"

record 'f zapLogger =
  zl_z :: zap
  zl_fields :: "'f list"
  zl_callerSkip :: int

record 'f line =
  ln_Level :: Level
  ln_Msg :: string
  ln_Fields :: "'f list"

text \<open>What the code keeps in a context; a context may be nil.\<close>

record 'f ctx =
  cx_logger :: "'f zapLogger option"
  cx_fields :: "'f list option"

definition zap_NewNop :: zap where
  "zap_NewNop = \<lparr>zap_Enabled = (\<lambda>l. False), zap_Check = (\<lambda>l m. False), zap_Sync = None\<rparr>"

definition NewFromZap :: "zap \<Rightarrow> 'f zapLogger" where
  "NewFromZap z = \<lparr>zl_z = z, zl_fields = [], zl_callerSkip = 1\<rparr>"

definition NewNop :: "'f zapLogger" where
  "NewNop = \<lparr>zl_z = zap_NewNop, zl_fields = [], zl_callerSkip = 0\<rparr>"

definition WithLogger :: "'f ctx \<Rightarrow> 'f zapLogger \<Rightarrow> 'f ctx" where
  "WithLogger c l = c\<lparr>cx_logger := Some l\<rparr>"

definition FromContext :: "'f ctx \<Rightarrow> 'f zapLogger" where
  "FromContext c = (case cx_logger c of Some l \<Rightarrow> l | None \<Rightarrow> NewNop)"

definition ctxFields :: "'f ctx option \<Rightarrow> 'f list" where
  "ctxFields co = (case co of None \<Rightarrow> [] | Some c \<Rightarrow> (case cx_fields c of None \<Rightarrow> [] | Some fs \<Rightarrow> fs))"

definition WithFields :: "'f ctx \<Rightarrow> 'f list \<Rightarrow> 'f ctx" where
  "WithFields c added = (if added = [] then c else c\<lparr>cx_fields := Some (ctxFields (Some c) @ added)\<rparr>)"

definition log_emit :: "'f zapLogger \<Rightarrow> 'f ctx option \<Rightarrow> Level \<Rightarrow> string \<Rightarrow> 'f list \<Rightarrow> 'f line list \<Rightarrow> 'f line list" where
  "log_emit l c lvl msg added out =
     (if \<not> zap_Enabled (zl_z l) lvl then out
      else if zap_Check (zl_z l) lvl msg
      then out @ [\<lparr>ln_Level = lvl, ln_Msg = msg, ln_Fields = zl_fields l @ ctxFields c @ added\<rparr>]
      else out)"

definition log_Debug :: "'f zapLogger \<Rightarrow> 'f ctx option \<Rightarrow> string \<Rightarrow> 'f list \<Rightarrow> 'f line list \<Rightarrow> 'f line list" where
  "log_Debug l c = log_emit l c DebugLevel"

definition log_Info :: "'f zapLogger \<Rightarrow> 'f ctx option \<Rightarrow> string \<Rightarrow> 'f list \<Rightarrow> 'f line list \<Rightarrow> 'f line list" where
  "log_Info l c = log_emit l c InfoLevel"

definition log_Warn :: "'f zapLogger \<Rightarrow> 'f ctx option \<Rightarrow> string \<Rightarrow> 'f list \<Rightarrow> 'f line list \<Rightarrow> 'f line list" where
  "log_Warn l c = log_emit l c WarnLevel"

definition log_Error :: "'f zapLogger \<Rightarrow> 'f ctx option \<Rightarrow> string \<Rightarrow> 'f list \<Rightarrow> 'f line list \<Rightarrow> 'f line list" where
  "log_Error l c = log_emit l c ErrorLevel"

definition log_With :: "'f zapLogger \<Rightarrow> 'f list \<Rightarrow> 'f zapLogger" where
  "log_With l added = l\<lparr>zl_fields := zl_fields l @ added\<rparr>"

definition log_Sync :: "'f zapLogger \<Rightarrow> sync_error option" where
  "log_Sync l =
     (case zap_Sync (zl_z l) of
        None \<Rightarrow> None
      | Some e \<Rightarrow> if e = OsErrInvalid \<or> e = SyncText ''sync stdout: The handle is invalid'' then None else Some e)"

definition HashIP :: "golib \<Rightarrow> string \<Rightarrow> string \<Rightarrow> string" where
  "HashIP L ip0 salt =
     (let ip = TrimSpace L ip0 in
      if ip = [] then []
      else if ParseAddr ip = None then ip
      else hex_EncodeToString (take 12 (digest_bytes (Sum256 L (salt @ ip)))))"

section \<open>Metrics\<close>

datatype metric_kind = CounterKind | HistogramKind | GaugeKind

record collector =
  col_Kind :: metric_kind
  col_Namespace :: string
  col_Subsystem :: string
  col_Name :: string
  col_Help :: string
  col_Labels :: "string list"

record Container =
  PowVerifyTotal :: collector
  PowVerifyLatencySeconds :: collector
  RiskDecisionTotal :: collector
  StorageOperations :: collector
  StorageLatencySeconds :: collector
  ActiveSignatures :: collector
  PendingAutoBlocks :: collector
  PowFlags :: collector

definition metrics_New :: Container where
  "metrics_New =
     \<lparr>PowVerifyTotal = \<lparr>col_Kind = CounterKind, col_Namespace = ''mirrors_waf'', col_Subsystem = ''pow'', col_Name = ''verify_total'',
        col_Help = ''Total number of /verify_pow calls by result/reason/mode/protected.'',
        col_Labels = [''result'', ''reason'', ''mode'', ''protected'']\<rparr>,
      PowVerifyLatencySeconds = \<lparr>col_Kind = HistogramKind, col_Namespace = ''mirrors_waf'', col_Subsystem = ''pow'', col_Name = ''verify_latency_seconds'',
        col_Help = ''Wall-clock latency of /verify_pow calls.'', col_Labels = [''mode'']\<rparr>,
      RiskDecisionTotal = \<lparr>col_Kind = CounterKind, col_Namespace = ''mirrors_waf'', col_Subsystem = ''risk'', col_Name = ''decision_total'',
        col_Help = ''Total risk-engine decisions by target/reason.'', col_Labels = [''target'', ''reason'']\<rparr>,
      StorageOperations = \<lparr>col_Kind = CounterKind, col_Namespace = ''mirrors_waf'', col_Subsystem = ''storage'', col_Name = ''operations_total'',
        col_Help = ''Storage-layer operations by driver/operation/outcome.'', col_Labels = [''driver'', ''operation'', ''outcome'']\<rparr>,
      StorageLatencySeconds = \<lparr>col_Kind = HistogramKind, col_Namespace = ''mirrors_waf'', col_Subsystem = ''storage'', col_Name = ''latency_seconds'',
        col_Help = ''Storage-layer latency by driver/operation.'', col_Labels = [''driver'', ''operation'']\<rparr>,
      ActiveSignatures = \<lparr>col_Kind = GaugeKind, col_Namespace = ''mirrors_waf'', col_Subsystem = ''storage'', col_Name = ''active_signatures'',
        col_Help = ''Current count of active generic-mode sign usage records.'', col_Labels = []\<rparr>,
      PendingAutoBlocks = \<lparr>col_Kind = CounterKind, col_Namespace = ''mirrors_waf'', col_Subsystem = ''pending'', col_Name = ''auto_blocks_total'',
        col_Help = ''Automatic temporary blocks triggered by the per-IP pending limit.'', col_Labels = []\<rparr>,
      PowFlags = \<lparr>col_Kind = GaugeKind, col_Namespace = ''mirrors_waf'', col_Subsystem = ''pow'', col_Name = ''flags'',
        col_Help = ''Runtime PoW switches as 0/1 gauges, keyed by flag name.'', col_Labels = [''flag'']\<rparr>\<rparr>"

definition BoolValue :: "bool \<Rightarrow> int" where
  "BoolValue v = (if v then 1 else 0)"

datatype reg_result = Registered | AlreadyRegistered | RegisterError string

definition container_collectors :: "Container \<Rightarrow> collector list" where
  "container_collectors c =
     [PowVerifyTotal c, PowVerifyLatencySeconds c, RiskDecisionTotal c, StorageOperations c, StorageLatencySeconds c, ActiveSignatures c,
      PendingAutoBlocks c, PowFlags c]"

fun register_all :: "('r \<Rightarrow> collector \<Rightarrow> reg_result \<times> 'r) \<Rightarrow> collector list \<Rightarrow> 'r \<Rightarrow> string option \<times> 'r" where
  "register_all reg [] r = (None, r)"
| "register_all reg (c # cs) r =
     (case reg r c of (RegisterError e, r') \<Rightarrow> (Some e, r') | (_, r') \<Rightarrow> register_all reg cs r')"

definition Register :: "('r \<Rightarrow> collector \<Rightarrow> reg_result \<times> 'r) \<Rightarrow> Container \<Rightarrow> 'r \<Rightarrow> string option \<times> 'r" where
  "Register reg c r = register_all reg (container_collectors c) r"

section \<open>Fields are kept\<close>

lemma ctxFields_WithFields: "ctxFields (Some (WithFields c fs)) = ctxFields (Some c) @ fs"
  by (simp add: WithFields_def ctxFields_def)

lemma ctxFields_fold: "ctxFields (Some (fold (\<lambda>fs c. WithFields c fs) fss c)) = ctxFields (Some c) @ concat fss"
  by (induction fss arbitrary: c) (simp_all add: ctxFields_WithFields)

lemma log_With_fold: "fold (\<lambda>fs l. log_With l fs) fss l = l\<lparr>zl_fields := zl_fields l @ concat fss\<rparr>"
  by (induction fss arbitrary: l) (simp_all add: log_With_def)

theorem line_carries_all_fields:
  assumes "zap_Enabled z lvl" and "zap_Check z lvl msg"
  shows "log_emit (fold (\<lambda>fs l. log_With l fs) lss (NewFromZap z)) (Some (fold (\<lambda>fs c. WithFields c fs) css \<lparr>cx_logger = lo, cx_fields = None\<rparr>))
      lvl msg fs out = out @ [\<lparr>ln_Level = lvl, ln_Msg = msg, ln_Fields = concat lss @ concat css @ fs\<rparr>]"
  using assms by (simp add: log_emit_def log_With_fold ctxFields_fold NewFromZap_def) (simp add: ctxFields_def)

text \<open>
  A valid address is replaced by 24 hexadecimal digits, the same for the same address
  and salt with or without white space around it.
\<close>

lemma HashIP_hides:
  assumes "ParseAddr (TrimSpace L ip) \<noteq> None" and "TrimSpace L ip \<noteq> []"
  shows "length (HashIP L ip salt) = 24" and "\<forall>c \<in> set (HashIP L ip salt). lower_hex c"
    and "TrimSpace L ip' = TrimSpace L ip \<Longrightarrow> HashIP L ip' salt = HashIP L ip salt"
  using assms hex_chars by (auto simp: HashIP_def Let_def)

section \<open>Registration\<close>

text \<open>
  The registry of the metrics library, seen through the collectors it holds by full name: a new
  name is registered, the same descriptor again is reported as such, another descriptor under a
  known name is an error.
\<close>

definition fq_name :: "collector \<Rightarrow> string" where
  "fq_name c = col_Namespace c @ ''_'' @ col_Subsystem c @ ''_'' @ col_Name c"

definition same_desc :: "collector \<Rightarrow> collector \<Rightarrow> bool" where
  "same_desc c d \<longleftrightarrow> fq_name c = fq_name d \<and> col_Help c = col_Help d \<and> col_Labels c = col_Labels d"

definition registry_law :: "('r \<Rightarrow> string \<rightharpoonup> collector) \<Rightarrow> ('r \<Rightarrow> collector \<Rightarrow> reg_result \<times> 'r) \<Rightarrow> bool" where
  "registry_law held reg \<longleftrightarrow>
     (\<forall>r c. case held r (fq_name c) of
        None \<Rightarrow> fst (reg r c) = Registered \<and> held (snd (reg r c)) = (held r)(fq_name c \<mapsto> c)
      | Some d \<Rightarrow> snd (reg r c) = r \<and> (if same_desc c d then fst (reg r c) = AlreadyRegistered else \<exists>e. fst (reg r c) = RegisterError e))"

definition agrees_on :: "collector list \<Rightarrow> (string \<rightharpoonup> collector) \<Rightarrow> bool" where
  "agrees_on cs h \<longleftrightarrow> (\<forall>c \<in> set cs. \<forall>d. h (fq_name c) = Some d \<longrightarrow> same_desc c d)"

lemma registry_new:
  assumes "registry_law held reg" and "held r (fq_name c) = None"
  obtains r' where "reg r c = (Registered, r')" "held r' = (held r)(fq_name c \<mapsto> c)"
proof -
  have "fst (reg r c) = Registered \<and> held (snd (reg r c)) = (held r)(fq_name c \<mapsto> c)"
    using assms spec [OF spec [OF assms(1) [unfolded registry_law_def], of r], of c] by simp
  then show ?thesis using that by (metis prod.collapse)
qed

lemma registry_known:
  assumes "registry_law held reg" and "held r (fq_name c) = Some d" and "same_desc c d"
  shows "reg r c = (AlreadyRegistered, r)"
  using spec [OF spec [OF assms(1) [unfolded registry_law_def], of r], of c] assms(2,3) by (simp add: prod_eq_iff)

lemma register_all_complete:
  assumes "registry_law held reg" and "distinct (map fq_name cs)" and "agrees_on cs (held r)"
  shows "\<exists>r'. register_all reg cs r = (None, r') \<and> (\<forall>c \<in> set cs. \<exists>d. held r' (fq_name c) = Some d \<and> same_desc c d) \<and>
    (\<forall>n. n \<notin> fq_name ` set cs \<longrightarrow> held r' n = held r n)"
  using assms(2,3)
proof (induction cs arbitrary: r)
  case (Cons c cs)
  show ?case
  proof (cases "held r (fq_name c)")
    case None
    obtain r1 where r1: "reg r c = (Registered, r1)" "held r1 = (held r)(fq_name c \<mapsto> c)" using registry_new [OF assms(1) None] .
    have "agrees_on cs (held r1)" using Cons.prems r1(2) by (auto simp: agrees_on_def image_iff)
    with Cons.IH [of r1] Cons.prems(1) obtain r' where "register_all reg cs r1 = (None, r')"
      "\<forall>c \<in> set cs. \<exists>d. held r' (fq_name c) = Some d \<and> same_desc c d" "\<forall>n. n \<notin> fq_name ` set cs \<longrightarrow> held r' n = held r1 n" by auto
    with r1 Cons.prems(1) show ?thesis by (auto simp: same_desc_def)
  next
    case (Some d)
    then have same: "same_desc c d" using Cons.prems(2) by (simp add: agrees_on_def)
    have "agrees_on cs (held r)" using Cons.prems by (auto simp: agrees_on_def)
    with Cons.IH [of r] Cons.prems(1) obtain r' where "register_all reg cs r = (None, r')"
      "\<forall>c \<in> set cs. \<exists>d. held r' (fq_name c) = Some d \<and> same_desc c d" "\<forall>n. n \<notin> fq_name ` set cs \<longrightarrow> held r' n = held r n" by auto
    with registry_known [OF assms(1) Some same] Some same Cons.prems(1) show ?thesis by auto
  qed
qed simp

lemma register_all_again:
  assumes "registry_law held reg" and "\<forall>c \<in> set cs. \<exists>d. held r (fq_name c) = Some d \<and> same_desc c d"
  shows "register_all reg cs r = (None, r)"
  using assms(2) by (induction cs) (auto dest: registry_known [OF assms(1)])

lemma container_names_distinct: "distinct (map fq_name (container_collectors metrics_New))"
  by code_simp

text \<open>
  Registration succeeds in any registry where no other collector uses one of the eight
  names, registers exactly what was missing and, repeated with a fresh container, changes nothing.
\<close>

theorem registration_complete_and_repeatable:
  assumes "registry_law held reg" and "agrees_on (container_collectors metrics_New) (held r)"
  shows "\<exists>r'. Register reg metrics_New r = (None, r') \<and>
    (\<forall>c \<in> set (container_collectors metrics_New). \<exists>d. held r' (fq_name c) = Some d \<and> same_desc c d) \<and>
    (\<forall>n. n \<notin> fq_name ` set (container_collectors metrics_New) \<longrightarrow> held r' n = held r n) \<and> Register reg metrics_New r' = (None, r')"
proof -
  obtain r' where "register_all reg (container_collectors metrics_New) r = (None, r')"
      and all: "\<forall>c \<in> set (container_collectors metrics_New). \<exists>d. held r' (fq_name c) = Some d \<and> same_desc c d"
      and "\<forall>n. n \<notin> fq_name ` set (container_collectors metrics_New) \<longrightarrow> held r' n = held r n"
    using register_all_complete [OF assms(1) container_names_distinct assms(2)] by blast
  with register_all_again [OF assms(1) all] show ?thesis unfolding Register_def by blast
qed

definition demo_reg :: "(string \<rightharpoonup> collector) \<Rightarrow> collector \<Rightarrow> reg_result \<times> (string \<rightharpoonup> collector)" where
  "demo_reg r c =
     (case r (fq_name c) of
        None \<Rightarrow> (Registered, r(fq_name c \<mapsto> c))
      | Some d \<Rightarrow> if same_desc c d then (AlreadyRegistered, r) else (RegisterError ''conflict'', r))"

theorem registration_complete_and_repeatable_witness:
  "\<exists>r'. Register demo_reg metrics_New Map.empty = (None, r') \<and> Register demo_reg metrics_New r' = (None, r') \<and>
    (\<exists>d. r' ''mirrors_waf_pow_flags'' = Some d \<and> same_desc (PowFlags metrics_New) d)"
proof -
  have "registry_law (\<lambda>r. r) demo_reg" by (simp add: registry_law_def demo_reg_def split: option.split)
  moreover have "agrees_on (container_collectors metrics_New) Map.empty" by (simp add: agrees_on_def)
  moreover have "PowFlags metrics_New \<in> set (container_collectors metrics_New)" by (simp add: container_collectors_def)
  moreover have "fq_name (PowFlags metrics_New) = ''mirrors_waf_pow_flags''" by code_simp
  ultimately show ?thesis using registration_complete_and_repeatable [of "\<lambda>r. r" demo_reg Map.empty] by (metis (no_types, lifting))
qed

end
