(* ===== verification/AccessLog.thy ===== *)
theory AccessLog
  imports Auth Telemetry
begin

text \<open>
  The log line of a verification (\<^verbatim>\<open>auth/result_recorder.go\<close> and the first fields, set in \<^verbatim>\<open>Service.Verify\<close>).
  \<open>elapsed\<close> is the time the request took in milliseconds. The entry that \<^verbatim>\<open>recordResult\<close> of theory \<^verbatim>\<open>Auth\<close>
  keeps says whether there is a line and on which level; here is the line itself.

  Theorems: the line is the one the entry announces, a fault is logged whatever the settings, what a
  client sends is cut to a bounded length, and with hashing on its address is not in the address fields.
\<close>

section \<open>The line\<close>

datatype log_field = FString string string | FInt string int | FBool string bool

definition maybeHashIP :: "golib \<Rightarrow> LoggingConfig \<Rightarrow> string \<Rightarrow> string" where
  "maybeHashIP L lg ip = (if ip = [] then [] else if \<not> lg_HashIP lg then ip else HashIP L ip (lg_LogSalt lg))"

definition request_fields :: "golib \<Rightarrow> LoggingConfig \<Rightarrow> AuthRequest \<Rightarrow> log_field list" where
  "request_fields L lg req =
     [FString ''path'' (truncateForLog (ar_OriginalURI req) maxLoggedFieldLen),
      FString ''ip'' (maybeHashIP L lg (ar_RealIP req)),
      FString ''method'' (truncateForLog (ar_OriginalMethod req) 16),
      FString ''user_agent'' (truncateForLog (ar_UserAgent req) maxLoggedFieldLen)]"

definition result_fields :: "golib \<Rightarrow> LoggingConfig \<Rightarrow> TokenPayload option \<Rightarrow> int \<Rightarrow> AuthResult \<Rightarrow> log_field list" where
  "result_fields L lg payload elapsed res =
     [FString ''event'' ''pow_verify'', FBool ''allowed'' (a_Allowed res), FInt ''status'' (a_HTTPStatus res),
      FString ''reason'' (a_Reason res), FString ''mode'' (a_Mode res), FString ''decision'' (a_Decision res), FInt ''elapsed_ms'' elapsed] @
     (case payload of
        None \<Rightarrow> []
      | Some p \<Rightarrow> FInt ''difficulty'' (tp_Difficulty p) #
          (if tp_Mode p = ''ip_bound'' \<and> tp_IP p \<noteq> [] then [FString ''token_ip'' (maybeHashIP L lg (tp_IP p))] else [])) @
     (if a_SignID res \<noteq> [] then [FString ''sign_id'' (a_SignID res)] else []) @
     (if a_Uses res > 0 \<or> a_MaxUses res > 0 then [FInt ''uses'' (a_Uses res), FInt ''max_uses'' (a_MaxUses res)] else []) @
     (if a_LimitRate res \<noteq> [] then [FString ''limit_rate'' (a_LimitRate res)] else []) @
     (if a_DryRunOriginalError res \<noteq> [] then [FString ''dry_run_original_error'' (a_DryRunOriginalError res)] else [])"

definition log_result ::
  "golib \<Rightarrow> LoggingConfig \<Rightarrow> log_field zapLogger \<Rightarrow> AuthRequest \<Rightarrow> TokenPayload option \<Rightarrow> int \<Rightarrow> AuthResult \<Rightarrow> log_field line list \<Rightarrow> log_field line list" where
  "log_result L lg logger req payload elapsed res out =
     (if \<not> shouldLogResult lg res then out
      else
        let bg = Some \<lparr>cx_logger = None, cx_fields = None\<rparr>;
            lvl = log_level res;
            all = request_fields L lg req @ result_fields L lg payload elapsed res
        in if lvl = ''error'' then log_Error logger bg ''pow_verify'' all out
           else if lvl = ''warn'' then log_Warn logger bg ''pow_verify'' all out
           else log_Info logger bg ''pow_verify'' all out)"

section \<open>Theorems\<close>

definition level_of :: "string \<Rightarrow> Level" where
  "level_of s = (if s = ''error'' then ErrorLevel else if s = ''warn'' then WarnLevel else InfoLevel)"

definition writes_all :: "log_field zapLogger \<Rightarrow> bool" where
  "writes_all l \<longleftrightarrow> (\<forall>lvl msg. zap_Enabled (zl_z l) lvl \<and> zap_Check (zl_z l) lvl msg)"

text \<open>The entry of \<^verbatim>\<open>recordResult\<close> is right about the line.\<close>

theorem line_matches_entry:
  assumes "writes_all logger"
  shows "log_result L lg logger req payload elapsed res out =
    (case rec_log (record_entry lg prot res) of
       None \<Rightarrow> out
     | Some lvl \<Rightarrow> out @ [\<lparr>ln_Level = level_of lvl, ln_Msg = ''pow_verify'',
         ln_Fields = zl_fields logger @ request_fields L lg req @ result_fields L lg payload elapsed res\<rparr>])"
  using assms
  by (simp add: log_result_def record_entry_def level_of_def writes_all_def log_Error_def log_Warn_def log_Info_def log_emit_def
      ctxFields_def Let_def)

theorem fault_is_logged:
  assumes "500 \<le> a_HTTPStatus res" and "\<not> a_Allowed res" and "zap_Enabled (zl_z logger) ErrorLevel"
    and "zap_Check (zl_z logger) ErrorLevel ''pow_verify''"
  shows "\<exists>fs. log_result L lg logger req payload elapsed res out = out @ [\<lparr>ln_Level = ErrorLevel, ln_Msg = ''pow_verify'', ln_Fields = fs\<rparr>]"
  using assms by (simp add: log_result_def shouldLogResult_def log_level_def log_Error_def log_emit_def Let_def)

lemma length_truncateForLog: "length (truncateForLog s m) \<le> m + 14"
  by (simp add: truncateForLog_def truncated_marker_def)

lemma truncateForLog_short: "length s \<le> m \<Longrightarrow> truncateForLog s m = s"
  by (simp add: truncateForLog_def)

lemma maybeHashIP_hides:
  assumes "lg_HashIP lg" and "ip \<noteq> []" and "TrimSpace L ip \<noteq> []" and "ParseAddr (TrimSpace L ip) \<noteq> None"
  shows "length (maybeHashIP L lg ip) = 24 \<and> (\<forall>c \<in> set (maybeHashIP L lg ip). lower_hex c)"
  using assms(1,2) HashIP_hides(1,2) [OF assms(4,3)] by (simp add: maybeHashIP_def)

text \<open>
  With hashing on, a request from a valid address adds at most 1106 bytes of text to the log before
  the verdict, however long what the client sent, and the address field is a hash.
\<close>

definition field_size :: "log_field \<Rightarrow> nat" where
  "field_size f = (case f of FString k v \<Rightarrow> length v | _ \<Rightarrow> 0)"

theorem request_fields_bounded:
  assumes "lg_HashIP lg" and "TrimSpace L (ar_RealIP req) \<noteq> []" and "ar_RealIP req \<noteq> []" and "ParseAddr (TrimSpace L (ar_RealIP req)) \<noteq> None"
  shows "sum_list (map field_size (request_fields L lg req)) \<le> 1106" and
    "\<exists>h. FString ''ip'' h \<in> set (request_fields L lg req) \<and> length h = 24 \<and> (\<forall>c \<in> set h. lower_hex c)"
proof -
  note h = maybeHashIP_hides [OF assms(1,3,2,4)]
  show "sum_list (map field_size (request_fields L lg req)) \<le> 1106"
    using h length_truncateForLog [of "ar_OriginalURI req" 512] length_truncateForLog [of "ar_OriginalMethod req" 16]
      length_truncateForLog [of "ar_UserAgent req" 512]
    by (simp add: request_fields_def field_size_def maxLoggedFieldLen_def)
  show "\<exists>h. FString ''ip'' h \<in> set (request_fields L lg req) \<and> length h = 24 \<and> (\<forall>c \<in> set h. lower_hex c)"
    using h by (auto simp: request_fields_def)
qed

end
