(* ===== verification/TokenCodec.thy ===== *)
theory TokenCodec
  imports Pow
begin

text \<open>
  \<^verbatim>\<open>EncodeToken\<close> (\<^verbatim>\<open>internal/pow/token.go\<close>): the struct as a JSON object, by its tags and their order, and its
  base64url text. \<open>print_json\<close> is the part of \<^verbatim>\<open>json.Marshal\<close> that writes an object as text and cannot
  fail on this struct.

  Theorem: decoding gives the payload back, for any printer that the parser inverts on the object.
\<close>

definition json_int :: "int \<Rightarrow> json" where
  "json_int x = JNum (FormatInt x)"

definition payload_object :: "TokenPayload \<Rightarrow> json" where
  "payload_object p =
     JObj ([(''v'', json_int (tp_Version p)), (''mode'', JStr (tp_Mode p)), (''alg'', JStr (tp_Algorithm p))] @
       (if tp_IP p = [] then [] else [(''ip'', JStr (tp_IP p))]) @
       [(''path'', JStr (tp_Path p)), (''ts'', json_int (tp_Timestamp p)), (''exp'', json_int (tp_ExpiresAt p)),
        (''d'', json_int (tp_Difficulty p)), (''cnt'', JStr (tp_Counter p))] @
       (if tp_Salt p = [] then [] else [(''salt'', JStr (tp_Salt p))]))"

definition EncodeToken :: "(json \<Rightarrow> string) \<Rightarrow> TokenPayload \<Rightarrow> string" where
  "EncodeToken print_json p = RawURLEncoding_Encode (print_json (payload_object p))"

definition ints_fit :: "TokenPayload \<Rightarrow> bool" where
  "ints_fit p \<longleftrightarrow> in_int64 (tp_Version p) \<and> in_int64 (tp_Timestamp p) \<and> in_int64 (tp_ExpiresAt p) \<and> in_int64 (tp_Difficulty p)"

lemma tag_of_tag: "t \<in> set payload_tags \<Longrightarrow> tag_of_key L t = Some t"
  by (simp add: tag_of_key_def)

lemma unmarshal_object:
  assumes "ints_fit p" and "json_Parse L s = Some (payload_object p)"
  shows "unmarshal_payload L s = Some p"
  using assms
  by (simp add: unmarshal_payload_def payload_object_def tag_of_tag payload_tags_def set_field_def json_int_def ints_fit_def
      ParseInt_FormatInt set_int_field_def set_string_field_def zero_payload_def)

theorem token_roundtrip:
  assumes "ints_fit p" and "json_Parse L (print_json (payload_object p)) = Some (payload_object p)" and "print_json (payload_object p) \<noteq> []"
  shows "DecodeToken L (EncodeToken print_json p) = Inr p"
proof -
  have "RawURLEncoding_Encode (print_json (payload_object p)) \<noteq> []"
    using assms(3) by (simp add: RawURLEncoding_Encode_def b64_encode_Nil_iff)
  then show ?thesis
    using unmarshal_object [OF assms(1,2)] by (simp add: DecodeToken_def EncodeToken_def RawURLEncoding_roundtrip)
qed

theorem token_roundtrip_witness:
  "DecodeToken demo_lib (EncodeToken (\<lambda>j. ''{}'') demo_payload) = Inr demo_payload"
proof (rule token_roundtrip)
  have "FormatInt 1 = ''1''" "FormatInt 8 = ''8''" "FormatInt 1000 = ''1000''" "FormatInt 2000 = ''2000''"
    by (simp_all add: FormatInt_def show_nat.simps digit_char_code)
  then show "json_Parse demo_lib ''{}'' = Some (payload_object demo_payload)"
    by (simp add: demo_lib_def payload_object_def demo_payload_def json_int_def)
qed (simp_all add: ints_fit_def demo_payload_def in_int64_def)

end
