(* ===== verification/Spec2Isabelle.thy ===== *)
theory Spec2Isabelle
  imports Quota Server RedisStore PostgresStore Cli AccessLog TokenCodec
begin

text \<open>
  Verification of Garmr, the backend of a web application firewall for software mirrors.

  \<^bold>\<open>The program.\<close> A reverse proxy asks the backend about every request (\<^verbatim>\<open>GET /verify_pow\<close>) and
  serves it on status 200. A request for a protected path carries a token and a sign: the token
  names mode, path, life time, difficulty and a counter that the client has searched, the sign is
  the hash of its canonical text, and the hash must be small. The backend checks the token, counts
  its uses, evaluates the operator's rules (chains of conditions and targets, like a packet filter)
  and limits the requests in progress per client.

  \<^bold>\<open>The theories\<close>, from the libraries up:

  \<^item> \<^verbatim>\<open>Prelude\<close>, \<^verbatim>\<open>GoLib\<close>, \<^verbatim>\<open>GoEncoding\<close>, \<^verbatim>\<open>GoWeb\<close>, \<^verbatim>\<open>Netip\<close>: what the code uses of the language and its
    standard library. Strings are byte lists; \<^verbatim>\<open>int64\<close> values are \<^typ>\<open>int\<close> with \<open>wrap64\<close> at every
    operation that can overflow; a Go map is an association list with distinct keys. What cannot be
    read here (SHA-256, regular expressions, JSON, Unicode case tables) is the argument \<open>L\<close> of type
    \<^verbatim>\<open>golib\<close>.
  \<^item> \<^verbatim>\<open>Pow\<close> (\<^verbatim>\<open>internal/pow\<close>): payload, decoding, field validation, canonical text, difficulty, sign and
    sign id. Theorems: the canonical text determines the payload, the sign id the work, and the
    bitwise difficulty check is a comparison of the hash with a power of two.
    \<^verbatim>\<open>TokenCodec\<close>: encoding and its round trip.
  \<^item> \<^verbatim>\<open>Config\<close>, \<^verbatim>\<open>ConfigValidate\<close> (\<^verbatim>\<open>internal/config\<close>): records, defaults, every check of \<^verbatim>\<open>Validate\<close> and
    its search for jump cycles, which is proved to report a cycle exactly when there is one.
  \<^item> \<^verbatim>\<open>PathMatcher\<close> (\<^verbatim>\<open>internal/matcher\<close>): normalisation and the matchers, against their meaning.
  \<^item> \<^verbatim>\<open>UsageStore\<close>, \<^verbatim>\<open>CounterStore\<close> (\<^verbatim>\<open>internal/storage/memory\<close>): the in-memory stores, with the contracts of
    the interfaces as the locales \<open>usage_store\<close> and \<open>counter_store\<close> and their interpretations.
  \<^item> \<^verbatim>\<open>RedisStore\<close>, \<^verbatim>\<open>PostgresStore\<close> (\<^verbatim>\<open>internal/storage/redis\<close>, \<^verbatim>\<open>postgres\<close>): the same contract for the stores
    that run a Lua script and an upsert on a server; the server is an argument whose documented
    behaviour, deletion of expired Redis keys included, is stated as laws. \<^verbatim>\<open>Instrumented\<close>: the metrics decorators, proved transparent.
  \<^item> \<^verbatim>\<open>RiskMatch\<close>, \<^verbatim>\<open>RiskEngine\<close>, \<^verbatim>\<open>RiskCounter\<close> (\<^verbatim>\<open>internal/risk\<close>): conditions, compilation of chains, their
    evaluation against a first-match semantics given as an inductive relation, and the counters.
  \<^item> \<^verbatim>\<open>Pending\<close> (\<^verbatim>\<open>internal/risk/pending.go\<close>): the limiter of concurrent requests, its bound over every
    interleaving of entering and leaving, and the locale \<open>request_limiter\<close> that the service relies on.
  \<^item> \<^verbatim>\<open>AuthResult\<close>, \<^verbatim>\<open>Auth\<close> (\<^verbatim>\<open>internal/auth\<close>): results and the whole flow of \<^verbatim>\<open>Service.Verify\<close>. The service is
    a record of its collaborators, \<open>World\<close> is the state they share, \<open>Clocks\<close> the clock readings of one
    request. \<^verbatim>\<open>VerifyFlow\<close> holds the case rules of the flow (every result is recorded once, no limiter
    slot leaks), \<^verbatim>\<open>TokenSpec\<close> the specification of a good token and the verdict in its terms, \<^verbatim>\<open>Quota\<close> the
    properties of whole runs (the requests that rely on one sign id are at most \<^verbatim>\<open>max_uses\<close>, first-use binding, dry run).
  \<^item> \<^verbatim>\<open>Transport\<close> (\<^verbatim>\<open>internal/transport/echo\<close>): the handler, its headers and statuses, middleware, routes.
  \<^item> \<^verbatim>\<open>ConfigStore\<close>, \<^verbatim>\<open>ConfigHistory\<close> (\<^verbatim>\<open>internal/configstore\<close>): the managed configuration file with its
    revisions and drafts over a disk whose system calls may fail (\<open>HostOS\<close>), its invariant, and the
    sessions of several processes: application is atomic, re-opening recovers, the history is
    append-only (locale \<open>revision_log\<close>), opening records at most one revision.
  \<^item> \<^verbatim>\<open>ConfigSecret\<close> (\<^verbatim>\<open>internal/configctl/secret.go\<close>): redaction of YAML trees and the merge of an edited text
    with the live secrets: what redaction replaces and keeps at every path, the round trip, and the
    origin of every secret in a merge. \<^verbatim>\<open>ConfigLoad\<close> (\<^verbatim>\<open>config/structure.go\<close>, \<^verbatim>\<open>loader.go\<close>): structure check and loading.
    \<^verbatim>\<open>ConfigCtl\<close> (\<^verbatim>\<open>configctl/manager.go\<close>): differences, danger, plans, application, rollback. The YAML and
    the configuration library are the arguments \<open>Y\<close> and \<open>V\<close>.
  \<^item> \<^verbatim>\<open>Cli\<close> (\<^verbatim>\<open>cmd/garmr\<close>): the commands of the management tool, its prompts and the preview of a request.
  \<^item> \<^verbatim>\<open>App\<close> (\<^verbatim>\<open>internal/app\<close>): construction, resources, shutdown and the cleanup loop.
    \<^verbatim>\<open>Server\<close> (\<^verbatim>\<open>cmd/server\<close>): from the flags to the exit status, with the main thread, the signal thread and the
    requests as a step relation.
  \<^item> \<^verbatim>\<open>Telemetry\<close> (\<^verbatim>\<open>internal/logging\<close>, \<^verbatim>\<open>metrics\<close>): the fields of a log line and the registration of metrics.
    \<^verbatim>\<open>AccessLog\<close> (\<^verbatim>\<open>auth/result_recorder.go\<close>): the log line of a verification.

  \<^bold>\<open>Bounds and fuel.\<close> Rule evaluation recurses through jumps with the fuel \<open>enough_fuel\<close>: the code stops a
  chain at its ninth visit, so nine visits for each name that occurs suffice, and
  \<open>Evaluate_terminates\<close> proves that the fuel never runs out. The cycle search uses \<open>dfs_fuel\<close>, more
  than the number of names, and is proved total. All other recursion is structural or has a measure.

  \<^bold>\<open>Concurrency.\<close> Every operation of a store or of the limiter runs under one mutex (or atomically on
  its server), so interleavings are sequences of operations; the theorems quantify over all of
  them. The in-memory store looks at its closed flag just before it takes the lock; a closing in
  between is not modelled. A request is one step in \<^verbatim>\<open>Quota\<close>, so two requests that race between the
  lookup and the recording of a first-use binding are not covered; the limiter's bound is proved for
  the finer steps of entering and leaving. The mutex of the configuration store is one process's:
  applications by two processes are steps one after the other, and their overlap is not modelled.

  \<^bold>\<open>Assumptions.\<close> A Go map iterates in any order, the model's in list order; the two differ for chain
  names that agree up to letter case. The disk may fail at any writing step, but reads and removals
  are assumed to succeed (\<open>host_law\<close>). What servers and libraries promise is stated as laws on the
  arguments that stand for them, and every such law is shown to hold of a concrete instance.

  \<^bold>\<open>Not modelled.\<close> Flag parsing and the wording and layout of what the tools print; alias cycles in YAML
  texts; the rename of files on Windows; the log lines of components other than the verification, and metric values other
  than labels; latencies; the deletion of Redis keys for want of memory; the web framework, logging and database libraries.
\<close>

end
